(* ===== verification/Prelude.thy ===== *)
theory Prelude
  imports Main "HOL-Library.Monad_Syntax"
begin

section \<open>Prelude: programs with faults, and the shared proof rules\<close>

text \<open>
  What every component shares.  A C function that touches static or heap state is a
  \<open>prog\<close>: a function from the state to an \<open>outcome\<close>.  An outcome is a normal return
  with a value (\<open>Done\<close>), no return at all (\<open>Blocked\<close>: a wait that the environment never
  ends, or an endless loop), or
  undefined behaviour of the C abstract machine that the code runs into (\<open>Fault\<close>).
  The last two keep the state reached so far, so that a statement can speak about what had
  happened by then.  \<open>bindp\<close> is sequencing, \<open>seqp\<close> sequencing without a value.

  The collection \<open>outcome_simps\<close> holds the facts that run a program symbolically;
  \<open>frame_rules\<close> holds the syntax-directed rules of the two-state Hoare predicate
  \<open>yields\<close> used for frame conditions.  \<open>safe\<close> is the total counterpart that also excludes
  faults.
\<close>

named_theorems outcome_simps \<open>equations that evaluate programs step by step\<close>
named_theorems frame_rules \<open>introduction rules for two-state specifications\<close>

datatype fault =
    NullDeref       \<comment> \<open>a NULL pointer is dereferenced\<close>
  | WildPointer     \<comment> \<open>an uninitialised pointer is used\<close>
  | UseAfterFree    \<comment> \<open>freed memory is read or written\<close>
  | DoubleFree      \<comment> \<open>memory is freed twice\<close>
  | OutOfBounds     \<comment> \<open>an array is accessed outside its extent\<close>
  | AssertFailed    \<comment> \<open>a failing assert\<close>

datatype ('s, 'a) outcome =
    Done 'a 's
  | Blocked 's
  | Fault fault 's

type_synonym ('s, 'a) prog = "'s \<Rightarrow> ('s, 'a) outcome"

definition ret :: "'a \<Rightarrow> ('s, 'a) prog" where
  "ret x = (\<lambda>s. Done x s)"

definition bindp :: "('s, 'a) prog \<Rightarrow> ('a \<Rightarrow> ('s, 'b) prog) \<Rightarrow> ('s, 'b) prog" where
  "bindp m k = (\<lambda>s. case m s of
      Done x s' \<Rightarrow> k x s'
    | Blocked s' \<Rightarrow> Blocked s'
    | Fault f s' \<Rightarrow> Fault f s')"

definition seqp :: "('s, 'a) prog \<Rightarrow> ('s, 'b) prog \<Rightarrow> ('s, 'b) prog" where
  "seqp m n = bindp m (\<lambda>_. n)"

definition getp :: "('s \<Rightarrow> 'a) \<Rightarrow> ('s, 'a) prog" where
  "getp f = (\<lambda>s. Done (f s) s)"

definition modp :: "('s \<Rightarrow> 's) \<Rightarrow> ('s, unit) prog" where
  "modp f = (\<lambda>s. Done () (f s))"

definition failp :: "fault \<Rightarrow> ('s, 'a) prog" where
  "failp f = (\<lambda>s. Fault f s)"

lemma ret_apply [outcome_simps]: "ret x s = Done x s"
  by (simp add: ret_def)

lemma bindp_apply [outcome_simps]:
  "bindp m k s = (case m s of
      Done x s' \<Rightarrow> k x s'
    | Blocked s' \<Rightarrow> Blocked s'
    | Fault f s' \<Rightarrow> Fault f s')"
  by (simp add: bindp_def)

lemma seqp_apply [outcome_simps]:
  "seqp m n s = (case m s of
      Done x s' \<Rightarrow> n s'
    | Blocked s' \<Rightarrow> Blocked s'
    | Fault f s' \<Rightarrow> Fault f s')"
  by (simp add: seqp_def bindp_def)

lemma getp_apply [outcome_simps]: "getp f s = Done (f s) s"
  by (simp add: getp_def)

lemma modp_apply [outcome_simps]: "modp f s = Done () (f s)"
  by (simp add: modp_def)

lemma failp_apply [outcome_simps]: "failp f s = Fault f s"
  by (simp add: failp_def)

lemma bindp_ret [simp]: "bindp (ret x) k = k x"
  by (simp add: bindp_def ret_def)

lemma bindp_assoc: "bindp (bindp m k) h = bindp m (\<lambda>x. bindp (k x) h)"
  by (auto simp: bindp_def fun_eq_iff split: outcome.splits)

lemma bindp_DoneE:
  assumes "bindp m k s = Done y t"
  obtains x s' where "m s = Done x s'" and "k x s' = Done y t"
  using assms by (auto simp: bindp_def split: outcome.splits)

lemma seqp_DoneE:
  assumes "seqp m n s = Done y t"
  obtains x s' where "m s = Done x s'" and "n s' = Done y t"
  using assms by (auto simp: seqp_def elim: bindp_DoneE)

subsection \<open>Two-state specifications\<close>

text \<open>
  \<open>yields R m\<close>: whenever \<open>m\<close> returns normally, its value and the states before and
  after stand in the relation \<open>R\<close>.  It is a statement of partial correctness; where a
  program is claimed to return, that is stated by an equation \<open>m s = Done x s'\<close>.
\<close>

definition yields :: "('a \<Rightarrow> 's \<Rightarrow> 's \<Rightarrow> bool) \<Rightarrow> ('s, 'a) prog \<Rightarrow> bool" where
  "yields R m \<longleftrightarrow> (\<forall>s x s'. m s = Done x s' \<longrightarrow> R x s s')"

lemma yieldsI: "(\<And>s x s'. m s = Done x s' \<Longrightarrow> R x s s') \<Longrightarrow> yields R m"
  by (simp add: yields_def)

lemma yieldsD: "yields R m \<Longrightarrow> m s = Done x s' \<Longrightarrow> R x s s'"
  by (simp add: yields_def)

lemma yields_mono: "yields R m \<Longrightarrow> (\<And>x s s'. R x s s' \<Longrightarrow> Q x s s') \<Longrightarrow> yields Q m"
  by (simp add: yields_def)

subsection \<open>Preserved relations\<close>

text \<open>
  \<open>keeps R m\<close>: the states before and after a normal return of \<open>m\<close> are related by \<open>R\<close>.  The
  rules need \<open>R\<close> transitive, and reflexive where the program does nothing.
\<close>

definition keeps :: "('s \<Rightarrow> 's \<Rightarrow> bool) \<Rightarrow> ('s, 'a) prog \<Rightarrow> bool" where
  "keeps R = yields (\<lambda>_ s s'. R s s')"

lemma keepsI: "(\<And>s x s'. m s = Done x s' \<Longrightarrow> R s s') \<Longrightarrow> keeps R m"
  by (simp add: keeps_def yields_def)

lemma keepsD: "keeps R m \<Longrightarrow> m s = Done x s' \<Longrightarrow> R s s'"
  by (simp add: keeps_def yields_def)

lemma keeps_bind: "transp R \<Longrightarrow> keeps R m \<Longrightarrow> (\<And>x. keeps R (f x)) \<Longrightarrow> keeps R (bindp m f)"
  unfolding keeps_def yields_def by (fastforce elim!: bindp_DoneE dest: transpD)

lemma keeps_seq: "transp R \<Longrightarrow> keeps R m \<Longrightarrow> keeps R n \<Longrightarrow> keeps R (seqp m n)"
  unfolding seqp_def by (rule keeps_bind)

lemma keeps_ret: "reflp R \<Longrightarrow> keeps R (ret x)"
  by (rule keepsI) (auto simp: ret_def dest: reflpD)

lemma keeps_getp: "reflp R \<Longrightarrow> keeps R (getp f)"
  by (rule keepsI) (auto simp: getp_def dest: reflpD)

lemma keeps_modp: "(\<And>s. R s (f s)) \<Longrightarrow> keeps R (modp f)"
  by (rule keepsI) (auto simp: modp_def)

lemma keeps_failp: "keeps R (failp f)"
  by (rule keepsI) (simp add: failp_def)

subsection \<open>Runs without faults\<close>

text \<open>
  \<open>safe B m s Q\<close>: started in \<open>s\<close>, \<open>m\<close> runs into no undefined behaviour, and if it returns,
  \<open>Q\<close> holds.  It may wait for ever for an environment that stays silent only if \<open>B\<close>: with
  \<open>B\<close> false the statement is total correctness.
\<close>

definition safe :: "bool \<Rightarrow> ('s, 'a) prog \<Rightarrow> 's \<Rightarrow> ('a \<Rightarrow> 's \<Rightarrow> bool) \<Rightarrow> bool" where
  "safe B m s Q \<longleftrightarrow> (case m s of Done x t \<Rightarrow> Q x t | Blocked _ \<Rightarrow> B | Fault _ _ \<Rightarrow> False)"

lemma safe_bind:
  "safe B m s P \<Longrightarrow> (\<And>x t. P x t \<Longrightarrow> safe B (f x) t Q) \<Longrightarrow> safe B (bindp m f) s Q"
  by (cases "m s") (simp_all add: safe_def bindp_def)

lemma safe_seq: "safe B m s P \<Longrightarrow> (\<And>x t. P x t \<Longrightarrow> safe B n t Q) \<Longrightarrow> safe B (seqp m n) s Q"
  unfolding seqp_def by (rule safe_bind)

lemma safe_ret [simp]: "safe B (ret x) s Q = Q x s"
  by (simp add: safe_def ret_def)

lemma safe_bind_getp [simp]: "safe B (bindp (getp f) k) s Q = safe B (k (f s)) s Q"
  by (simp add: safe_def bindp_def getp_def)

lemma safe_seq_modp [simp]: "safe B (seqp (modp f) n) s Q = safe B n (f s) Q"
  by (simp add: safe_def seqp_def bindp_def modp_def)

lemma safe_modp [simp]: "safe B (modp f) s Q = Q () (f s)"
  by (simp add: safe_def modp_def)

lemma safe_getp [simp]: "safe B (getp f) s Q = Q (f s) s"
  by (simp add: safe_def getp_def)

lemma safe_mono: "safe B m s P \<Longrightarrow> (\<And>x t. P x t \<Longrightarrow> Q x t) \<Longrightarrow> safe B m s Q"
  by (auto simp: safe_def split: outcome.splits)

lemma safe_Done: "m s = Done x t \<Longrightarrow> safe B m s Q = Q x t"
  by (simp add: safe_def)

lemma safe_bind_Done: "m s = Done x t \<Longrightarrow> safe B (bindp m f) s Q = safe B (f x) t Q"
  by (simp add: safe_def bindp_def)

lemma safe_seq_Done: "m s = Done x t \<Longrightarrow> safe B (seqp m n) s Q = safe B n t Q"
  by (simp add: safe_def seqp_def bindp_def)

lemma safeI:
  "(\<And>f t. m s \<noteq> Fault f t) \<Longrightarrow> (\<not> B \<Longrightarrow> \<exists>x t. m s = Done x t) \<Longrightarrow>
   (\<And>x t. m s = Done x t \<Longrightarrow> Q x t) \<Longrightarrow> safe B m s Q"
  by (cases "m s") (auto simp: safe_def)

lemma safeD: "safe B m s Q \<Longrightarrow> m s = Done x t \<Longrightarrow> Q x t"
  by (simp add: safe_def)

lemma safe_total: "safe False m s Q \<longleftrightarrow> (\<exists>x t. m s = Done x t \<and> Q x t)"
  by (cases "m s") (auto simp: safe_def)

lemma safe_no_fault: "safe B m s Q \<Longrightarrow> m s \<noteq> Fault f t"
  by (auto simp: safe_def)

lemma safe_conj: "safe B m s P \<Longrightarrow> safe B m s Q \<Longrightarrow> safe B m s (\<lambda>x t. P x t \<and> Q x t)"
  by (auto simp: safe_def split: outcome.splits)

subsection \<open>Counting programs\<close>

text \<open>
  \<open>adds c k m\<close>: a normal return of \<open>m\<close> raises the counter \<open>c\<close> by exactly \<open>k\<close>.
  The rules split a program along its structure; a sequence in which one part carries the
  whole count uses \<open>adds_bind_r\<close> or \<open>adds_bind_l\<close>.
\<close>

definition adds :: "('s \<Rightarrow> nat) \<Rightarrow> nat \<Rightarrow> ('s, 'a) prog \<Rightarrow> bool" where
  "adds c k = yields (\<lambda>_ s s'. c s' = c s + k)"

lemma addsI: "(\<And>s x s'. m s = Done x s' \<Longrightarrow> c s' = c s + k) \<Longrightarrow> adds c k m"
  by (simp add: adds_def yields_def)

lemma addsD: "adds c k m \<Longrightarrow> m s = Done x s' \<Longrightarrow> c s' = c s + k"
  by (simp add: adds_def yields_def)

lemma adds_bind:
  "adds c j m \<Longrightarrow> (\<And>x. adds c k (f x)) \<Longrightarrow> adds c (j + k) (bindp m f)"
  unfolding adds_def yields_def by (fastforce elim!: bindp_DoneE)

lemma adds_bind_r [frame_rules]:
  "adds c 0 m \<Longrightarrow> (\<And>x. adds c k (f x)) \<Longrightarrow> adds c k (bindp m f)"
  using adds_bind [of c 0 m k f] by simp

lemma adds_bind_l: "adds c k m \<Longrightarrow> (\<And>x. adds c 0 (f x)) \<Longrightarrow> adds c k (bindp m f)"
  using adds_bind [of c k m 0 f] by simp

lemma adds_seq_r [frame_rules]: "adds c 0 m \<Longrightarrow> adds c k n \<Longrightarrow> adds c k (seqp m n)"
  unfolding seqp_def by (rule adds_bind_r)

lemma adds_seq_l: "adds c k m \<Longrightarrow> adds c 0 n \<Longrightarrow> adds c k (seqp m n)"
  unfolding seqp_def by (rule adds_bind_l)

lemma adds_ret [frame_rules]: "adds c 0 (ret x)"
  by (rule addsI) (simp add: ret_def)

lemma adds_getp [frame_rules]: "adds c 0 (getp f)"
  by (rule addsI) (simp add: getp_def)

lemma adds_modp [frame_rules]: "(\<And>s. c (f s) = c s + k) \<Longrightarrow> adds c k (modp f)"
  by (rule addsI) (auto simp: modp_def)

lemma adds_failp [frame_rules]: "adds c k (failp f)"
  by (rule addsI) (simp add: failp_def)

lemma adds_if [frame_rules]:
  "(b \<Longrightarrow> adds c k m) \<Longrightarrow> (\<not> b \<Longrightarrow> adds c k n) \<Longrightarrow> adds c k (if b then m else n)"
  by simp

lemma adds_option [frame_rules]:
  "(adds c k m) \<Longrightarrow> (\<And>x. adds c k (f x)) \<Longrightarrow> adds c k (case z of None \<Rightarrow> m | Some x \<Rightarrow> f x)"
  by (cases z) auto

lemma adds_prod [frame_rules]:
  "(\<And>x y. adds c k (f x y)) \<Longrightarrow> adds c k (case z of (x, y) \<Rightarrow> f x y)"
  by (cases z) auto

subsection \<open>The state a program ends in\<close>

definition outcome_state :: "('s, 'a) outcome \<Rightarrow> 's" where
  "outcome_state x = (case x of Done _ s \<Rightarrow> s | Blocked s \<Rightarrow> s | Fault _ s \<Rightarrow> s)"

lemma outcome_state_simps [simp]:
  "outcome_state (Done x s) = s" "outcome_state (Blocked s) = s" "outcome_state (Fault f s) = s"
  by (simp_all add: outcome_state_def)

text \<open>\<open>stateless m\<close>: however \<open>m\<close> ends, the state is the one it began with.\<close>

definition stateless :: "('s, 'a) prog \<Rightarrow> bool" where
  "stateless m \<longleftrightarrow> (\<forall>s. outcome_state (m s) = s)"

lemma statelessD: "stateless m \<Longrightarrow> outcome_state (m s) = s"
  by (simp add: stateless_def)

lemma stateless_pure: "stateless (ret x)" "stateless (getp f)" "stateless (failp e)"
  by (simp_all add: stateless_def ret_def getp_def failp_def)

lemma stateless_bind: "stateless m \<Longrightarrow> (\<And>x. stateless (f x)) \<Longrightarrow> stateless (bindp m f)"
  unfolding stateless_def
proof (rule allI)
  fix s
  assume m: "\<forall>s. outcome_state (m s) = s" and f: "\<And>x. \<forall>s. outcome_state (f x s) = s"
  show "outcome_state (bindp m f s) = s"
    using m [rule_format, of s] f by (cases "m s") (simp_all add: bindp_def)
qed

lemma stateless_if: "(b \<Longrightarrow> stateless m) \<Longrightarrow> (\<not> b \<Longrightarrow> stateless n) \<Longrightarrow> stateless (if b then m else n)"
  by simp

lemma stateless_option:
  "stateless m \<Longrightarrow> (\<And>x. stateless (f x)) \<Longrightarrow> stateless (case z of None \<Rightarrow> m | Some x \<Rightarrow> f x)"
  by (cases z) auto

lemmas stateless_rules = stateless_pure stateless_bind stateless_if stateless_option

subsection \<open>Lists\<close>

lemma takeWhile_all_append [simp]:
  "c \<notin> set xs \<Longrightarrow> takeWhile (\<lambda>x. x \<noteq> c) (xs @ c # ys) = xs"
  by (induction xs) auto

lemma dropWhile_all_append [simp]:
  "c \<notin> set xs \<Longrightarrow> dropWhile (\<lambda>x. x \<noteq> c) (xs @ c # ys) = c # ys"
  by (induction xs) auto

lemma takeWhile_neq_all [simp]: "c \<notin> set xs \<Longrightarrow> takeWhile (\<lambda>x. x \<noteq> c) xs = xs"
  by (induction xs) auto

lemma dropWhile_neq_all [simp]: "c \<notin> set xs \<Longrightarrow> dropWhile (\<lambda>x. x \<noteq> c) xs = []"
  by (induction xs) auto

end
