(* ===== verification/CLib.thy ===== *)
theory CLib
  imports Prelude
begin

section \<open>The C library functions the sources call\<close>

text \<open>
  C strings are \<open>string\<close>s without their terminating NUL; a \<open>char *\<close> that may be NULL is
  a \<open>string option\<close>.  The integers are those of an LP64 build: \<open>int\<close> has 32 bits and
  \<open>long\<close> has 64, both kept as HOL \<open>int\<close>s inside their range, with conversions written
  out (\<open>int_of_long\<close>).
\<close>

subsection \<open>Character classes and string search\<close>

definition isspace :: "char \<Rightarrow> bool" where
  "isspace c \<longleftrightarrow> c \<in> set [CHR '' '', CHR 0x09, CHR 0x0A, CHR 0x0B, CHR 0x0C, CHR 0x0D]"

definition code :: "char \<Rightarrow> nat" where
  "code c = of_char c"

definition isdigit :: "char \<Rightarrow> bool" where
  "isdigit c \<longleftrightarrow> 48 \<le> code c \<and> code c \<le> 57"

definition strchr :: "string \<Rightarrow> char \<Rightarrow> string option" where
  "strchr s c = (if c \<in> set s then Some (dropWhile (\<lambda>x. x \<noteq> c) s) else None)"

text \<open>\<open>strsep\<close> with a one-character delimiter set: the token, and the advanced pointer.\<close>

definition strsep :: "string \<Rightarrow> char \<Rightarrow> string \<times> string option" where
  "strsep s d = (takeWhile (\<lambda>x. x \<noteq> d) s,
     case dropWhile (\<lambda>x. x \<noteq> d) s of [] \<Rightarrow> None | _ # r \<Rightarrow> Some r)"

definition strspn :: "string \<Rightarrow> string \<Rightarrow> nat" where
  "strspn s accept = length (takeWhile (\<lambda>c. c \<in> set accept) s)"

text \<open>The text at a pointer into an array, up to its terminating NUL.\<close>

abbreviation NUL :: char where "NUL \<equiv> CHR 0x00"

definition c_string :: "string \<Rightarrow> string" where
  "c_string xs = takeWhile (\<lambda>c. c \<noteq> NUL) xs"

lemma c_string_split: "NUL \<in> set xs \<Longrightarrow> \<exists>zs. xs = c_string xs @ NUL # zs"
proof (induction xs)
  case (Cons c cs)
  then show ?case by (cases "c = NUL") (auto simp: c_string_def)
qed simp

lemma c_string_append [simp]: "NUL \<notin> set q \<Longrightarrow> c_string (q @ NUL # zs) = q"
  by (simp add: c_string_def)

subsection \<open>Number conversions\<close>

text \<open>The value of a digit in base 10 or 16.\<close>

definition digit_val :: "nat \<Rightarrow> char \<Rightarrow> nat option" where
  "digit_val b c =
     (let n = code c;
          d = (if 48 \<le> n \<and> n \<le> 57 then n - 48
               else if 97 \<le> n \<and> n \<le> 122 then n - 87
               else if 65 \<le> n \<and> n \<le> 90 then n - 55 else b)
      in if d < b then Some d else None)"

fun scan_digits :: "nat \<Rightarrow> nat \<Rightarrow> string \<Rightarrow> nat \<times> string" where
  "scan_digits b acc [] = (acc, [])"
| "scan_digits b acc (c # cs) =
     (case digit_val b c of
        Some d \<Rightarrow> scan_digits b (acc * b + d) cs
      | None \<Rightarrow> (acc, c # cs))"

definition starts_digit :: "nat \<Rightarrow> string \<Rightarrow> bool" where
  "starts_digit b s = (case s of [] \<Rightarrow> False | c # _ \<Rightarrow> digit_val b c \<noteq> None)"

fun strip_sign :: "string \<Rightarrow> bool \<times> string" where
  "strip_sign [] = (False, [])"
| "strip_sign (c # cs) =
     (if c = CHR ''-'' then (True, cs) else if c = CHR ''+'' then (False, cs) else (False, c # cs))"

definition strip_0x :: "string \<Rightarrow> string" where
  "strip_0x s = (case s of
      z # x # r \<Rightarrow> if z = CHR ''0'' \<and> (x = CHR ''x'' \<or> x = CHR ''X'') \<and> starts_digit 16 r
                   then r else s
    | _ \<Rightarrow> s)"

text \<open>
  The common part of \<open>strtol\<close> and \<open>strtoul\<close>: the sign, the magnitude, and the text
  after the number; \<open>None\<close> when no conversion can be performed (\<open>end == nptr\<close>).
\<close>

definition scan_number :: "nat \<Rightarrow> string \<Rightarrow> (bool \<times> nat \<times> string) option" where
  "scan_number b s =
     (let (neg, t) = strip_sign (dropWhile isspace s);
          u = (if b = 16 then strip_0x t else t)
      in if starts_digit b u then (let (n, r) = scan_digits b 0 u in Some (neg, n, r)) else None)"

definition LONG_MAX :: int where "LONG_MAX = 9223372036854775807"
definition LONG_MIN :: int where "LONG_MIN = - 9223372036854775808"
definition ULONG_MAX :: int where "ULONG_MAX = 18446744073709551615"

definition strtol_val :: "bool \<Rightarrow> nat \<Rightarrow> int" where
  "strtol_val neg n = (if neg then max LONG_MIN (- int n) else min LONG_MAX (int n))"

definition strtoul_val :: "bool \<Rightarrow> nat \<Rightarrow> int" where
  "strtoul_val neg n =
     (if int n > ULONG_MAX then ULONG_MAX
      else if neg then (- int n) mod (ULONG_MAX + 1) else int n)"

text \<open>The conversion \<open>(int)l\<close> of a 64-bit value: the low 32 bits, read as two's complement.\<close>

definition int_of_long :: "int \<Rightarrow> int" where
  "int_of_long l = (l + 2147483648) mod 4294967296 - 2147483648"

text \<open>\<open>atoi\<close> is \<open>(int) strtol(s, NULL, 10)\<close>, 0 when nothing is converted.\<close>

definition atoi :: "string \<Rightarrow> int" where
  "atoi s = (case scan_number 10 s of
      None \<Rightarrow> 0 | Some (neg, n, _) \<Rightarrow> int_of_long (strtol_val neg n))"

subsection \<open>Printing numbers\<close>

definition digit_char :: "nat \<Rightarrow> char" where
  "digit_char d = char_of (if d < 10 then 48 + d else 87 + d)"

fun print_nat :: "nat \<Rightarrow> nat \<Rightarrow> string" where
  "print_nat b n =
     (if n < b \<or> b < 2 then [digit_char n] else print_nat b (n div b) @ [digit_char (n mod b)])"

declare print_nat.simps [simp del]

text \<open>\<open>%d\<close> and, for a 32-bit argument read as unsigned, \<open>%x\<close>.\<close>

definition print_d :: "int \<Rightarrow> string" where
  "print_d i = (if i < 0 then CHR ''-'' # print_nat 10 (nat (- i)) else print_nat 10 (nat i))"

definition print_x :: "int \<Rightarrow> string" where
  "print_x i = print_nat 16 (nat (i mod 4294967296))"

subsection \<open>Facts about the conversions\<close>

definition int32 :: "int \<Rightarrow> bool" where
  "int32 i \<longleftrightarrow> - 2147483648 \<le> i \<and> i \<le> 2147483647"

lemma int_of_long_range [simp, intro]: "int32 (int_of_long l)"
  by (simp add: int32_def int_of_long_def)

lemma int_of_long_id [simp]: "int32 i \<Longrightarrow> int_of_long i = i"
  by (simp add: int32_def int_of_long_def)

lemma code_digit_char: "d < 16 \<Longrightarrow> code (digit_char d) = (if d < 10 then 48 + d else 87 + d)"
  by (simp add: code_def digit_char_def of_char_of)

lemma digit_val_digit_char [simp]: "d < b \<Longrightarrow> b \<le> 16 \<Longrightarrow> digit_val b (digit_char d) = Some d"
  by (auto simp: digit_val_def Let_def code_digit_char)

lemma scan_digits_append:
  "list_all (\<lambda>c. digit_val b c \<noteq> None) xs \<Longrightarrow>
   scan_digits b acc (xs @ ys) = scan_digits b (fst (scan_digits b acc xs)) ys"
  by (induction xs arbitrary: acc) (auto split: option.splits)

lemma print_nat_digits:
  "2 \<le> b \<Longrightarrow> b \<le> 16 \<Longrightarrow> list_all (\<lambda>c. digit_val b c \<noteq> None) (print_nat b n)"
proof (induction b n rule: print_nat.induct)
  case (1 b n)
  then show ?case
    by (cases "n < b") (simp_all add: print_nat.simps [of b n])
qed

lemma print_nat_nonempty [simp]: "print_nat b n \<noteq> []"
  by (simp add: print_nat.simps [of b n])

lemma scan_print_nat:
  "2 \<le> b \<Longrightarrow> b \<le> 16 \<Longrightarrow> \<not> starts_digit b rest \<Longrightarrow>
   scan_digits b 0 (print_nat b n @ rest) = (n, rest)"
proof (induction b n arbitrary: rest rule: print_nat.induct)
  case (1 b n)
  have stop: "scan_digits b acc rest = (acc, rest)" for acc
    using "1.prems"(3) by (cases rest) (auto simp: starts_digit_def)
  show ?case
  proof (cases "n < b")
    case True
    then show ?thesis
      using "1.prems" stop by (simp add: print_nat.simps [of b n])
  next
    case False
    have "scan_digits b 0 (print_nat b (n div b)) = (n div b, [])"
      using "1.IH" [of "[]"] False "1.prems" by (simp add: starts_digit_def)
    moreover have "list_all (\<lambda>c. digit_val b c \<noteq> None) (print_nat b (n div b))"
      using "1.prems" by (intro print_nat_digits)
    ultimately have "scan_digits b 0 (print_nat b (n div b) @ [digit_char (n mod b)] @ rest)
        = (n, rest)"
      using "1.prems" stop by (subst scan_digits_append) auto
    then show ?thesis
      using False "1.prems" by (simp add: print_nat.simps [of b n])
  qed
qed

lemma hd_print_nat: "2 \<le> b \<Longrightarrow> b \<le> 16 \<Longrightarrow> digit_val b (hd (print_nat b n)) \<noteq> None"
  using print_nat_digits [of b n] print_nat_nonempty [of b n]
  by (cases "print_nat b n") auto

end
