(* ===== verification/AtTok.thy ===== *)
theory AtTok
  imports CLib
begin

section \<open>at\_tok.c: the tokenizer of AT response lines\<close>

text \<open>
  The tokenizer walks a \<open>char *\<close> over a line.  The pointer \<open>*p_cur\<close> is a \<open>cursor\<close>:
  \<open>None\<close> is NULL, \<open>Some s\<close> points at the text \<open>s\<close>.  Every function returns its C
  return value, what it stores through its out parameter (\<open>None\<close> when it stores nothing)
  and the advanced cursor.  The NULs that \<open>strsep\<close> writes into the line end the tokens
  it returns; the tokens are values here.
\<close>

type_synonym cursor = "string option"

definition at_tok_start :: "cursor \<Rightarrow> int \<times> cursor" where
  "at_tok_start cur = (case cur of
      None \<Rightarrow> (-1, None)
    | Some s \<Rightarrow> (case strchr s (CHR '':'') of
        None \<Rightarrow> (-1, None)
      | Some t \<Rightarrow> (0, Some (tl t))))"

fun skip_white :: "string \<Rightarrow> string" where
  "skip_white [] = []"
| "skip_white (c # cs) = (if isspace c then skip_white cs else c # cs)"

definition skipWhiteSpace :: "cursor \<Rightarrow> cursor" where
  "skipWhiteSpace cur = map_option skip_white cur"

fun skip_comma :: "string \<Rightarrow> string" where
  "skip_comma [] = []"
| "skip_comma (c # cs) = (if c = CHR '','' then cs else skip_comma cs)"

definition skipNextComma :: "cursor \<Rightarrow> cursor" where
  "skipNextComma cur = map_option skip_comma cur"

definition nextTok :: "cursor \<Rightarrow> string option \<times> cursor" where
  "nextTok cur = (case skipWhiteSpace cur of
      None \<Rightarrow> (None, None)
    | Some s \<Rightarrow>
        (if s \<noteq> [] \<and> hd s = CHR 0x22
         then (let (tok, r) = strsep (tl s) (CHR 0x22) in (Some tok, skipNextComma r))
         else (let (tok, r) = strsep s (CHR '','') in (Some tok, r))))"

definition at_tok_nextint_base :: "cursor \<Rightarrow> nat \<Rightarrow> bool \<Rightarrow> int \<times> int option \<times> cursor" where
  "at_tok_nextint_base cur base uns =
     (if cur = None then (-1, None, cur)
      else (case nextTok cur of
        (None, cur') \<Rightarrow> (-1, None, cur')
      | (Some tok, cur') \<Rightarrow>
          (case scan_number base tok of
             None \<Rightarrow> (-1, Some 0, cur')
           | Some (neg, n, _) \<Rightarrow>
               (0, Some (int_of_long (if uns then strtoul_val neg n else strtol_val neg n)), cur'))))"

definition at_tok_nextint :: "cursor \<Rightarrow> int \<times> int option \<times> cursor" where
  "at_tok_nextint cur = at_tok_nextint_base cur 10 False"

definition at_tok_nexthexint :: "cursor \<Rightarrow> int \<times> int option \<times> cursor" where
  "at_tok_nexthexint cur = at_tok_nextint_base cur 16 True"

definition at_tok_nextbool :: "cursor \<Rightarrow> int \<times> int option \<times> cursor" where
  "at_tok_nextbool cur = (case at_tok_nextint cur of (r, out, cur') \<Rightarrow>
     if r < 0 then (-1, None, cur')
     else if \<not> (out = Some 0 \<or> out = Some 1) then (-1, None, cur')
     else (r, out, cur'))"

definition at_tok_nextstr :: "cursor \<Rightarrow> int \<times> string option \<times> cursor" where
  "at_tok_nextstr cur =
     (if cur = None then (-1, None, cur) else (case nextTok cur of (tok, cur') \<Rightarrow> (0, tok, cur')))"

definition at_tok_hasmore :: "cursor \<Rightarrow> bool" where
  "at_tok_hasmore cur \<longleftrightarrow> \<not> (cur = None \<or> cur = Some [])"

text \<open>
  The callers' idiom \<open>err = at_tok_...(&line, &x); if (err < 0) goto error;\<close>: the value and
  the cursor, or \<open>None\<close> where control goes to \<open>error\<close>.
\<close>

definition tok_start :: "cursor \<Rightarrow> cursor option" where
  "tok_start cur = (case at_tok_start cur of (err, cur') \<Rightarrow> if err < 0 then None else Some cur')"

definition tok_or_goto :: "(cursor \<Rightarrow> int \<times> 'a option \<times> cursor) \<Rightarrow> cursor \<Rightarrow> ('a \<times> cursor) option" where
  "tok_or_goto f cur = (case f cur of (err, out, cur') \<Rightarrow>
     if err < 0 then None else map_option (\<lambda>x. (x, cur')) out)"

abbreviation tok_int :: "cursor \<Rightarrow> (int \<times> cursor) option" where
  "tok_int \<equiv> tok_or_goto at_tok_nextint"

abbreviation tok_hexint :: "cursor \<Rightarrow> (int \<times> cursor) option" where
  "tok_hexint \<equiv> tok_or_goto at_tok_nexthexint"

abbreviation tok_bool :: "cursor \<Rightarrow> (int \<times> cursor) option" where
  "tok_bool \<equiv> tok_or_goto at_tok_nextbool"

abbreviation tok_str :: "cursor \<Rightarrow> (string \<times> cursor) option" where
  "tok_str \<equiv> tok_or_goto at_tok_nextstr"

text \<open>A run of \<open>n\<close> such calls in a row.\<close>

fun tok_many :: "(cursor \<Rightarrow> ('a \<times> cursor) option) \<Rightarrow> nat \<Rightarrow> cursor \<Rightarrow> ('a list \<times> cursor) option" where
  "tok_many f 0 cur = Some ([], cur)"
| "tok_many f (Suc n) cur = do {
     (x, cur) \<leftarrow> f cur;
     (xs, cur) \<leftarrow> tok_many f n cur;
     Some (x # xs, cur)
   }"

lemma tok_many_Suc:
  "f cur = Some (x, c) \<Longrightarrow> tok_many f n c = Some (xs, c') \<Longrightarrow>
   tok_many f (Suc n) cur = Some (x # xs, c')"
  by simp

lemmas at_tok_defs =
  at_tok_start_def at_tok_nextint_base_def at_tok_nextint_def at_tok_nexthexint_def
  at_tok_nextbool_def at_tok_nextstr_def nextTok_def skipWhiteSpace_def skipNextComma_def
  strsep_def

subsection \<open>Every token consumes input\<close>

text \<open>
  The bytes a cursor can still deliver, with NULL below the empty text: each successful
  token makes this strictly smaller, so a run of tokens on a line is bounded by its length.
\<close>

definition cursor_size :: "cursor \<Rightarrow> nat" where
  "cursor_size cur = (case cur of None \<Rightarrow> 0 | Some s \<Rightarrow> Suc (length s))"

lemma skip_white_length: "length (skip_white s) \<le> length s"
  by (induction s) auto

lemma skip_comma_length: "length (skip_comma s) \<le> length s"
  by (induction s) auto

lemma strsep_size:
  assumes "strsep s d = (tok, r)"
  shows "cursor_size r < Suc (length s)"
proof -
  have "length (dropWhile (\<lambda>x. x \<noteq> d) s) \<le> length s"
    by (rule length_dropWhile_le)
  then show ?thesis
    using assms by (auto simp: strsep_def cursor_size_def split: list.splits)
qed

lemma skipNextComma_size: "cursor_size (skipNextComma cur) \<le> cursor_size cur"
  by (cases cur) (auto simp: cursor_size_def skipNextComma_def skip_comma_length)

lemma nextTok_size:
  assumes "nextTok cur = (Some tok, cur')"
  shows "cursor_size cur' < cursor_size cur"
proof (cases cur)
  case None
  then show ?thesis using assms by (simp add: nextTok_def skipWhiteSpace_def)
next
  case (Some s)
  let ?s = "skip_white s"
  have le: "length ?s \<le> length s" by (rule skip_white_length)
  show ?thesis
  proof (cases "?s \<noteq> [] \<and> hd ?s = CHR 0x22")
    case True
    then obtain t r where sep: "strsep (tl ?s) (CHR 0x22) = (t, r)" and "cur' = skipNextComma r"
      using assms Some by (auto simp: nextTok_def skipWhiteSpace_def split: prod.splits)
    moreover have "cursor_size r < Suc (length (tl ?s))"
      using sep by (rule strsep_size)
    ultimately show ?thesis
      using le Some skipNextComma_size [of r] by (simp add: cursor_size_def)
  next
    case False
    then have "strsep ?s (CHR '','') = (tok, cur')"
      using assms Some by (auto simp: nextTok_def skipWhiteSpace_def split: prod.splits if_splits)
    then have "cursor_size cur' < Suc (length ?s)"
      by (rule strsep_size)
    then show ?thesis
      using le Some by (simp add: cursor_size_def)
  qed
qed

lemma nextTok_Some: "\<exists>tok cur'. nextTok (Some s) = (Some tok, cur')"
  by (auto simp: nextTok_def skipWhiteSpace_def split: prod.splits)

locale tokenizer =
  fixes tok :: "cursor \<Rightarrow> ('a \<times> cursor) option"
  assumes consumes: "tok cur = Some (x, cur') \<Longrightarrow> cursor_size cur' < cursor_size cur"
begin

lemma null_stops: "tok None = None"
  using consumes [of None] by (cases "tok None") (auto simp: cursor_size_def)

lemma many_consumes:
  "tok_many tok n cur = Some (xs, cur') \<Longrightarrow> n + cursor_size cur' \<le> cursor_size cur"
proof (induction n arbitrary: cur xs)
  case 0
  then show ?case by simp
next
  case (Suc n)
  then obtain x cur1 ys where "tok cur = Some (x, cur1)" "tok_many tok n cur1 = Some (ys, cur')"
    by (auto split: bind_splits)
  then show ?case
    using Suc.IH consumes by fastforce
qed

lemma many_bounded: "tok_many tok n (Some s) = Some (xs, cur') \<Longrightarrow> n \<le> Suc (length s)"
  using many_consumes by (fastforce simp: cursor_size_def)

lemma many_length: "tok_many tok n cur = Some (xs, cur') \<Longrightarrow> length xs = n"
  by (induction n arbitrary: cur xs) (auto split: bind_splits)

end

lemma nextint_base_size:
  assumes "at_tok_nextint_base cur b u = (err, out, cur')" and "0 \<le> err"
  shows "cursor_size cur' < cursor_size cur"
  using assms
  by (auto simp: at_tok_nextint_base_def split: if_splits option.splits prod.splits dest: nextTok_size)

interpretation ints: tokenizer tok_int
  by unfold_locales
    (auto simp: tok_or_goto_def at_tok_nextint_def split: prod.splits if_splits dest: nextint_base_size)

interpretation hexints: tokenizer tok_hexint
  by unfold_locales
    (auto simp: tok_or_goto_def at_tok_nexthexint_def split: prod.splits if_splits dest: nextint_base_size)

interpretation bools: tokenizer tok_bool
  by unfold_locales
    (auto simp: tok_or_goto_def at_tok_nextbool_def at_tok_nextint_def
      split: prod.splits if_splits dest: nextint_base_size)

interpretation strs: tokenizer tok_str
  by unfold_locales
    (auto simp: tok_or_goto_def at_tok_nextstr_def split: prod.splits if_splits dest: nextTok_size)

subsection \<open>Printed fields are read back\<close>

text \<open>
  A \<open>field\<close> is a tokenizer together with the way the modem prints a value: a printed
  value is read back, in the middle of a line (before a comma) and at its end.  From this
  alone a whole comma-separated list is read back.
\<close>

fun join_fields :: "('a \<Rightarrow> string) \<Rightarrow> 'a list \<Rightarrow> string" where
  "join_fields f [] = []"
| "join_fields f [x] = f x"
| "join_fields f (x # y # ys) = f x @ CHR '','' # join_fields f (y # ys)"

locale field = tokenizer tok for tok :: "cursor \<Rightarrow> ('a \<times> cursor) option" +
  fixes printed :: "'a \<Rightarrow> string"
    and valid :: "'a \<Rightarrow> bool"
  assumes before_comma: "valid x \<Longrightarrow> tok (Some (printed x @ CHR '','' # rest)) = Some (x, Some rest)"
    and at_end: "valid x \<Longrightarrow> \<exists>c. tok (Some (printed x)) = Some (x, c) \<and> \<not> at_tok_hasmore c"
begin

lemma fields_roundtrip:
  "xs \<noteq> [] \<Longrightarrow> \<forall>x \<in> set xs. valid x \<Longrightarrow>
   \<exists>c. tok_many tok (length xs) (Some (join_fields printed xs)) = Some (xs, c) \<and> \<not> at_tok_hasmore c"
proof (induction xs rule: induct_list012)
  case 1
  then show ?case by simp
next
  case (2 x)
  then show ?case using at_end [of x] by auto
next
  case (3 x y ys)
  then obtain c where "tok_many tok (length (y # ys)) (Some (join_fields printed (y # ys)))
      = Some (y # ys, c)" and c: "\<not> at_tok_hasmore c"
    by auto
  moreover have "tok (Some (join_fields printed (x # y # ys)))
      = Some (x, Some (join_fields printed (y # ys)))"
    using 3 before_comma [of x] by simp
  ultimately have "tok_many tok (length (x # y # ys)) (Some (join_fields printed (x # y # ys)))
      = Some (x # y # ys, c)"
    by (simp only: length_Cons [of x] tok_many_Suc)
  then show ?case using c by blast
qed

end

lemma not_digit_in:
  "list_all (\<lambda>c. digit_val b c \<noteq> None) xs \<Longrightarrow> digit_val b c = None \<Longrightarrow> c \<notin> set xs"
  by (auto simp: list_all_iff)

lemma digit_val_specials [simp]:
  "digit_val 10 (CHR '','') = None" "digit_val 16 (CHR '','') = None"
  "digit_val 10 (CHR 0x22) = None" "digit_val 16 (CHR 0x22) = None"
  "digit_val 10 (CHR ''-'') = None" "digit_val 16 (CHR ''-'') = None"
  "digit_val 10 (CHR ''+'') = None" "digit_val 16 (CHR ''+'') = None"
  "digit_val 16 (CHR ''x'') = None" "digit_val 16 (CHR ''X'') = None"
  by (simp_all add: digit_val_def code_def Let_def)

lemma isspace_not_digit: "isspace c \<Longrightarrow> b = 10 \<or> b = 16 \<Longrightarrow> digit_val b c = None"
  by (auto simp: isspace_def digit_val_def code_def Let_def)

text \<open>Text that does not begin with a blank or a quote is delimited by the next comma.\<close>

lemma skip_white_id: "s = [] \<or> \<not> isspace (hd s) \<Longrightarrow> skip_white s = s"
  by (cases s) auto

lemma nextTok_plain_comma:
  assumes "t \<noteq> []" and "\<not> isspace (hd t)" and "hd t \<noteq> CHR 0x22" and "CHR '','' \<notin> set t"
  shows "nextTok (Some (t @ CHR '','' # rest)) = (Some t, Some rest)"
  using assms by (cases t) (auto simp: nextTok_def skipWhiteSpace_def strsep_def)

lemma nextTok_plain_end:
  assumes "t \<noteq> []" and "\<not> isspace (hd t)" and "hd t \<noteq> CHR 0x22" and "CHR '','' \<notin> set t"
  shows "nextTok (Some t) = (Some t, None)"
  using assms by (cases t) (auto simp: nextTok_def skipWhiteSpace_def strsep_def)

lemma nextTok_quoted:
  assumes "CHR 0x22 \<notin> set t"
  shows "nextTok (Some (CHR 0x22 # t @ CHR 0x22 # rest)) = (Some t, Some (skip_comma rest))"
  using assms by (simp add: nextTok_def skipWhiteSpace_def skipNextComma_def strsep_def isspace_def)

lemma nextTok_blank: "isspace c \<Longrightarrow> nextTok (Some (c # s)) = nextTok (Some s)"
  by (simp add: nextTok_def skipWhiteSpace_def)

lemma nextint_base_blank:
  "isspace c \<Longrightarrow> at_tok_nextint_base (Some (c # s)) b u = at_tok_nextint_base (Some s) b u"
  by (simp only: at_tok_nextint_base_def nextTok_blank option.distinct if_False)

lemma tok_int_blank: "isspace c \<Longrightarrow> tok_int (Some (c # s)) = tok_int (Some s)"
  by (simp only: tok_or_goto_def at_tok_nextint_def nextint_base_blank)

lemma print_nat_plain:
  assumes "b = 10 \<or> b = 16"
  shows "\<not> isspace (hd (print_nat b n))" "hd (print_nat b n) \<noteq> CHR 0x22"
    "CHR '','' \<notin> set (print_nat b n)"
proof -
  have b: "2 \<le> b" "b \<le> 16"
    using assms by arith+
  then have d: "list_all (\<lambda>c. digit_val b c \<noteq> None) (print_nat b n)"
    by (rule print_nat_digits)
  have h: "digit_val b (hd (print_nat b n)) \<noteq> None"
    using b by (rule hd_print_nat)
  show "\<not> isspace (hd (print_nat b n))"
    using h isspace_not_digit [OF _ assms] by metis
  show "hd (print_nat b n) \<noteq> CHR 0x22"
    using assms h digit_val_specials(3,4) by metis
  have "digit_val b (CHR '','') = None"
    using assms by (elim disjE) simp_all
  then show "CHR '','' \<notin> set (print_nat b n)"
    by (rule not_digit_in [OF d])
qed

lemma print_x_plain:
  "print_x i \<noteq> []" "\<not> isspace (hd (print_x i))" "hd (print_x i) \<noteq> CHR 0x22"
  "CHR '','' \<notin> set (print_x i)"
  by (auto simp: print_x_def print_nat_plain)

lemma isspace_minus [simp]: "\<not> isspace (CHR ''-'')"
  by (simp add: isspace_def)

lemma print_d_plain:
  "print_d i \<noteq> []" "\<not> isspace (hd (print_d i))" "hd (print_d i) \<noteq> CHR 0x22"
  "CHR '','' \<notin> set (print_d i)"
  by (auto simp: print_d_def print_nat_plain)

lemma dropWhile_isspace: "s = [] \<or> \<not> isspace (hd s) \<Longrightarrow> dropWhile isspace s = s"
  by (cases s) auto

lemma strip_sign_digit:
  "digit_val b (hd s) \<noteq> None \<Longrightarrow> b = 10 \<or> b = 16 \<Longrightarrow> strip_sign s = (False, s)"
  by (cases s) auto

lemma scan_number_print_d: "scan_number 10 (print_d i) = Some (i < 0, nat \<bar>i\<bar>, [])"
proof -
  have scan: "scan_digits 10 0 (print_nat 10 n) = (n, [])" for n
    using scan_print_nat [of 10 "[]" n] by (simp add: starts_digit_def)
  have start: "starts_digit 10 (print_nat 10 n)" for n
    using hd_print_nat [of 10 n] by (cases "print_nat 10 n") (auto simp: starts_digit_def)
  have sign: "strip_sign (print_nat 10 n) = (False, print_nat 10 n)" for n
    using hd_print_nat [of 10 n] by (intro strip_sign_digit [of 10]) auto
  show ?thesis
    using print_nat_plain [of 10] dropWhile_isspace [of "print_nat 10 _"]
    by (simp add: scan_number_def print_d_def scan start sign isspace_def)
qed

lemma scan_number_print_x:
  "scan_number 16 (print_x i) = Some (False, nat (i mod 4294967296), [])"
proof -
  let ?n = "nat (i mod 4294967296)"
  have d: "list_all (\<lambda>c. digit_val 16 c \<noteq> None) (print_nat 16 ?n)"
    by (intro print_nat_digits) auto
  have no_x: "CHR ''x'' \<notin> set (print_nat 16 ?n)" "CHR ''X'' \<notin> set (print_nat 16 ?n)"
    by (auto intro!: not_digit_in [OF d])
  have strip: "strip_0x (print_nat 16 ?n) = print_nat 16 ?n"
    using no_x by (auto simp: strip_0x_def split: list.splits)
  have "starts_digit 16 (print_nat 16 ?n)"
    using hd_print_nat [of 16 ?n] by (cases "print_nat 16 ?n") (auto simp: starts_digit_def)
  moreover have "scan_digits 16 0 (print_nat 16 ?n) = (?n, [])"
    using scan_print_nat [of 16 "[]" ?n] by (simp add: starts_digit_def)
  moreover have "strip_sign (print_nat 16 ?n) = (False, print_nat 16 ?n)"
    using hd_print_nat [of 16 ?n] by (intro strip_sign_digit [of 16]) auto
  ultimately show ?thesis
    using print_nat_plain [of 16 ?n]
    by (simp add: scan_number_def print_x_def strip dropWhile_isspace)
qed

lemma strtol_val_int32: "int32 i \<Longrightarrow> int_of_long (strtol_val (i < 0) (nat \<bar>i\<bar>)) = i"
  by (simp add: strtol_val_def LONG_MIN_def LONG_MAX_def int32_def max_def min_def)

lemma strtoul_val_int32:
  "int32 i \<Longrightarrow> int_of_long (strtoul_val False (nat (i mod 4294967296))) = i"
proof -
  assume i: "int32 i"
  have "i mod 4294967296 < 4294967296" by simp
  then have "\<not> (18446744073709551615 :: int) < i mod 4294967296" by linarith
  then have "int_of_long (strtoul_val False (nat (i mod 4294967296))) = int_of_long i"
    by (simp add: strtoul_val_def ULONG_MAX_def int_of_long_def mod_simps)
  then show ?thesis using i by simp
qed

interpretation dec_field: field tok_int print_d int32
  by unfold_locales
    (simp_all add: tok_or_goto_def at_tok_nextint_def at_tok_nextint_base_def nextTok_plain_comma
      nextTok_plain_end print_d_plain scan_number_print_d strtol_val_int32 at_tok_hasmore_def)

interpretation hex_field: field tok_hexint print_x int32
  by unfold_locales
    (simp_all add: tok_or_goto_def at_tok_nexthexint_def at_tok_nextint_base_def nextTok_plain_comma
      nextTok_plain_end print_x_plain scan_number_print_x strtoul_val_int32 at_tok_hasmore_def)

definition quoted :: "string \<Rightarrow> string" where
  "quoted s = CHR 0x22 # s @ [CHR 0x22]"

interpretation str_field: field tok_str quoted "\<lambda>s. CHR 0x22 \<notin> set s"
  by unfold_locales
    (simp_all add: tok_or_goto_def at_tok_nextstr_def nextTok_quoted quoted_def at_tok_hasmore_def)

end
