(* ===== verification/Misc.thy ===== *)
theory Misc
  imports Prelude "HOL-Library.Sublist"
begin

section \<open>misc.c: the prefix test\<close>

text \<open>
  \<open>strStartsWith\<close> is the loop of \<open>misc.c\<close>, one step per recursive call.  The table
  classifiers of \<open>atchannel.c\<close> run it over constant tables of prefixes; \<open>prefix_table\<close>
  is the interface they share.
\<close>

fun strStartsWith :: "string \<Rightarrow> string \<Rightarrow> bool" where
  "strStartsWith (l # line) (p # pre) = (if l \<noteq> p then False else strStartsWith line pre)"
| "strStartsWith line pre = (pre = [])"

lemma strStartsWith_prefix: "strStartsWith line pre \<longleftrightarrow> prefix pre line"
  by (induction line pre rule: strStartsWith.induct) auto

text \<open>\<open>for (i = 0; i < NUM_ELEMS(table); i++) if (strStartsWith(line, table[i])) return 1;
  return 0;\<close>\<close>

fun starts_with_any :: "string list \<Rightarrow> string \<Rightarrow> bool" where
  "starts_with_any [] line = False"
| "starts_with_any (p # ps) line = (if strStartsWith line p then True else starts_with_any ps line)"

locale prefix_table =
  fixes table :: "string list"
    and classify :: "string \<Rightarrow> bool"
  assumes classify_loop: "classify line = starts_with_any table line"
begin

lemma classify_iff: "classify line \<longleftrightarrow> (\<exists>p \<in> set table. prefix p line)"
proof -
  have "starts_with_any ps line \<longleftrightarrow> (\<exists>p \<in> set ps. prefix p line)" for ps
    by (induction ps) (auto simp: strStartsWith_prefix)
  then show ?thesis
    by (simp add: classify_loop)
qed

lemma classify_append: "classify line \<Longrightarrow> classify (line @ more)"
  unfolding classify_iff by (blast intro: prefix_prefix)

end

end
