(* ===== verification/AtChannel.thy ===== *)
theory AtChannel
  imports AtTok Misc
begin

section \<open>atchannel.c: the AT command channel\<close>

text \<open>
  The static variables of \<open>atchannel.c\<close> are the record \<open>chan\<close>; \<open>reference-ril.c\<close> extends
  it with its own.  The \<open>ATResponse\<close> structures live in a heap of their own (\<open>heap\<close>, with
  \<open>brk\<close> the next fresh address), so that freeing, leaks and dangling pointers are visible.

  Two threads use the channel: the command thread, which issues commands and waits on
  \<open>s_commandcond\<close>, and the reader thread.  Everything either does under \<open>s_commandmutex\<close> is
  atomic.  While the command thread waits, the environment is a list of \<open>event\<close>s: lines the
  reader delivers, the closing of the stream, the expiry of the timed wait, and \<open>Wake\<close>, the
  moment at which the waiting thread is scheduled again and looks at its condition.  Each
  command takes the next such list from \<open>env\<close>; what is left of it when the command is done
  reaches the reader with no command pending.  \<open>wenv\<close> is the same for \<open>write()\<close>: the next
  results that are not plain successes.  \<open>tx\<close> is every byte written so far.
\<close>

subsection \<open>Data\<close>

definition MAX_AT_RESPONSE :: nat where "MAX_AT_RESPONSE = 8 * 1024"
definition HANDSHAKE_RETRY_COUNT :: nat where "HANDSHAKE_RETRY_COUNT = 8"
definition HANDSHAKE_TIMEOUT_MSEC :: int where "HANDSHAKE_TIMEOUT_MSEC = 1000"

definition AT_ERROR_GENERIC :: int where "AT_ERROR_GENERIC = -1"
definition AT_ERROR_COMMAND_PENDING :: int where "AT_ERROR_COMMAND_PENDING = -2"
definition AT_ERROR_CHANNEL_CLOSED :: int where "AT_ERROR_CHANNEL_CLOSED = -3"
definition AT_ERROR_TIMEOUT :: int where "AT_ERROR_TIMEOUT = -4"
definition AT_ERROR_INVALID_THREAD :: int where "AT_ERROR_INVALID_THREAD = -5"
definition AT_ERROR_INVALID_RESPONSE :: int where "AT_ERROR_INVALID_RESPONSE = -6"

lemmas at_errors =
  AT_ERROR_GENERIC_def AT_ERROR_COMMAND_PENDING_def AT_ERROR_CHANNEL_CLOSED_def
  AT_ERROR_TIMEOUT_def AT_ERROR_INVALID_THREAD_def AT_ERROR_INVALID_RESPONSE_def

datatype ATCommandType = NO_RESULT | NUMERIC | SINGLELINE | MULTILINE

record ATResponse =
  success :: int
  finalResponse :: "string option"
  p_intermediates :: "string list"

datatype ptr = Null | Ptr nat | Wild  \<comment> \<open>\<open>Wild\<close>: never assigned\<close>

datatype wres = Wrote nat | Eintr | Eio

datatype event =
    Line string              \<comment> \<open>\<open>processLine\<close> on the reader thread\<close>
  | SmsLines string string   \<comment> \<open>a two-line SMS indication\<close>
  | Closed                   \<comment> \<open>the reader sees end of file or an error\<close>
  | Wake                     \<comment> \<open>the waiting command thread runs\<close>
  | TimedOut                 \<comment> \<open>the deadline of a timed wait passes\<close>

record chan =
  s_fd :: int
  s_type :: ATCommandType
  s_responsePrefix :: "string option"
  s_smsPDU :: "string option"
  sp_response :: ptr
  s_readerClosed :: bool
  self_reader :: bool        \<comment> \<open>\<open>pthread_equal(s_tid_reader, pthread_self())\<close>\<close>
  heap :: "nat \<Rightarrow> ATResponse option"
  brk :: nat
  tx :: string
  wenv :: "wres list"
  env :: "event list list"
  rx :: "event list"

text \<open>The three function pointers: \<open>s_unsolHandler\<close>, \<open>s_onReaderClosed\<close>, \<open>s_onTimeout\<close>.\<close>

record 's callbacks =
  unsolHandler :: "(string \<Rightarrow> string option \<Rightarrow> ('s, unit) prog) option"
  onClosed :: "('s, unit) prog option"
  onTimeout :: "('s, unit) prog option"

subsection \<open>Responses\<close>

definition deref :: "ptr \<Rightarrow> ('z chan_scheme, ATResponse) prog" where
  "deref p = (\<lambda>s. case p of
      Null \<Rightarrow> Fault NullDeref s
    | Wild \<Rightarrow> Fault WildPointer s
    | Ptr a \<Rightarrow> (case heap s a of None \<Rightarrow> Fault UseAfterFree s | Some r \<Rightarrow> Done r s))"

definition update_at :: "ptr \<Rightarrow> (ATResponse \<Rightarrow> ATResponse) \<Rightarrow> ('z chan_scheme, unit) prog" where
  "update_at p f = bindp (deref p) (\<lambda>r. case p of
      Ptr a \<Rightarrow> modp (\<lambda>s. s\<lparr>heap := (heap s)(a \<mapsto> f r)\<rparr>)
    | _ \<Rightarrow> failp NullDeref)"

definition at_response_new :: "('z chan_scheme, ptr) prog" where
  "at_response_new = (\<lambda>s. Done (Ptr (brk s))
     (s\<lparr>heap := (heap s)(brk s \<mapsto> \<lparr>success = 0, finalResponse = None, p_intermediates = []\<rparr>),
        brk := Suc (brk s)\<rparr>))"

definition at_response_free :: "ptr \<Rightarrow> ('z chan_scheme, unit) prog" where
  "at_response_free p = (\<lambda>s. case p of
      Null \<Rightarrow> Done () s
    | Wild \<Rightarrow> Fault WildPointer s
    | Ptr a \<Rightarrow> (case heap s a of
        None \<Rightarrow> Fault DoubleFree s
      | Some _ \<Rightarrow> Done () (s\<lparr>heap := (heap s)(a := None)\<rparr>)))"

text \<open>\<open>p_response->success\<close> and \<open>p_response->p_intermediates->line\<close>\<close>

definition resp_success :: "ptr \<Rightarrow> ('z chan_scheme, int) prog" where
  "resp_success p = bindp (deref p) (\<lambda>r. ret (success r))"

definition first_line :: "ptr \<Rightarrow> ('z chan_scheme, string) prog" where
  "first_line p = bindp (deref p) (\<lambda>r. case p_intermediates r of
      [] \<Rightarrow> failp NullDeref
    | l # _ \<Rightarrow> ret l)"

definition addIntermediate :: "string \<Rightarrow> ('z chan_scheme, unit) prog" where
  "addIntermediate line = bindp (getp sp_response) (\<lambda>p.
     update_at p (\<lambda>r. r\<lparr>p_intermediates := line # p_intermediates r\<rparr>))"

text \<open>The pointer reversal of \<open>reverseIntermediates\<close>: \<open>pcur\<close> and the list built so far.\<close>

fun reverse_loop :: "string list \<Rightarrow> string list \<Rightarrow> string list" where
  "reverse_loop [] acc = acc"
| "reverse_loop (l # pnext) acc = reverse_loop pnext (l # acc)"

definition reverseIntermediates :: "ptr \<Rightarrow> ('z chan_scheme, unit) prog" where
  "reverseIntermediates p =
     update_at p (\<lambda>r. r\<lparr>p_intermediates := reverse_loop (p_intermediates r) []\<rparr>)"

subsection \<open>Classification of lines\<close>

definition s_finalResponsesError :: "string list" where
  "s_finalResponsesError =
     [''ERROR'', ''+CMS ERROR:'', ''+CME ERROR:'', ''NO CARRIER'', ''NO ANSWER'', ''NO DIALTONE'']"

definition isFinalResponseError :: "string \<Rightarrow> bool" where
  "isFinalResponseError line = starts_with_any s_finalResponsesError line"

definition s_finalResponsesSuccess :: "string list" where
  "s_finalResponsesSuccess = [''OK'', ''CONNECT'']"

definition isFinalResponseSuccess :: "string \<Rightarrow> bool" where
  "isFinalResponseSuccess line = starts_with_any s_finalResponsesSuccess line"

definition isFinalResponse :: "string \<Rightarrow> bool" where
  "isFinalResponse line \<longleftrightarrow> isFinalResponseSuccess line \<or> isFinalResponseError line"

definition s_smsUnsoliciteds :: "string list" where
  "s_smsUnsoliciteds = [''+CMT:'', ''+CDS:'', ''+CBM:'']"

definition isSMSUnsolicited :: "string \<Rightarrow> bool" where
  "isSMSUnsolicited line = starts_with_any s_smsUnsoliciteds line"

subsection \<open>Writing\<close>

text \<open>
  \<open>write\<close> until the string is out: a partial write advances, \<open>EINTR\<close> and an empty write
  retry, any other error stops.  The result is what went out, what is left of the
  environment, and whether all of it went out.
\<close>

fun write_loop :: "wres list \<Rightarrow> string \<Rightarrow> string \<times> wres list \<times> bool" where
  "write_loop ws [] = ([], ws, True)"
| "write_loop [] (c # cs) = (c # cs, [], True)"
| "write_loop (Eio # ws) (c # cs) = ([], ws, False)"
| "write_loop (Eintr # ws) (c # cs) = write_loop ws (c # cs)"
| "write_loop (Wrote n # ws) (c # cs) =
     (let (sent, ws', ok) = write_loop ws (drop n (c # cs)) in (take n (c # cs) @ sent, ws', ok))"

definition write_bytes :: "string \<Rightarrow> ('z chan_scheme, bool) prog" where
  "write_bytes b = (\<lambda>s. case write_loop (wenv s) b of
     (sent, ws, ok) \<Rightarrow> Done ok (s\<lparr>tx := tx s @ sent, wenv := ws\<rparr>))"

definition write_terminated :: "string \<Rightarrow> char \<Rightarrow> ('z chan_scheme, int) prog" where
  "write_terminated str term = bindp (getp (\<lambda>s. s_fd s < 0 \<or> s_readerClosed s)) (\<lambda>closed.
     if closed then ret AT_ERROR_CHANNEL_CLOSED
     else bindp (write_bytes str) (\<lambda>ok.
       if \<not> ok then ret AT_ERROR_GENERIC
       else bindp (write_bytes [term]) (\<lambda>ok. if \<not> ok then ret AT_ERROR_GENERIC else ret 0)))"

definition writeline :: "string \<Rightarrow> ('z chan_scheme, int) prog" where
  "writeline str = write_terminated str (CHR 0x0D)"

definition writeCtrlZ :: "string \<Rightarrow> ('z chan_scheme, int) prog" where
  "writeCtrlZ str = write_terminated str (CHR 0x1A)"

subsection \<open>The reader's side\<close>

definition handleFinalResponse :: "string \<Rightarrow> ('z chan_scheme, unit) prog" where
  "handleFinalResponse line = bindp (getp sp_response) (\<lambda>p.
     update_at p (\<lambda>r. r\<lparr>finalResponse := Some line\<rparr>))"

definition handleUnsolicited :: "'z chan_scheme callbacks \<Rightarrow> string \<Rightarrow> ('z chan_scheme, unit) prog" where
  "handleUnsolicited cb line = (case unsolHandler cb of None \<Rightarrow> ret () | Some h \<Rightarrow> h line None)"

text \<open>\<open>strStartsWith(line, s_responsePrefix)\<close>, where the prefix may be NULL.\<close>

definition has_prefix :: "string \<Rightarrow> ('z chan_scheme, bool) prog" where
  "has_prefix line = bindp (getp s_responsePrefix) (\<lambda>pre. case pre of
      None \<Rightarrow> failp NullDeref
    | Some p \<Rightarrow> ret (strStartsWith line p))"

definition no_intermediate :: "('z chan_scheme, bool) prog" where
  "no_intermediate = bindp (getp sp_response) (\<lambda>p.
     bindp (deref p) (\<lambda>r. ret (p_intermediates r = [])))"

text \<open>The \<open>switch (s_type)\<close> of \<open>processLine\<close>.\<close>

definition process_by_type :: "'z chan_scheme callbacks \<Rightarrow> string \<Rightarrow> ('z chan_scheme, unit) prog" where
  "process_by_type cb line = bindp (getp s_type) (\<lambda>ty. case ty of
      NO_RESULT \<Rightarrow> handleUnsolicited cb line
    | NUMERIC \<Rightarrow> bindp no_intermediate (\<lambda>none.
        if none \<and> line \<noteq> [] \<and> isdigit (hd line) then addIntermediate line
        else handleUnsolicited cb line)
    | SINGLELINE \<Rightarrow> bindp no_intermediate (\<lambda>none.
        if \<not> none then handleUnsolicited cb line
        else bindp (has_prefix line) (\<lambda>ok.
          if ok then addIntermediate line else handleUnsolicited cb line))
    | MULTILINE \<Rightarrow> bindp (has_prefix line) (\<lambda>ok.
        if ok then addIntermediate line else handleUnsolicited cb line))"

definition processLine :: "'z chan_scheme callbacks \<Rightarrow> string \<Rightarrow> ('z chan_scheme, unit) prog" where
  "processLine cb line = bindp (getp sp_response) (\<lambda>p.
     if p = Null then handleUnsolicited cb line
     else if isFinalResponseSuccess line then
       seqp (update_at p (\<lambda>r. r\<lparr>success := 1\<rparr>)) (handleFinalResponse line)
     else if isFinalResponseError line then
       seqp (update_at p (\<lambda>r. r\<lparr>success := 0\<rparr>)) (handleFinalResponse line)
     else bindp (getp s_smsPDU) (\<lambda>pdu.
       if pdu \<noteq> None \<and> line = ''> '' then
         seqp (writeCtrlZ (the pdu)) (modp (\<lambda>s. s\<lparr>s_smsPDU := None\<rparr>))
       else process_by_type cb line))"

definition onReaderClosed :: "'z chan_scheme callbacks \<Rightarrow> ('z chan_scheme, unit) prog" where
  "onReaderClosed cb = bindp (getp s_readerClosed) (\<lambda>closed.
     case onClosed cb of
       None \<Rightarrow> ret ()
     | Some h \<Rightarrow> if closed then ret () else seqp (modp (\<lambda>s. s\<lparr>s_readerClosed := True\<rparr>)) h)"

text \<open>Code that runs on the reader thread.\<close>

definition as_reader :: "('z chan_scheme, 'a) prog \<Rightarrow> ('z chan_scheme, 'a) prog" where
  "as_reader m = bindp (getp self_reader) (\<lambda>me.
     seqp (modp (\<lambda>s. s\<lparr>self_reader := True\<rparr>))
       (bindp m (\<lambda>x. seqp (modp (\<lambda>s. s\<lparr>self_reader := me\<rparr>)) (ret x))))"

fun reader_event :: "'z chan_scheme callbacks \<Rightarrow> event \<Rightarrow> ('z chan_scheme, unit) prog" where
  "reader_event cb (Line l) = as_reader (processLine cb l)"
| "reader_event cb (SmsLines l1 l2) =
     as_reader (case unsolHandler cb of None \<Rightarrow> ret () | Some h \<Rightarrow> h l1 (Some l2))"
| "reader_event cb Closed = as_reader (onReaderClosed cb)"
| "reader_event cb Wake = ret ()"
| "reader_event cb TimedOut = ret ()"

fun reader_events :: "'z chan_scheme callbacks \<Rightarrow> event list \<Rightarrow> ('z chan_scheme, unit) prog" where
  "reader_events cb [] = ret ()"
| "reader_events cb (e # es) = seqp (reader_event cb e) (reader_events cb es)"

text \<open>
  \<open>readerLoop\<close>, given the lines that successive calls of \<open>readline\<close> return before one
  returns NULL.
\<close>

fun readerLoop :: "'z chan_scheme callbacks \<Rightarrow> string list \<Rightarrow> ('z chan_scheme, unit) prog" where
  "readerLoop cb [] = as_reader (onReaderClosed cb)"
| "readerLoop cb (line # ls) =
     (if isSMSUnsolicited line then
        (case ls of
           [] \<Rightarrow> as_reader (onReaderClosed cb)
         | line2 # ls' \<Rightarrow>
             seqp (as_reader (case unsolHandler cb of None \<Rightarrow> ret () | Some h \<Rightarrow> h line (Some line2)))
               (readerLoop cb ls'))
      else seqp (as_reader (processLine cb line)) (readerLoop cb ls))"

subsection \<open>The command side\<close>

definition clearPendingCommand :: "('z chan_scheme, unit) prog" where
  "clearPendingCommand = seqp (bindp (getp sp_response) at_response_free)
     (modp (\<lambda>s. s\<lparr>sp_response := Null, s_responsePrefix := None, s_smsPDU := None\<rparr>))"

definition at_open :: "int \<Rightarrow> int \<Rightarrow> ('z chan_scheme, int) prog" where
  "at_open fd create_ret = seqp
     (modp (\<lambda>s. s\<lparr>s_fd := fd, s_readerClosed := False, s_responsePrefix := None,
                 s_smsPDU := None, sp_response := Null\<rparr>))
     (if create_ret < 0 then ret (-1) else ret 0)"

definition at_close :: "('z chan_scheme, unit) prog" where
  "at_close = modp (\<lambda>s. s\<lparr>s_fd := -1, s_readerClosed := True\<rparr>)"

definition take_reaction :: "('z chan_scheme, unit) prog" where
  "take_reaction = modp (\<lambda>s. case env s of
      [] \<Rightarrow> s
    | r # rs \<Rightarrow> s\<lparr>rx := rx s @ r, env := rs\<rparr>)"

text \<open>The negation of the wait condition \<open>finalResponse == NULL && s_readerClosed == 0\<close>.\<close>

definition wait_done :: "('z chan_scheme, bool) prog" where
  "wait_done = bindp (getp sp_response) (\<lambda>p. bindp (deref p) (\<lambda>r.
     bindp (getp s_readerClosed) (\<lambda>closed. ret (finalResponse r \<noteq> None \<or> closed))))"

text \<open>
  The wait loop: \<open>0\<close> when the condition was met, \<open>AT_ERROR_TIMEOUT\<close> when a timed wait
  expired first, with the events not consumed.  An untimed wait never returns
  \<open>ETIMEDOUT\<close>.
\<close>

fun wait_loop ::
  "'z chan_scheme callbacks \<Rightarrow> bool \<Rightarrow> event list \<Rightarrow> ('z chan_scheme, int \<times> event list) prog" where
  "wait_loop cb timed [] = (\<lambda>s. Blocked s)"
| "wait_loop cb timed (Wake # es) =
     bindp wait_done (\<lambda>d. if d then ret (0, es) else wait_loop cb timed es)"
| "wait_loop cb timed (TimedOut # es) =
     (if timed then ret (AT_ERROR_TIMEOUT, es) else wait_loop cb timed es)"
| "wait_loop cb timed (e # es) = seqp (reader_event cb e) (wait_loop cb timed es)"

definition wait_final :: "'z chan_scheme callbacks \<Rightarrow> bool \<Rightarrow> ('z chan_scheme, int) prog" where
  "wait_final cb timed = bindp wait_done (\<lambda>d.
     if d then ret 0
     else bindp (getp rx) (\<lambda>es. bindp (wait_loop cb timed es) (\<lambda>(err, es').
       seqp (modp (\<lambda>s. s\<lparr>rx := es'\<rparr>)) (ret err))))"

text \<open>
  \<open>pp\<close> is \<open>pp_outResponse\<close>: \<open>None\<close> for NULL, otherwise the present content of the
  caller's variable.  The result is the return value and the variable's content afterwards.
  \<open>finish_command\<close> is the part after the wait loop.
\<close>

definition out_unchanged :: "ptr option \<Rightarrow> ptr" where
  "out_unchanged pp = (case pp of None \<Rightarrow> Null | Some q \<Rightarrow> q)"

definition begin_command ::
  "ATCommandType \<Rightarrow> string option \<Rightarrow> string option \<Rightarrow> ('z chan_scheme, unit) prog" where
  "begin_command type responsePrefix smspdu = bindp at_response_new (\<lambda>p.
     modp (\<lambda>s. s\<lparr>s_type := type, s_responsePrefix := responsePrefix,
                s_smsPDU := smspdu, sp_response := p\<rparr>))"

definition finish_command :: "ptr option \<Rightarrow> ('z chan_scheme, int \<times> ptr) prog" where
  "finish_command pp = bindp (getp sp_response) (\<lambda>p.
     seqp (if pp = None then at_response_free p else reverseIntermediates p)
     (seqp (modp (\<lambda>s. s\<lparr>sp_response := Null\<rparr>))
     (bindp (getp s_readerClosed) (\<lambda>closed.
     seqp clearPendingCommand
     (ret (if closed then AT_ERROR_CHANNEL_CLOSED else 0, if pp = None then Null else p))))))"

definition at_send_command_full_nolock ::
  "'z chan_scheme callbacks \<Rightarrow> string \<Rightarrow> ATCommandType \<Rightarrow> string option \<Rightarrow> string option \<Rightarrow>
   int \<Rightarrow> ptr option \<Rightarrow> ('z chan_scheme, int \<times> ptr) prog" where
  "at_send_command_full_nolock cb command type responsePrefix smspdu timeoutMsec pp =
     bindp (getp sp_response) (\<lambda>pending.
       if pending \<noteq> Null
       then seqp clearPendingCommand (ret (AT_ERROR_COMMAND_PENDING, out_unchanged pp))
       else seqp (begin_command type responsePrefix smspdu)
         (bindp (writeline command) (\<lambda>err.
           if err < 0 then seqp clearPendingCommand (ret (err, out_unchanged pp))
           else seqp take_reaction
             (bindp (wait_final cb (timeoutMsec \<noteq> 0)) (\<lambda>err.
               if err = AT_ERROR_TIMEOUT then seqp clearPendingCommand (ret (err, out_unchanged pp))
               else finish_command pp)))))"

text \<open>What is left of the reaction arrives once the mutex is free.\<close>

definition drain :: "'z chan_scheme callbacks \<Rightarrow> ('z chan_scheme, unit) prog" where
  "drain cb = bindp (getp rx) (\<lambda>es. seqp (modp (\<lambda>s. s\<lparr>rx := []\<rparr>)) (reader_events cb es))"

definition at_send_command_full ::
  "'z chan_scheme callbacks \<Rightarrow> string \<Rightarrow> ATCommandType \<Rightarrow> string option \<Rightarrow> string option \<Rightarrow>
   int \<Rightarrow> ptr option \<Rightarrow> ('z chan_scheme, int \<times> ptr) prog" where
  "at_send_command_full cb command type responsePrefix smspdu timeoutMsec pp =
     bindp (getp self_reader) (\<lambda>reader.
     if reader then ret (AT_ERROR_INVALID_THREAD, out_unchanged pp)
     else bindp (at_send_command_full_nolock cb command type responsePrefix smspdu timeoutMsec pp)
      (\<lambda>(err, p). seqp (drain cb)
      (seqp (case onTimeout cb of
               None \<Rightarrow> ret ()
             | Some h \<Rightarrow> if err = AT_ERROR_TIMEOUT then h else ret ())
      (ret (err, p)))))"

definition at_send_command ::
  "'z chan_scheme callbacks \<Rightarrow> string \<Rightarrow> ptr option \<Rightarrow> ('z chan_scheme, int \<times> ptr) prog" where
  "at_send_command cb command pp = at_send_command_full cb command NO_RESULT None None 0 pp"

text \<open>
  The check that \<open>at_send_command_singleline\<close>, \<open>_numeric\<close> and \<open>_sms\<close> share: a successful
  command must have an intermediate response.
\<close>

definition require_intermediate ::
  "ptr option \<Rightarrow> int \<times> ptr \<Rightarrow> ('z chan_scheme, int \<times> ptr) prog" where
  "require_intermediate pp result = (case result of (err, p) \<Rightarrow>
     if err = 0 \<and> pp \<noteq> None then bindp (deref p) (\<lambda>r.
       if success r > 0 \<and> p_intermediates r = []
       then seqp (at_response_free p) (ret (AT_ERROR_INVALID_RESPONSE, Null))
       else ret (err, p))
     else ret (err, p))"

definition at_send_command_singleline ::
  "'z chan_scheme callbacks \<Rightarrow> string \<Rightarrow> string \<Rightarrow> ptr option \<Rightarrow> ('z chan_scheme, int \<times> ptr) prog" where
  "at_send_command_singleline cb command responsePrefix pp =
     bindp (at_send_command_full cb command SINGLELINE (Some responsePrefix) None 0 pp)
       (require_intermediate pp)"

definition at_send_command_numeric ::
  "'z chan_scheme callbacks \<Rightarrow> string \<Rightarrow> ptr option \<Rightarrow> ('z chan_scheme, int \<times> ptr) prog" where
  "at_send_command_numeric cb command pp =
     bindp (at_send_command_full cb command NUMERIC None None 0 pp) (require_intermediate pp)"

definition at_send_command_sms ::
  "'z chan_scheme callbacks \<Rightarrow> string \<Rightarrow> string \<Rightarrow> string \<Rightarrow> ptr option \<Rightarrow> ('z chan_scheme, int \<times> ptr) prog" where
  "at_send_command_sms cb command pdu responsePrefix pp =
     bindp (at_send_command_full cb command SINGLELINE (Some responsePrefix) (Some pdu) 0 pp)
       (require_intermediate pp)"

definition at_send_command_multiline ::
  "'z chan_scheme callbacks \<Rightarrow> string \<Rightarrow> string \<Rightarrow> ptr option \<Rightarrow> ('z chan_scheme, int \<times> ptr) prog" where
  "at_send_command_multiline cb command responsePrefix pp =
     at_send_command_full cb command MULTILINE (Some responsePrefix) None 0 pp"

fun handshake_loop :: "'z chan_scheme callbacks \<Rightarrow> nat \<Rightarrow> int \<Rightarrow> ('z chan_scheme, int) prog" where
  "handshake_loop cb 0 err = ret err"
| "handshake_loop cb (Suc n) err =
     bindp (at_send_command_full_nolock cb ''ATE0'' NO_RESULT None None HANDSHAKE_TIMEOUT_MSEC None)
       (\<lambda>(e, _). if e = 0 then ret e else handshake_loop cb n e)"

definition at_handshake :: "'z chan_scheme callbacks \<Rightarrow> ('z chan_scheme, int) prog" where
  "at_handshake cb = bindp (getp self_reader) (\<lambda>reader.
     if reader then ret AT_ERROR_INVALID_THREAD
     else bindp (handshake_loop cb HANDSHAKE_RETRY_COUNT 0) (\<lambda>err. seqp (drain cb) (ret err)))"

definition CME_ERROR_NON_CME :: int where "CME_ERROR_NON_CME = -1"
definition CME_SUCCESS :: int where "CME_SUCCESS = 0"
definition CME_SIM_NOT_INSERTED :: int where "CME_SIM_NOT_INSERTED = 10"

text \<open>The part of \<open>at_get_cme_error\<close> that reads the final response line.\<close>

definition cme_of_line :: "string \<Rightarrow> int" where
  "cme_of_line line =
     (if \<not> strStartsWith line ''+CME ERROR:'' then CME_ERROR_NON_CME
      else (case do { cur \<leftarrow> tok_start (Some line); tok_int cur } of
        None \<Rightarrow> CME_ERROR_NON_CME
      | Some (n, _) \<Rightarrow> n))"

definition at_get_cme_error :: "ptr \<Rightarrow> ('z chan_scheme, int) prog" where
  "at_get_cme_error p = bindp (deref p) (\<lambda>r.
     if success r > 0 then ret CME_SUCCESS
     else (case finalResponse r of
       None \<Rightarrow> ret CME_ERROR_NON_CME
     | Some line \<Rightarrow> ret (cme_of_line line)))"

end
