(* ===== verification/AtChannelSpec.thy ===== *)
theory AtChannelSpec
  imports AtChannel
begin

section \<open>What a command on the AT channel returns\<close>

text \<open>
  The abstract view of a pending command: the response collected so far, and whether an SMS
  PDU still waits for its prompt.  \<open>verdict\<close> says what a line means to it, \<open>absorb\<close> what
  the line does to the response, and \<open>absorb_events\<close> runs a list of events.  The detailed
  code (the reader thread's \<open>processLine\<close>, the wait loop, the heap of responses) is shown to
  implement it for every client whose callbacks leave the command's state alone; that
  contract is the locale \<open>channel_client\<close>.
\<close>

subsection \<open>The table classifiers\<close>

interpretation final_error: prefix_table s_finalResponsesError isFinalResponseError
  by unfold_locales (simp add: isFinalResponseError_def)

interpretation final_success: prefix_table s_finalResponsesSuccess isFinalResponseSuccess
  by unfold_locales (simp add: isFinalResponseSuccess_def)

interpretation sms_unsolicited: prefix_table s_smsUnsoliciteds isSMSUnsolicited
  by unfold_locales (simp add: isSMSUnsolicited_def)

lemma success_not_error: "isFinalResponseSuccess line \<Longrightarrow> \<not> isFinalResponseError line"
  unfolding final_error.classify_iff final_success.classify_iff
  by (auto simp: s_finalResponsesError_def s_finalResponsesSuccess_def prefix_def)

subsection \<open>The abstract command\<close>

datatype verdict = Final bool | Prompt | Intermediate | Unsolicited

definition matches :: "string option \<Rightarrow> string \<Rightarrow> bool" where
  "matches pre line = (case pre of None \<Rightarrow> False | Some p \<Rightarrow> strStartsWith line p)"

definition verdict :: "ATCommandType \<Rightarrow> string option \<Rightarrow> string option \<Rightarrow> ATResponse \<Rightarrow> string \<Rightarrow> verdict" where
  "verdict ty pre pdu r line =
     (if isFinalResponseSuccess line then Final True
      else if isFinalResponseError line then Final False
      else if pdu \<noteq> None \<and> line = ''> '' then Prompt
      else if (case ty of
          NO_RESULT \<Rightarrow> False
        | NUMERIC \<Rightarrow> p_intermediates r = [] \<and> line \<noteq> [] \<and> isdigit (hd line)
        | SINGLELINE \<Rightarrow> p_intermediates r = [] \<and> matches pre line
        | MULTILINE \<Rightarrow> matches pre line)
        then Intermediate else Unsolicited)"

fun absorb :: "verdict \<Rightarrow> string \<Rightarrow> ATResponse \<Rightarrow> ATResponse" where
  "absorb (Final ok) line r = r\<lparr>success := if ok then 1 else 0, finalResponse := Some line\<rparr>"
| "absorb Intermediate line r = r\<lparr>p_intermediates := line # p_intermediates r\<rparr>"
| "absorb _ line r = r"

fun absorb_events ::
  "ATCommandType \<Rightarrow> string option \<Rightarrow> event list \<Rightarrow> string option \<times> ATResponse \<Rightarrow> string option \<times> ATResponse" where
  "absorb_events ty pre [] x = x"
| "absorb_events ty pre (Line l # es) (pdu, r) =
     (let v = verdict ty pre pdu r l
      in absorb_events ty pre es (if v = Prompt then None else pdu, absorb v l r))"
| "absorb_events ty pre (_ # es) x = absorb_events ty pre es x"

text \<open>What the type of a command promises about the response.\<close>

definition resp_ok :: "ATCommandType \<Rightarrow> string option \<Rightarrow> ATResponse \<Rightarrow> bool" where
  "resp_ok ty pre r \<longleftrightarrow>
     (case ty of
        NO_RESULT \<Rightarrow> p_intermediates r = []
      | NUMERIC \<Rightarrow> length (p_intermediates r) \<le> 1 \<and>
          (\<forall>l \<in> set (p_intermediates r). l \<noteq> [] \<and> isdigit (hd l))
      | SINGLELINE \<Rightarrow> length (p_intermediates r) \<le> 1 \<and> (\<forall>l \<in> set (p_intermediates r). matches pre l)
      | MULTILINE \<Rightarrow> (\<forall>l \<in> set (p_intermediates r). matches pre l))
     \<and> (case finalResponse r of
          None \<Rightarrow> success r = 0
        | Some l \<Rightarrow> isFinalResponse l \<and> success r = (if isFinalResponseSuccess l then 1 else 0))"

lemma resp_ok_new: "resp_ok ty pre \<lparr>success = 0, finalResponse = None, p_intermediates = []\<rparr>"
  by (cases ty) (simp_all add: resp_ok_def)

lemma resp_ok_absorb: "resp_ok ty pre r \<Longrightarrow> resp_ok ty pre (absorb (verdict ty pre pdu r l) l r)"
  by (cases ty) (auto simp: resp_ok_def verdict_def isFinalResponse_def split: option.splits)

lemma resp_ok_absorb_events:
  "resp_ok ty pre (snd x) \<Longrightarrow> resp_ok ty pre (snd (absorb_events ty pre es x))"
  by (induction ty pre es x rule: absorb_events.induct) (auto simp: Let_def resp_ok_absorb)

lemma reverse_loop_rev: "reverse_loop xs acc = rev xs @ acc"
  by (induction xs acc rule: reverse_loop.induct) auto

lemma resp_ok_rev:
  "resp_ok ty pre r \<Longrightarrow> resp_ok ty pre (r\<lparr>p_intermediates := rev (p_intermediates r)\<rparr>)"
  by (cases ty) (auto simp: resp_ok_def split: option.splits)

lemma absorb_events_append:
  "absorb_events ty pre (es @ fs) x = absorb_events ty pre fs (absorb_events ty pre es x)"
  by (induction ty pre es x rule: absorb_events.induct) (auto simp: Let_def)

subsection \<open>Frames\<close>

text \<open>The fields that belong to the command side, unchanged.\<close>

definition same_cmd :: "'z chan_scheme \<Rightarrow> 'z chan_scheme \<Rightarrow> bool" where
  "same_cmd s s' \<longleftrightarrow> s_type s' = s_type s \<and> s_responsePrefix s' = s_responsePrefix s \<and>
     s_smsPDU s' = s_smsPDU s \<and> sp_response s' = sp_response s \<and> heap s' = heap s \<and>
     brk s' = brk s \<and> env s' = env s \<and> rx s' = rx s \<and> self_reader s' = self_reader s \<and>
     tx s' = tx s \<and> wenv s' = wenv s \<and> (s_readerClosed s \<longrightarrow> s_readerClosed s')"

lemma same_cmd_refl [simp, intro]: "same_cmd s s"
  by (simp add: same_cmd_def)

lemma same_cmd_trans: "same_cmd s t \<Longrightarrow> same_cmd t u \<Longrightarrow> same_cmd s u"
  by (simp add: same_cmd_def)

text \<open>The state of a waiting command and what the wait may change.\<close>

definition waiting :: "nat \<Rightarrow> ATResponse \<Rightarrow> 'z chan_scheme \<Rightarrow> bool" where
  "waiting a r s \<longleftrightarrow> sp_response s = Ptr a \<and> heap s a = Some r"

definition wait_frame :: "nat \<Rightarrow> 'z chan_scheme \<Rightarrow> 'z chan_scheme \<Rightarrow> bool" where
  "wait_frame a s s' \<longleftrightarrow> s_type s' = s_type s \<and> s_responsePrefix s' = s_responsePrefix s \<and>
     sp_response s' = sp_response s \<and> (\<forall>b. b \<noteq> a \<longrightarrow> heap s' b = heap s b) \<and>
     brk s' = brk s \<and> env s' = env s \<and> rx s' = rx s \<and> self_reader s' = self_reader s \<and>
     (s_readerClosed s \<longrightarrow> s_readerClosed s')"

lemma wait_frame_refl [simp, intro]: "wait_frame a s s"
  by (simp add: wait_frame_def)

lemma wait_frame_trans: "wait_frame a s t \<Longrightarrow> wait_frame a t u \<Longrightarrow> wait_frame a s u"
  by (simp add: wait_frame_def)

lemma same_cmd_wait_frame: "same_cmd s s' \<Longrightarrow> wait_frame a s s'"
  by (simp add: same_cmd_def wait_frame_def)

lemma deref_Done: "deref p s = Done r s' \<longleftrightarrow> s' = s \<and> (\<exists>a. p = Ptr a \<and> heap s a = Some r)"
  by (auto simp: deref_def split: ptr.splits option.splits)

lemma update_at_Ptr:
  "heap s a = Some r \<Longrightarrow> update_at (Ptr a) f s = Done () (s\<lparr>heap := (heap s)(a \<mapsto> f r)\<rparr>)"
  by (simp add: update_at_def deref_def outcome_simps)

lemma deref_Ptr: "heap s a = Some r \<Longrightarrow> deref (Ptr a) s = Done r s"
  by (simp add: deref_def)

lemma write_terminated_frame:
  "write_terminated str t s = Done x s' \<Longrightarrow> s' = s\<lparr>tx := tx s', wenv := wenv s'\<rparr>"
  by (auto simp: write_terminated_def write_bytes_def outcome_simps split: if_splits prod.splits)

text \<open>Any sequence on the reader thread restores the thread flag.\<close>

lemma as_reader_Done:
  "as_reader m s = Done x s' \<Longrightarrow>
   \<exists>t. m (s\<lparr>self_reader := True\<rparr>) = Done x t \<and> s' = t\<lparr>self_reader := self_reader s\<rparr>"
  by (auto simp: as_reader_def outcome_simps split: outcome.splits)


subsection \<open>The contract of the callbacks\<close>

text \<open>
  \<open>event_ok\<close> is what \<open>readerLoop\<close> guarantees of the lines it passes on: the header of an SMS
  always comes with the line that follows it.
\<close>

fun event_ok :: "event \<Rightarrow> bool" where
  "event_ok (Line l) = (\<not> isSMSUnsolicited l)"
| "event_ok (SmsLines l1 l2) = isSMSUnsolicited l1"
| "event_ok _ = True"

text \<open>
  What the wait loop does to a pending command, when it consumes the events \<open>used\<close> and
  returns \<open>err\<close>.
\<close>

definition waited :: "bool \<Rightarrow> event list \<Rightarrow> int \<Rightarrow> nat \<Rightarrow> ATResponse \<Rightarrow> 'z chan_scheme \<Rightarrow> 'z chan_scheme \<Rightarrow> bool" where
  "waited timed used err a r s s' \<longleftrightarrow>
     (let x = absorb_events (s_type s) (s_responsePrefix s) used (s_smsPDU s, r) in
      waiting a (snd x) s' \<and> wait_frame a s s' \<and> s_smsPDU s' = fst x \<and>
      (if err = 0 then (finalResponse (snd x) \<noteq> None \<or> s_readerClosed s') \<and>
          (used \<noteq> [] \<longrightarrow> last used = Wake)
       else err = AT_ERROR_TIMEOUT \<and> timed \<and> used \<noteq> [] \<and> last used = TimedOut))"

text \<open>A type of command that compares prefixes comes with a prefix.\<close>

definition prefix_ok :: "ATCommandType \<Rightarrow> string option \<Rightarrow> bool" where
  "prefix_ok ty pre \<longleftrightarrow> (ty = SINGLELINE \<or> ty = MULTILINE \<longrightarrow> pre \<noteq> None)"

text \<open>
  What the channel needs of its client: a callback that runs on the reader thread, or the
  timeout callback, returns, leaves the command side alone and does not reopen the channel.
  \<open>keep\<close> is any preorder on the client's own state that the callbacks respect, and that the
  channel, which does not touch that state, then respects too.
\<close>

locale channel_client =
  fixes cb :: "'z chan_scheme callbacks"
    and keep :: "'z chan_scheme \<Rightarrow> 'z chan_scheme \<Rightarrow> bool"
  assumes unsol_frame: "unsolHandler cb = Some h \<Longrightarrow> self_reader s \<Longrightarrow> h l p s = Done () s' \<Longrightarrow> same_cmd s s'"
    and unsol_keep: "unsolHandler cb = Some h \<Longrightarrow> keeps keep (h l p)"
    and unsol_returns: "unsolHandler cb = Some h \<Longrightarrow> (isSMSUnsolicited l \<Longrightarrow> p \<noteq> None) \<Longrightarrow>
      \<exists>s'. h l p s = Done () s'"
    and closed_frame: "onClosed cb = Some k \<Longrightarrow> self_reader s \<Longrightarrow> k s = Done () s' \<Longrightarrow> same_cmd s s'"
    and closed_set: "onClosed cb \<noteq> None"
    and closed_keep: "onClosed cb = Some k \<Longrightarrow> keeps keep k"
    and closed_returns: "onClosed cb = Some k \<Longrightarrow> \<exists>s'. k s = Done () s'"
    and timeout_frame: "onTimeout cb = Some m \<Longrightarrow> m s = Done () s' \<Longrightarrow> sp_response s = Null \<Longrightarrow> same_cmd s s'"
    and timeout_keep: "onTimeout cb = Some m \<Longrightarrow> keeps keep m"
    and timeout_returns: "onTimeout cb = Some m \<Longrightarrow> \<exists>s'. m s = Done () s'"
    and keep_trans: "transp keep"
    and keep_chan: "chan.more s' = chan.more s \<Longrightarrow> keep s s'"
begin

lemma handleUnsolicited_frame:
  "self_reader s \<Longrightarrow> handleUnsolicited cb l s = Done () s' \<Longrightarrow> same_cmd s s'"
  by (auto simp: handleUnsolicited_def outcome_simps split: option.splits dest: unsol_frame)

lemma onReaderClosed_frame:
  "self_reader s \<Longrightarrow> onReaderClosed cb s = Done () s' \<Longrightarrow> same_cmd s s'"
proof -
  assume r: "self_reader s" and d: "onReaderClosed cb s = Done () s'"
  show "same_cmd s s'"
  proof (cases "onClosed cb = None \<or> s_readerClosed s")
    case True
    then show ?thesis using d by (auto simp: onReaderClosed_def outcome_simps split: option.splits)
  next
    case False
    then obtain k where k: "onClosed cb = Some k" "k (s\<lparr>s_readerClosed := True\<rparr>) = Done () s'"
      using d by (auto simp: onReaderClosed_def outcome_simps split: option.splits)
    have "self_reader (s\<lparr>s_readerClosed := True\<rparr>)"
      using r by simp
    then have "same_cmd (s\<lparr>s_readerClosed := True\<rparr>) s'"
      using k by (blast intro: closed_frame)
    then show ?thesis by (simp add: same_cmd_def)
  qed
qed

text \<open>With no command pending, a line is only passed on.\<close>

lemma processLine_idle:
  "self_reader s \<Longrightarrow> sp_response s = Null \<Longrightarrow> processLine cb l s = Done () s' \<Longrightarrow> same_cmd s s'"
  by (auto simp: processLine_def outcome_simps dest: handleUnsolicited_frame)

text \<open>With a command pending, the code does what the verdict says.\<close>

lemma process_by_type_waiting:
  assumes w: "waiting a r s" and rd: "self_reader s" and d: "process_by_type cb l s = Done () s'"
    and nf: "\<not> isFinalResponseSuccess l" "\<not> isFinalResponseError l"
    and np: "\<not> (s_smsPDU s \<noteq> None \<and> l = ''> '')"
  defines "v \<equiv> verdict (s_type s) (s_responsePrefix s) (s_smsPDU s) r l"
  shows "waiting a (absorb v l r) s' \<and> wait_frame a s s' \<and> v \<noteq> Prompt \<and> s_smsPDU s' = s_smsPDU s"
proof -
  have unsol: "waiting a r s' \<and> wait_frame a s s' \<and> s_smsPDU s' = s_smsPDU s"
    if "handleUnsolicited cb l s = Done () s'"
    using handleUnsolicited_frame [OF rd that] w
    by (auto simp: same_cmd_def waiting_def wait_frame_def)
  have add: "waiting a (r\<lparr>p_intermediates := l # p_intermediates r\<rparr>) s' \<and> wait_frame a s s' \<and>
      s_smsPDU s' = s_smsPDU s"
    if "addIntermediate l s = Done () s'"
    using that w
    by (auto simp: addIntermediate_def waiting_def wait_frame_def outcome_simps update_at_Ptr)
  have r: "no_intermediate s = Done (p_intermediates r = []) s"
    using w by (simp add: no_intermediate_def waiting_def outcome_simps deref_Ptr)
  show ?thesis
  proof (cases "s_type s")
    case NO_RESULT
    then show ?thesis
      using d unsol nf np by (simp add: process_by_type_def outcome_simps v_def verdict_def)
  next
    case NUMERIC
    then show ?thesis
      using d unsol add nf np r
      by (auto simp: process_by_type_def outcome_simps v_def verdict_def split: if_splits)
  next
    case SINGLELINE
    then show ?thesis
      using d unsol add nf np r
      by (auto simp: process_by_type_def has_prefix_def matches_def outcome_simps v_def verdict_def
          split: if_splits option.splits)
  next
    case MULTILINE
    then show ?thesis
      using d unsol add nf np
      by (auto simp: process_by_type_def has_prefix_def matches_def outcome_simps v_def verdict_def
          split: if_splits option.splits)
  qed
qed

lemma processLine_waiting:
  assumes w: "waiting a r s" and rd: "self_reader s" and d: "processLine cb l s = Done () s'"
  defines "v \<equiv> verdict (s_type s) (s_responsePrefix s) (s_smsPDU s) r l"
  shows "waiting a (absorb v l r) s' \<and> wait_frame a s s' \<and>
    s_smsPDU s' = (if v = Prompt then None else s_smsPDU s)"
proof -
  have p: "sp_response s = Ptr a" and h: "heap s a = Some r"
    using w by (auto simp: waiting_def)
  consider (ok) "isFinalResponseSuccess l" | (err) "\<not> isFinalResponseSuccess l" "isFinalResponseError l"
    | (prompt) "\<not> isFinalResponseSuccess l" "\<not> isFinalResponseError l" "s_smsPDU s \<noteq> None" "l = ''> ''"
    | (rest) "\<not> isFinalResponseSuccess l" "\<not> isFinalResponseError l" "\<not> (s_smsPDU s \<noteq> None \<and> l = ''> '')"
    by blast
  then show ?thesis
  proof cases
    case ok
    then show ?thesis
      using d p h by (auto simp: processLine_def handleFinalResponse_def outcome_simps update_at_Ptr
          v_def verdict_def waiting_def wait_frame_def)
  next
    case err
    then show ?thesis
      using d p h by (auto simp: processLine_def handleFinalResponse_def outcome_simps update_at_Ptr
          v_def verdict_def waiting_def wait_frame_def)
  next
    case prompt
    then obtain x t where t: "write_terminated (the (s_smsPDU s)) (CHR 0x1A) s = Done x t"
      and s': "s' = t\<lparr>s_smsPDU := None\<rparr>"
      using d p by (auto simp: processLine_def writeCtrlZ_def outcome_simps split: outcome.splits)
    have "t = s\<lparr>tx := tx t, wenv := wenv t\<rparr>"
      using t by (rule write_terminated_frame)
    then have "s' = s\<lparr>tx := tx t, wenv := wenv t, s_smsPDU := None\<rparr>"
      using s' by metis
    moreover have "v = Prompt"
      using prompt by (simp add: v_def verdict_def)
    ultimately show ?thesis
      using p h by (simp add: waiting_def wait_frame_def)
  next
    case rest
    then have "process_by_type cb l s = Done () s'"
      using d p by (simp add: processLine_def outcome_simps split: if_splits)
    from process_by_type_waiting [OF w rd this rest] show ?thesis
      by (simp add: v_def)
  qed
qed

text \<open>One event of the reader.\<close>

lemma as_reader_waiting:
  assumes "as_reader m s = Done () s'" and "waiting a r s"
    and "\<And>t t'. m t = Done () t' \<Longrightarrow> self_reader t \<Longrightarrow> waiting a r t \<Longrightarrow> s_type t = s_type s \<Longrightarrow>
      s_responsePrefix t = s_responsePrefix s \<Longrightarrow> s_smsPDU t = s_smsPDU s \<Longrightarrow>
      waiting a r' t' \<and> wait_frame a t t' \<and> s_smsPDU t' = pdu'"
  shows "waiting a r' s' \<and> wait_frame a s s' \<and> s_smsPDU s' = pdu'"
proof -
  obtain t where t: "m (s\<lparr>self_reader := True\<rparr>) = Done () t" and s': "s' = t\<lparr>self_reader := self_reader s\<rparr>"
    using as_reader_Done [OF assms(1)] by blast
  have "waiting a r' t \<and> wait_frame a (s\<lparr>self_reader := True\<rparr>) t \<and> s_smsPDU t = pdu'"
    using assms(2) by (intro assms(3) [OF t]) (auto simp: waiting_def)
  then show ?thesis
    using assms(2) by (simp add: s' waiting_def wait_frame_def)
qed

lemma same_cmd_waiting:
  "same_cmd t t' \<Longrightarrow> waiting a r t \<Longrightarrow> waiting a r t' \<and> wait_frame a t t' \<and> s_smsPDU t' = s_smsPDU t"
  by (simp add: same_cmd_def waiting_def wait_frame_def)

lemma reader_event_waiting:
  assumes "reader_event cb e s = Done () s'" and "waiting a r s"
  defines "x \<equiv> absorb_events (s_type s) (s_responsePrefix s) [e] (s_smsPDU s, r)"
  shows "waiting a (snd x) s' \<and> wait_frame a s s' \<and> s_smsPDU s' = fst x"
proof (cases e)
  case (Line l)
  have x: "fst x = (if verdict (s_type s) (s_responsePrefix s) (s_smsPDU s) r l = Prompt
      then None else s_smsPDU s)"
    "snd x = absorb (verdict (s_type s) (s_responsePrefix s) (s_smsPDU s) r l) l r"
    by (simp_all add: x_def Line Let_def)
  show ?thesis
    unfolding x
    by (rule as_reader_waiting [OF _ assms(2)]) (use assms(1) Line in simp, metis processLine_waiting)
next
  case (SmsLines l1 l2)
  show ?thesis
    by (rule as_reader_waiting [OF _ assms(2)])
      (use assms(1) SmsLines in simp,
       auto simp: x_def SmsLines outcome_simps split: option.splits dest!: unsol_frame same_cmd_waiting)
next
  case Closed
  show ?thesis
    by (rule as_reader_waiting [OF _ assms(2)])
      (use assms(1) Closed in simp,
       auto simp: x_def Closed dest!: onReaderClosed_frame same_cmd_waiting)
qed (use assms in \<open>auto simp: outcome_simps\<close>)

text \<open>
  The wait loop implements \<open>absorb_events\<close> on the events it consumes, which end with the
  \<open>Wake\<close> that found the condition met, or with the \<open>TimedOut\<close>.
\<close>

lemma waited_step:
  assumes "waiting a (snd x) t" and "wait_frame a s t" and "s_smsPDU t = fst x"
    and "x = absorb_events (s_type s) (s_responsePrefix s) [e] (s_smsPDU s, r)"
    and "waited timed used err a (snd x) t s'" and "used \<noteq> []"
  shows "waited timed (e # used) err a r s s'"
proof -
  have app: "absorb_events (s_type s) (s_responsePrefix s) (e # used) (s_smsPDU s, r) =
      absorb_events (s_type s) (s_responsePrefix s) used (fst x, snd x)"
    using absorb_events_append [of "s_type s" "s_responsePrefix s" "[e]" used "(s_smsPDU s, r)"]
    by (simp add: assms(4))
  have ty: "s_type t = s_type s" "s_responsePrefix t = s_responsePrefix s"
    using assms(2) by (simp_all add: wait_frame_def)
  show ?thesis
    using assms(2,3,5,6) wait_frame_trans [OF assms(2)]
    by (auto simp: waited_def Let_def app ty split: if_splits)
qed

lemma wait_done_Done:
  "wait_done s = Done d s' \<longleftrightarrow>
   s' = s \<and> (\<exists>a r. waiting a r s \<and> d = (finalResponse r \<noteq> None \<or> s_readerClosed s))"
  by (auto simp: wait_done_def waiting_def deref_def outcome_simps split: ptr.splits option.splits)

lemma wait_done_waiting:
  "waiting a r s \<Longrightarrow> wait_done s = Done (finalResponse r \<noteq> None \<or> s_readerClosed s) s"
  by (simp add: wait_done_def waiting_def deref_def outcome_simps)

lemma wait_loop_event:
  "e \<noteq> Wake \<Longrightarrow> e \<noteq> TimedOut \<Longrightarrow>
   wait_loop cb timed (e # es) = seqp (reader_event cb e) (wait_loop cb timed es)"
  by (cases e) simp_all

lemma wait_loop_waiting:
  "wait_loop cb timed es s = Done (err, es') s' \<Longrightarrow> waiting a r s \<Longrightarrow>
   \<exists>used. es = used @ es' \<and> used \<noteq> [] \<and> waited timed used err a r s s'"
proof (induction es arbitrary: s r)
  case Nil
  then show ?case by simp
next
  case (Cons e es)
  let ?x = "absorb_events (s_type s) (s_responsePrefix s) [e] (s_smsPDU s, r)"
  have continue: ?case
    if t: "waiting a (snd ?x) t" "wait_frame a s t" "s_smsPDU t = fst ?x"
      and rest: "wait_loop cb timed es t = Done (err, es') s'" for t
  proof -
    from Cons.IH [OF rest t(1)] obtain used where
      u: "es = used @ es'" "used \<noteq> []" "waited timed used err a (snd ?x) t s'"
      by blast
    then have "waited timed (e # used) err a r s s'"
      by (intro waited_step [OF t refl])
    then show ?thesis
      using u by (intro exI [of _ "e # used"]) simp
  qed
  have stop: ?case if "es' = es" and "waited timed [e] err a r s s'"
    using that by (intro exI [of _ "[e]"]) simp
  consider (wake) "e = Wake" | (out) "e = TimedOut" | (event) "e \<noteq> Wake" "e \<noteq> TimedOut"
    by blast
  then show ?case
  proof cases
    case wake
    show ?thesis
    proof (cases "finalResponse r \<noteq> None \<or> s_readerClosed s")
      case True
      then show ?thesis
        using Cons.prems wake
        by (intro stop) (auto simp: outcome_simps wait_done_waiting waited_def)
    next
      case False
      then show ?thesis
        using Cons.prems wake
        by (intro continue [of s]) (auto simp: outcome_simps wait_done_waiting)
    qed
  next
    case out
    show ?thesis
    proof (cases timed)
      case True
      then show ?thesis
        using Cons.prems out
        by (intro stop) (auto simp: outcome_simps waited_def at_errors)
    next
      case False
      then show ?thesis
        using Cons.prems out by (intro continue [of s]) auto
    qed
  next
    case event
    then obtain t where t: "reader_event cb e s = Done () t" "wait_loop cb timed es t = Done (err, es') s'"
      using Cons.prems(1) by (auto simp: wait_loop_event elim!: seqp_DoneE)
    from reader_event_waiting [OF t(1) Cons.prems(2)] t(2) show ?thesis
      by (intro continue [of t]) auto
  qed
qed

lemma wait_final_waiting:
  assumes "wait_final cb timed s = Done err s'" and "waiting a r s"
    and "finalResponse r = None" and "\<not> s_readerClosed s"
  shows "\<exists>used es' t. rx s = used @ es' \<and> used \<noteq> [] \<and> waited timed used err a r s t \<and> s' = t\<lparr>rx := es'\<rparr>"
proof -
  obtain es' t where w: "wait_loop cb timed (rx s) s = Done (err, es') t" and s': "s' = t\<lparr>rx := es'\<rparr>"
    using assms
    by (auto simp: wait_final_def outcome_simps wait_done_waiting split: outcome.splits)
  show ?thesis
    using wait_loop_waiting [OF w assms(2)] s' by blast
qed

text \<open>Events with no command pending.\<close>

lemma as_reader_idle:
  assumes "as_reader m s = Done () s'" and "sp_response s = Null"
    and "\<And>t t'. m t = Done () t' \<Longrightarrow> self_reader t \<Longrightarrow> sp_response t = Null \<Longrightarrow> same_cmd t t'"
  shows "same_cmd s s'"
proof -
  obtain t where t: "m (s\<lparr>self_reader := True\<rparr>) = Done () t" and s': "s' = t\<lparr>self_reader := self_reader s\<rparr>"
    using as_reader_Done [OF assms(1)] by blast
  have "same_cmd (s\<lparr>self_reader := True\<rparr>) t"
    using assms(2) by (intro assms(3) [OF t]) auto
  then show ?thesis
    by (simp add: s' same_cmd_def)
qed

lemma reader_event_idle:
  assumes "reader_event cb e s = Done () s'" and "sp_response s = Null"
  shows "same_cmd s s'"
proof (cases e)
  case (Line l)
  show ?thesis
    by (rule as_reader_idle [OF _ assms(2)]) (use assms(1) Line in simp, blast intro: processLine_idle)
next
  case (SmsLines l1 l2)
  show ?thesis
    by (rule as_reader_idle [OF _ assms(2)])
      (use assms(1) SmsLines in simp,
       auto simp: outcome_simps split: option.splits dest: unsol_frame)
next
  case Closed
  show ?thesis
    by (rule as_reader_idle [OF _ assms(2)])
      (use assms(1) Closed in simp, blast intro: onReaderClosed_frame)
qed (use assms in \<open>auto simp: outcome_simps\<close>)

lemma reader_events_idle:
  "reader_events cb es s = Done () s' \<Longrightarrow> sp_response s = Null \<Longrightarrow> same_cmd s s'"
proof (induction es arbitrary: s)
  case Nil
  then show ?case by (simp add: outcome_simps)
next
  case (Cons e es)
  then obtain t where t: "reader_event cb e s = Done () t" "reader_events cb es t = Done () s'"
    by (auto elim!: seqp_DoneE)
  have st: "same_cmd s t"
    using t(1) Cons.prems(2) by (rule reader_event_idle)
  then have "sp_response t = Null"
    using Cons.prems(2) by (simp add: same_cmd_def)
  with t(2) have "same_cmd t s'"
    by (rule Cons.IH)
  with st show ?case by (rule same_cmd_trans)
qed

text \<open>No line crashes the reader, whether a command is pending or not.\<close>

lemma handleUnsolicited_returns:
  "\<not> isSMSUnsolicited l \<Longrightarrow> \<exists>s'. handleUnsolicited cb l s = Done () s'"
  by (auto simp: handleUnsolicited_def outcome_simps split: option.splits dest: unsol_returns)

lemma closed_sets:
  assumes "reader_event cb Closed s = Done () s'" and "onClosed cb \<noteq> None"
  shows "s_readerClosed s'"
proof -
  obtain k t where k: "onClosed cb = Some k" and t: "onReaderClosed cb (s\<lparr>self_reader := True\<rparr>) = Done () t"
    and s': "s' = t\<lparr>self_reader := self_reader s\<rparr>"
    using assms as_reader_Done [of "onReaderClosed cb" s "()" s'] by auto
  have "s_readerClosed t"
  proof (cases "s_readerClosed s")
    case True
    then show ?thesis using t k by (auto simp: onReaderClosed_def outcome_simps)
  next
    case False
    then have "k (s\<lparr>self_reader := True, s_readerClosed := True\<rparr>) = Done () t"
      using t k by (simp add: onReaderClosed_def outcome_simps)
    then have "same_cmd (s\<lparr>self_reader := True, s_readerClosed := True\<rparr>) t"
      by (intro closed_frame [OF k]) simp_all
    then show ?thesis by (simp add: same_cmd_def)
  qed
  then show ?thesis by (simp add: s')
qed

lemma onReaderClosed_returns: "\<exists>s'. onReaderClosed cb s = Done () s'"
  by (auto simp: onReaderClosed_def outcome_simps split: option.splits dest: closed_returns)

lemma write_terminated_returns: "\<exists>x s'. write_terminated c t s = Done x s'"
  by (auto simp: write_terminated_def write_bytes_def outcome_simps split: prod.splits)

lemma processLine_returns:
  assumes "waiting a r s" and "prefix_ok (s_type s) (s_responsePrefix s)" and "\<not> isSMSUnsolicited l"
  shows "\<exists>s'. processLine cb l s = Done () s'"
proof -
  have p: "sp_response s = Ptr a" and h: "heap s a = Some r"
    using assms(1) by (auto simp: waiting_def)
  have "\<exists>s'. process_by_type cb l s = Done () s'"
    using p h assms(2) handleUnsolicited_returns [OF assms(3), of s]
    by (cases "s_type s")
      (auto simp: process_by_type_def no_intermediate_def has_prefix_def addIntermediate_def prefix_ok_def
        deref_Ptr update_at_Ptr outcome_simps)
  moreover obtain x t where "write_terminated (the (s_smsPDU s)) (CHR 0x1A) s = Done x t"
    using write_terminated_returns by blast
  ultimately show ?thesis
    using p h by (simp add: processLine_def handleFinalResponse_def writeCtrlZ_def outcome_simps update_at_Ptr)
qed

lemma processLine_idle_returns:
  "sp_response s = Null \<Longrightarrow> \<not> isSMSUnsolicited l \<Longrightarrow> \<exists>s'. processLine cb l s = Done () s'"
  using handleUnsolicited_returns [of l s] by (simp add: processLine_def outcome_simps)

lemma as_reader_returns:
  "\<exists>t. m (s\<lparr>self_reader := True\<rparr>) = Done () t \<Longrightarrow> \<exists>s'. as_reader m s = Done () s'"
  by (auto simp: as_reader_def outcome_simps)

lemma reader_event_returns:
  assumes "event_ok e"
    and "sp_response s = Null \<or> (\<exists>a r. waiting a r s) \<and> prefix_ok (s_type s) (s_responsePrefix s)"
  shows "\<exists>s'. reader_event cb e s = Done () s'"
proof (cases e)
  case (Line l)
  let ?s = "s\<lparr>self_reader := True\<rparr>"
  have "\<exists>s'. processLine cb l ?s = Done () s'"
    using assms Line processLine_returns [of _ _ ?s l] processLine_idle_returns [of ?s l]
    by (auto simp: waiting_def)
  then show ?thesis
    using as_reader_returns [of "processLine cb l" s] Line by auto
next
  case (SmsLines l1 l2)
  have "\<exists>s'. (case unsolHandler cb of None \<Rightarrow> ret () | Some h \<Rightarrow> h l1 (Some l2)) t = Done () s'" for t
    using unsol_returns [of _ l1 "Some l2" t] by (auto simp: outcome_simps split: option.splits)
  then show ?thesis
    unfolding SmsLines reader_event.simps by (intro as_reader_returns)
next
  case Closed
  then show ?thesis
    using as_reader_returns [of "onReaderClosed cb" s] onReaderClosed_returns [of "s\<lparr>self_reader := True\<rparr>"]
    by auto
qed (simp_all add: outcome_simps)

lemma wait_loop_no_fault:
  "waiting a r s \<Longrightarrow> prefix_ok (s_type s) (s_responsePrefix s) \<Longrightarrow> \<forall>e \<in> set es. event_ok e \<Longrightarrow>
   wait_loop cb timed es s \<noteq> Fault f t"
proof (induction es arbitrary: s r)
  case Nil
  then show ?case by simp
next
  case (Cons e es)
  have IH: "wait_loop cb timed es s \<noteq> Fault f t"
    using Cons by simp
  consider (wake) "e = Wake" | (out) "e = TimedOut" | (event) "e \<noteq> Wake" "e \<noteq> TimedOut"
    by blast
  then show ?case
  proof cases
    case wake
    then show ?thesis
      using IH Cons.prems(1) by (simp add: outcome_simps wait_done_waiting)
  next
    case out
    then show ?thesis
      using IH by (cases timed) (simp_all add: outcome_simps)
  next
    case event
    obtain s' where s': "reader_event cb e s = Done () s'"
      using reader_event_returns [of e s] Cons.prems by auto
    have w: "waiting a (snd (absorb_events (s_type s) (s_responsePrefix s) [e] (s_smsPDU s, r))) s'"
      and fr: "wait_frame a s s'"
      using reader_event_waiting [OF s' Cons.prems(1)] by auto
    have "wait_loop cb timed es s' \<noteq> Fault f t"
      using w fr Cons.prems by (intro Cons.IH [OF w]) (auto simp: wait_frame_def)
    then show ?thesis
      using event s' by (simp add: wait_loop_event outcome_simps)
  qed
qed

lemma reader_events_returns:
  "sp_response s = Null \<Longrightarrow> \<forall>e \<in> set es. event_ok e \<Longrightarrow> \<exists>s'. reader_events cb es s = Done () s'"
proof (induction es arbitrary: s)
  case Nil
  then show ?case by (simp add: outcome_simps)
next
  case (Cons e es)
  obtain t where t: "reader_event cb e s = Done () t"
    using reader_event_returns [of e s] Cons.prems by auto
  then have "sp_response t = Null"
    using reader_event_idle [OF t] Cons.prems(1) by (simp add: same_cmd_def)
  then show ?case
    using Cons.IH [of t] Cons.prems t by (simp add: outcome_simps)
qed

end

subsection \<open>Idle channels and what a command leaves behind\<close>

definition heap_wf :: "'z chan_scheme \<Rightarrow> bool" where
  "heap_wf s \<longleftrightarrow> (\<forall>a \<ge> brk s. heap s a = None)"

definition idle :: "'z chan_scheme \<Rightarrow> bool" where
  "idle s \<longleftrightarrow> sp_response s = Null \<and> s_smsPDU s = None \<and> s_responsePrefix s = None \<and> heap_wf s"

lemma same_cmd_idle: "same_cmd s s' \<Longrightarrow> idle s \<Longrightarrow> idle s'"
  by (simp add: same_cmd_def idle_def heap_wf_def)

abbreviation new_response :: ATResponse where
  "new_response \<equiv> \<lparr>success = 0, finalResponse = None, p_intermediates = []\<rparr>"

text \<open>The response handed out: what was absorbed, in the order of arrival.\<close>

definition response_of ::
  "ATCommandType \<Rightarrow> string option \<Rightarrow> string option \<Rightarrow> event list \<Rightarrow> ATResponse" where
  "response_of ty pre pdu es =
     (let r = snd (absorb_events ty pre es (pdu, new_response))
      in r\<lparr>p_intermediates := rev (p_intermediates r)\<rparr>)"

lemma response_of_ok: "resp_ok ty pre (response_of ty pre pdu es)"
  using resp_ok_absorb_events [of ty pre "(pdu, new_response)" es] resp_ok_new
  by (simp add: response_of_def Let_def resp_ok_rev)

text \<open>
  The abstract specification of a command.  Either it failed before it was answered, or it
  was answered: some non-empty part \<open>used\<close> of its events, ending in a \<open>Wake\<close>, makes up the
  response.  Nothing is left pending and no other response is touched.
\<close>

definition answered ::
  "ATCommandType \<Rightarrow> string option \<Rightarrow> string option \<Rightarrow> ptr option \<Rightarrow> int \<times> ptr \<Rightarrow>
   'z chan_scheme \<Rightarrow> 'z chan_scheme \<Rightarrow> bool" where
  "answered ty pre pdu pp result s s' \<longleftrightarrow>
     (\<exists>used rest. rx s @ concat (take 1 (env s)) = used @ rest \<and> used \<noteq> [] \<and> last used = Wake \<and>
        (let r = response_of ty pre pdu used in
          (fst result = 0 \<and> finalResponse r \<noteq> None \<or> fst result = AT_ERROR_CHANNEL_CLOSED) \<and>
          (if pp = None then snd result = Null \<and> heap s' = heap s
           else snd result = Ptr (brk s) \<and> heap s' = (heap s)(brk s \<mapsto> r))))"

text \<open>The events still to come.\<close>

definition pending_events :: "'z chan_scheme \<Rightarrow> event set" where
  "pending_events s = set (rx s) \<union> set (concat (env s))"

lemma pending_events_heap [simp]: "pending_events (s\<lparr>heap := h\<rparr>) = pending_events s"
  by (simp add: pending_events_def)

definition command_spec ::
  "ATCommandType \<Rightarrow> string option \<Rightarrow> string option \<Rightarrow> bool \<Rightarrow> ptr option \<Rightarrow> int \<times> ptr \<Rightarrow>
   'z chan_scheme \<Rightarrow> 'z chan_scheme \<Rightarrow> bool" where
  "command_spec ty pre pdu timed pp result s s' \<longleftrightarrow>
     idle s' \<and> self_reader s' = self_reader s \<and> brk s \<le> brk s' \<and>
     pending_events s' \<subseteq> pending_events s \<and> env s' \<in> {env s, tl (env s)} \<and>
     (fst result \<in> {AT_ERROR_GENERIC, AT_ERROR_CHANNEL_CLOSED, AT_ERROR_INVALID_THREAD}
          \<union> (if timed then {AT_ERROR_TIMEOUT} else {})
        \<and> snd result = out_unchanged pp \<and> heap s' = heap s
      \<or> answered ty pre pdu pp result s s')"

lemma concat_take_tl: "concat xs = concat (take 1 xs) @ concat (tl xs)"
  by (cases xs) simp_all

lemma begin_command_apply:
  "begin_command ty pre pdu s = Done ()
     (s\<lparr>heap := (heap s)(brk s \<mapsto> new_response), brk := Suc (brk s), s_type := ty,
       s_responsePrefix := pre, s_smsPDU := pdu, sp_response := Ptr (brk s)\<rparr>)"
  by (simp add: begin_command_def at_response_new_def outcome_simps)

lemma clearPendingCommand_waiting:
  "waiting a r s \<Longrightarrow> clearPendingCommand s = Done ()
     (s\<lparr>heap := (heap s)(a := None), sp_response := Null, s_responsePrefix := None, s_smsPDU := None\<rparr>)"
  by (simp add: clearPendingCommand_def waiting_def at_response_free_def outcome_simps)

lemma clearPendingCommand_idle:
  "sp_response s = Null \<Longrightarrow> clearPendingCommand s = Done ()
     (s\<lparr>sp_response := Null, s_responsePrefix := None, s_smsPDU := None\<rparr>)"
  by (simp add: clearPendingCommand_def at_response_free_def outcome_simps)

lemma finish_command_waiting:
  "waiting a r s \<Longrightarrow> finish_command pp s = Done
     (if s_readerClosed s then AT_ERROR_CHANNEL_CLOSED else 0, if pp = None then Null else Ptr a)
     (s\<lparr>heap := (heap s)(a := if pp = None then None
          else Some (r\<lparr>p_intermediates := rev (p_intermediates r)\<rparr>)),
        sp_response := Null, s_responsePrefix := None, s_smsPDU := None\<rparr>)"
  by (auto simp: finish_command_def waiting_def at_response_free_def reverseIntermediates_def
      update_at_Ptr clearPendingCommand_idle reverse_loop_rev outcome_simps)

lemma writeline_open: "writeline c s = Done err s' \<Longrightarrow> \<not> err < 0 \<Longrightarrow> err = 0 \<and> \<not> s_readerClosed s"
  by (auto simp: writeline_def write_terminated_def outcome_simps at_errors split: if_splits outcome.splits)

lemma writeline_err: "writeline c s = Done err s' \<Longrightarrow> err < 0 \<Longrightarrow> err \<in> {AT_ERROR_GENERIC, AT_ERROR_CHANNEL_CLOSED}"
  by (auto simp: writeline_def write_terminated_def outcome_simps at_errors split: if_splits outcome.splits)

context channel_client
begin

text \<open>The internal implementation, from an idle channel.\<close>

lemma nolock_cases:
  fixes s :: "'z chan_scheme"
  assumes "idle s"
  obtains (failed) e t where
      "at_send_command_full_nolock cb c ty pre pdu timeout pp s = Done (e, out_unchanged pp) t"
      "e = AT_ERROR_GENERIC \<or> e = AT_ERROR_CHANNEL_CLOSED" "idle t" "heap t = heap s"
      "brk t = Suc (brk s)" "self_reader t = self_reader s" "pending_events t = pending_events s"
      "env t = env s"
  | (sent) u where
      "at_send_command_full_nolock cb c ty pre pdu timeout pp s = bindp (wait_final cb (timeout \<noteq> 0))
        (\<lambda>err. if err = AT_ERROR_TIMEOUT then seqp clearPendingCommand (ret (err, out_unchanged pp))
               else finish_command pp) u"
      "waiting (brk s) new_response u" "\<not> s_readerClosed u" "s_type u = ty" "s_responsePrefix u = pre"
      "s_smsPDU u = pdu" "rx u = rx s @ concat (take 1 (env s))" "env u = tl (env s)"
      "brk u = Suc (brk s)" "self_reader u = self_reader s" "\<forall>b. b \<noteq> brk s \<longrightarrow> heap u b = heap s b"
proof -
  let ?a = "brk s"
  let ?s = "s\<lparr>heap := (heap s)(?a \<mapsto> new_response), brk := Suc ?a, s_type := ty,
       s_responsePrefix := pre, s_smsPDU := pdu, sp_response := Ptr ?a\<rparr>"
  obtain e t where wl: "writeline c ?s = Done e t"
    using write_terminated_returns unfolding writeline_def by blast
  define k :: "('z chan_scheme, int \<times> ptr) prog" where
    "k = bindp (wait_final cb (timeout \<noteq> 0))
        (\<lambda>err. if err = AT_ERROR_TIMEOUT then seqp clearPendingCommand (ret (err, out_unchanged pp))
               else finish_command pp)"
  have run: "at_send_command_full_nolock cb c ty pre pdu timeout pp s =
      (if e < 0 then seqp clearPendingCommand (ret (e, out_unchanged pp)) else seqp take_reaction k) t"
    using assms wl unfolding k_def
    by (simp add: at_send_command_full_nolock_def idle_def outcome_simps begin_command_apply)
  have "t = ?s\<lparr>tx := tx t, wenv := wenv t\<rparr>"
    using write_terminated_frame [OF wl [unfolded writeline_def]] by simp
  then obtain tx' wenv' where t: "t = ?s\<lparr>tx := tx', wenv := wenv'\<rparr>"
    by metis
  have wt: "waiting ?a new_response t"
    by (simp add: waiting_def t)
  have fresh: "(heap s)(?a := None) = heap s" and wf: "\<forall>b\<ge>?a. heap s b = None"
    using assms by (auto simp: idle_def heap_wf_def)
  show thesis
  proof (cases "e < 0")
    case True
    then have e: "e = AT_ERROR_GENERIC \<or> e = AT_ERROR_CHANNEL_CLOSED"
      using writeline_err [OF wl] by simp
    show thesis
      by (rule failed [OF _ e])
        (use True run in \<open>simp add: outcome_simps clearPendingCommand_waiting [OF wt]\<close>,
         simp_all add: t idle_def heap_wf_def fresh pending_events_def wf)
  next
    case False
    then have "\<not> s_readerClosed s"
      using writeline_open [OF wl] by simp
    moreover have "take_reaction t = Done () (t\<lparr>rx := rx s @ concat (take 1 (env s)), env := tl (env s)\<rparr>)"
      by (cases "env s") (simp_all add: take_reaction_def modp_def t)
    ultimately show thesis
      using False run unfolding k_def
      by (intro sent [of "t\<lparr>rx := rx s @ concat (take 1 (env s)), env := tl (env s)\<rparr>"])
        (simp_all add: outcome_simps t waiting_def)
  qed
qed

lemma nolock_command_spec:
  fixes s :: "'z chan_scheme"
  assumes idle: "idle s"
    and d: "at_send_command_full_nolock cb c ty pre pdu timeout pp s = Done (err, p) s'"
  shows "command_spec ty pre pdu (timeout \<noteq> 0) pp (err, p) s s'"
  using idle
proof (cases rule: nolock_cases [where c = c and ty = ty and pre = pre and pdu = pdu
      and timeout = timeout and pp = pp])
  case (failed e t)
  then show ?thesis
    using d by (auto simp: command_spec_def)
next
  case (sent u)
  let ?a = "brk s"
  obtain e' v where w: "wait_final cb (timeout \<noteq> 0) u = Done e' v"
    and d: "(if e' = AT_ERROR_TIMEOUT then seqp clearPendingCommand (ret (e', out_unchanged pp))
         else finish_command pp) v = Done (err, p) s'"
    using d sent(1) by (auto elim: bindp_DoneE)
  have undo: "(heap s)(?a := None) = heap s" and wf: "\<forall>b\<ge>?a. heap s b = None"
    using idle by (auto simp: idle_def heap_wf_def)
  obtain used es' v' where u: "rx u = used @ es'" "used \<noteq> []"
      "waited (timeout \<noteq> 0) used e' ?a new_response u v'" and v: "v = v'\<lparr>rx := es'\<rparr>"
    using wait_final_waiting [OF w sent(2) _ sent(3)] by auto
  let ?x = "absorb_events ty pre used (pdu, new_response)"
  have fr: "wait_frame ?a u v'" and "waiting ?a (snd ?x) v'"
    and st: "if e' = 0 then (finalResponse (snd ?x) \<noteq> None \<or> s_readerClosed v') \<and> last used = Wake
     else e' = AT_ERROR_TIMEOUT \<and> timeout \<noteq> 0"
    using u(2,3) sent by (auto simp: waited_def Let_def split: if_splits)
  then have wv: "waiting ?a (snd ?x) v"
    by (simp add: v waiting_def)
  have vf: "brk v = Suc ?a" "self_reader v = self_reader s" "\<forall>b. b \<noteq> ?a \<longrightarrow> heap v b = heap s b"
    "env v = tl (env s)"
    using fr sent by (auto simp: wait_frame_def v)
  have rx: "rx s @ concat (take 1 (env s)) = used @ es'"
    using u(1) sent by simp
  have pv: "pending_events v \<subseteq> pending_events s"
  proof -
    have "pending_events v = set es' \<union> set (concat (tl (env s)))"
      using fr sent by (simp add: wait_frame_def pending_events_def v)
    moreover have "set es' \<subseteq> set (rx s @ concat (take 1 (env s)))"
      using rx by simp
    moreover have "set (concat (env s)) = set (concat (take 1 (env s))) \<union> set (concat (tl (env s)))"
      by (subst concat_take_tl) (rule set_append)
    ultimately show ?thesis
      unfolding pending_events_def set_append by blast
  qed
  have hv: "(heap v)(?a := z) = (heap s)(?a := z)" for z
    using vf(3) by auto
  show ?thesis
  proof (cases "e' = AT_ERROR_TIMEOUT")
    case True
    then have "timeout \<noteq> 0"
      using st by (simp add: at_errors)
    moreover have "err = e' \<and> p = out_unchanged pp \<and>
      s' = v\<lparr>heap := heap s, sp_response := Null, s_responsePrefix := None, s_smsPDU := None\<rparr>"
      using d True by (simp add: outcome_simps clearPendingCommand_waiting [OF wv] hv undo)
    ultimately show ?thesis
      using True wf vf pv by (simp add: command_spec_def idle_def heap_wf_def pending_events_def)
  next
    case False
    have res: "err = (if s_readerClosed v then AT_ERROR_CHANNEL_CLOSED else 0) \<and>
      p = (if pp = None then Null else Ptr ?a) \<and>
      s' = v\<lparr>heap := (heap s)(?a := if pp = None then None else Some (response_of ty pre pdu used)),
             sp_response := Null, s_responsePrefix := None, s_smsPDU := None\<rparr>"
      using d False
      by (auto simp: finish_command_waiting [OF wv] hv response_of_def Let_def)
    have hs: "heap s' = (if pp = None then heap s else (heap s)(?a \<mapsto> response_of ty pre pdu used))"
      using res undo by simp
    have ss: "sp_response s' = Null" "s_responsePrefix s' = None" "s_smsPDU s' = None"
      "brk s' = Suc ?a" "self_reader s' = self_reader s" "pending_events s' = pending_events v"
      "env s' = tl (env s)"
      using res vf by (simp_all add: pending_events_def)
    have "idle s'"
      using wf by (simp add: idle_def heap_wf_def hs ss)
    moreover have "answered ty pre pdu pp (err, p) s s'"
      unfolding answered_def
    proof (intro exI conjI)
      show "rx s @ concat (take 1 (env s)) = used @ es'" "used \<noteq> []"
        by (rule rx) (rule u(2))
      show "last used = Wake"
        using st False by (simp split: if_splits)
      have "finalResponse (response_of ty pre pdu used) \<noteq> None" if "\<not> s_readerClosed v"
        using st False that by (simp add: v response_of_def Let_def split: if_splits)
      then show "let r = response_of ty pre pdu used in
        (fst (err, p) = 0 \<and> finalResponse r \<noteq> None \<or> fst (err, p) = AT_ERROR_CHANNEL_CLOSED) \<and>
        (if pp = None then snd (err, p) = Null \<and> heap s' = heap s
         else snd (err, p) = Ptr (brk s) \<and> heap s' = (heap s)(brk s \<mapsto> r))"
        using res undo by (simp add: Let_def hs)
    qed
    ultimately show ?thesis
      using pv by (simp add: command_spec_def ss)
  qed
qed

text \<open>Nor does it crash, whatever the events.\<close>

lemma nolock_no_fault:
  fixes s :: "'z chan_scheme"
  assumes "idle s" and ev: "\<forall>e \<in> pending_events s. event_ok e" and pre: "prefix_ok ty pre"
  shows "at_send_command_full_nolock cb c ty pre pdu timeout pp s \<noteq> Fault f t"
  using assms(1)
proof (cases rule: nolock_cases [where c = c and ty = ty and pre = pre and pdu = pdu
      and timeout = timeout and pp = pp])
  case (failed e t)
  then show ?thesis by simp
next
  case (sent u)
  have "wait_loop cb (timeout \<noteq> 0) (rx u) u \<noteq> Fault f' t'" for f' t'
  proof (rule wait_loop_no_fault [OF sent(2)])
    show "prefix_ok (s_type u) (s_responsePrefix u)"
      using pre sent by simp
    have "set (rx u) \<subseteq> pending_events s"
      using concat_take_tl [of "env s"] sent by (cases "env s") (auto simp: pending_events_def)
    then show "\<forall>e \<in> set (rx u). event_ok e"
      using ev by blast
  qed
  then have w: "wait_final cb (timeout \<noteq> 0) u \<noteq> Fault f' t'" for f' t'
    using sent by (auto simp: wait_final_def wait_done_waiting outcome_simps split: outcome.splits)
  have fin: "\<exists>r. waiting (brk s) r v" if "wait_final cb (timeout \<noteq> 0) u = Done e' v" for e' v
    using wait_final_waiting [OF that sent(2) _ sent(3)]
    by (auto simp: waited_def Let_def waiting_def)
  show ?thesis
    unfolding sent(1)
    using w fin
    by (auto simp: bindp_apply seqp_apply ret_apply clearPendingCommand_waiting finish_command_waiting
        split: outcome.splits)
qed

lemma command_spec_same_cmd:
  assumes "command_spec ty pre pdu timed pp x s t" and "same_cmd t s'"
  shows "command_spec ty pre pdu timed pp x s s'"
proof -
  have eq: "heap s' = heap t" "brk s' = brk t" "self_reader s' = self_reader t"
    "pending_events s' = pending_events t" "env s' = env t"
    using assms(2) by (simp_all add: same_cmd_def pending_events_def)
  have "idle s'"
    using assms by (blast intro: same_cmd_idle dest: command_spec_def [THEN iffD1])
  then show ?thesis
    using assms(1) unfolding command_spec_def answered_def eq by blast
qed

lemma drain_idle: "idle s \<Longrightarrow> drain cb s = Done () s' \<Longrightarrow> same_cmd (s\<lparr>rx := []\<rparr>) s'"
  using reader_events_idle [of "rx s" "s\<lparr>rx := []\<rparr>" s'] by (auto simp: drain_def outcome_simps idle_def)

lemma drain_keeps_spec:
  assumes "command_spec ty pre pdu timed pp x s t" and "drain cb t = Done () s'"
  shows "command_spec ty pre pdu timed pp x s s'"
proof -
  have "idle t"
    using assms(1) by (simp add: command_spec_def)
  then have "same_cmd (t\<lparr>rx := []\<rparr>) s'"
    using assms(2) by (rule drain_idle)
  moreover have "pending_events (t\<lparr>rx := []\<rparr>) \<subseteq> pending_events t"
    by (auto simp: pending_events_def)
  then have "command_spec ty pre pdu timed pp x s t \<longrightarrow> command_spec ty pre pdu timed pp x s (t\<lparr>rx := []\<rparr>)"
    unfolding command_spec_def answered_def idle_def heap_wf_def by auto
  ultimately show ?thesis
    using assms(1) command_spec_same_cmd by blast
qed

text \<open>Every command of the public interface, from an idle channel.\<close>

theorem send_command_spec:
  assumes idle: "idle s"
    and d: "at_send_command_full cb c ty pre pdu timeout pp s = Done (err, p) s'"
  shows "command_spec ty pre pdu (timeout \<noteq> 0) pp (err, p) s s'"
proof (cases "self_reader s")
  case True
  then show ?thesis
    using d idle by (auto simp: at_send_command_full_def outcome_simps command_spec_def)
next
  case False
  then obtain t u where t: "at_send_command_full_nolock cb c ty pre pdu timeout pp s = Done (err, p) t"
    and u: "drain cb t = Done () u"
    and s': "(case onTimeout cb of None \<Rightarrow> ret ()
              | Some h \<Rightarrow> if err = AT_ERROR_TIMEOUT then h else ret ()) u = Done () s'"
    using d by (auto simp: at_send_command_full_def outcome_simps split: outcome.splits)
  have spec: "command_spec ty pre pdu (timeout \<noteq> 0) pp (err, p) s u"
    using nolock_command_spec [OF idle t] u by (rule drain_keeps_spec)
  then have "sp_response u = Null"
    by (simp add: command_spec_def idle_def)
  then have "same_cmd u s'"
    using s' by (auto simp: outcome_simps split: option.splits if_splits dest: timeout_frame)
  with spec show ?thesis
    by (rule command_spec_same_cmd)
qed

end

end
