(* ===== verification/AtSender.thy ===== *)
theory AtSender
  imports AtChannelSpec
begin

section \<open>The contract the callers of the AT channel rely on\<close>

text \<open>
  What a caller of \<open>at_send_command\<close> and its relatives may assume, beyond
  \<open>command_spec\<close>: no command runs into undefined behaviour, none touches the client's
  own state except through the callbacks, and an answered command returns.  The interface is
  the locale \<open>sender\<close>; the five public entry points are instances of it for every
  well-behaved client.
\<close>

subsection \<open>Commands do not fault, and respect the client's state\<close>

context channel_client
begin

lemma drain_returns:
  "idle s \<Longrightarrow> \<forall>e \<in> pending_events s. event_ok e \<Longrightarrow> \<exists>s'. drain cb s = Done () s'"
  using reader_events_returns [of "s\<lparr>rx := []\<rparr>" "rx s"]
  by (simp add: drain_def outcome_simps idle_def pending_events_def)

lemma send_command_no_fault:
  assumes "idle s" and ev: "\<forall>e \<in> pending_events s. event_ok e" and "prefix_ok ty pre"
  shows "at_send_command_full cb c ty pre pdu timeout pp s \<noteq> Fault f t"
proof (cases "at_send_command_full_nolock cb c ty pre pdu timeout pp s")
  case (Done r u)
  then have "idle u" and "pending_events u \<subseteq> pending_events s"
    using nolock_command_spec [OF assms(1), of c ty pre pdu timeout pp "fst r" "snd r" u]
    by (simp_all add: command_spec_def)
  then obtain v where "drain cb u = Done () v"
    using drain_returns [of u] ev by blast
  then show ?thesis
    using Done timeout_returns [of _ v]
    by (cases r; cases "onTimeout cb") (auto simp: at_send_command_full_def outcome_simps)
next
  case (Blocked u)
  then show ?thesis by (simp add: at_send_command_full_def outcome_simps)
next
  case (Fault g u)
  then show ?thesis
    using nolock_no_fault [OF assms] by blast
qed

lemma keep_refl: "reflp keep"
  by (rule reflpI) (rule keep_chan, rule refl)

lemmas keep_rules =
  keeps_bind [OF keep_trans] keeps_seq [OF keep_trans] keeps_ret [OF keep_refl]
  keeps_getp [OF keep_refl] keeps_failp

lemma keeps_chan_only:
  "(\<And>s x s'. m s = Done x s' \<Longrightarrow> chan.more s' = chan.more s) \<Longrightarrow> keeps keep m"
  by (rule keepsI) (rule keep_chan)

lemma keeps_modp_chan: "(\<And>s. chan.more (f s) = chan.more s) \<Longrightarrow> keeps keep (modp f)"
  by (rule keeps_modp) (rule keep_chan)

lemma keeps_update_at: "keeps keep (update_at p f)"
  by (rule keeps_chan_only) (auto simp: update_at_def deref_def outcome_simps split: ptr.splits option.splits)

lemma keeps_write: "keeps keep (write_terminated c t)"
  by (rule keeps_chan_only)
    (auto simp: write_terminated_def write_bytes_def outcome_simps split: if_splits prod.splits)

lemma keeps_deref: "keeps keep (deref p)"
  by (rule keeps_chan_only) (auto simp: deref_def split: ptr.splits option.splits)

lemma keeps_free: "keeps keep (at_response_free p)"
  by (rule keeps_chan_only) (auto simp: at_response_free_def split: ptr.splits option.splits)

lemma keeps_handleUnsolicited: "keeps keep (handleUnsolicited cb l)"
  unfolding handleUnsolicited_def
  by (cases "unsolHandler cb") (auto intro: keep_rules unsol_keep)

lemma keeps_process_by_type: "keeps keep (process_by_type cb l)"
  unfolding process_by_type_def no_intermediate_def has_prefix_def addIntermediate_def
  by (intro keep_rules, split ATCommandType.split)
    (auto intro!: keep_rules keeps_update_at keeps_deref keeps_handleUnsolicited split: option.split)

lemma keeps_processLine: "keeps keep (processLine cb l)"
  unfolding processLine_def handleFinalResponse_def writeCtrlZ_def
  by (auto intro!: keep_rules keeps_update_at keeps_modp_chan keeps_write keeps_process_by_type
      keeps_handleUnsolicited)

lemma keeps_onReaderClosed: "keeps keep (onReaderClosed cb)"
  unfolding onReaderClosed_def
  by (cases "onClosed cb") (auto intro!: keep_rules keeps_modp_chan intro: closed_keep)

lemma keeps_as_reader: "keeps keep m \<Longrightarrow> keeps keep (as_reader m)"
  unfolding as_reader_def by (intro keep_rules keeps_modp_chan) simp_all

lemma keeps_reader_event: "keeps keep (reader_event cb e)"
proof (cases e)
  case (SmsLines l1 l2)
  show ?thesis
    unfolding SmsLines reader_event.simps
    by (rule keeps_as_reader, cases "unsolHandler cb")
      (auto intro: keep_rules unsol_keep)
qed (simp_all add: keeps_as_reader keeps_processLine keeps_onReaderClosed keep_rules)

lemma keeps_reader_events: "keeps keep (reader_events cb es)"
  by (induction es) (simp_all add: keep_rules keeps_reader_event)

lemma keeps_wait_done: "keeps keep wait_done"
  unfolding wait_done_def by (intro keep_rules keeps_deref)

lemma keeps_wait_loop: "keeps keep (wait_loop cb timed es)"
proof (induction es)
  case Nil
  then show ?case by (rule keepsI) simp
next
  case (Cons e es)
  then show ?case
    by (cases e; cases timed) (simp_all add: keep_rules keeps_wait_done keeps_reader_event del: reader_event.simps)
qed

lemma keeps_wait_final: "keeps keep (wait_final cb timed)"
  unfolding wait_final_def
  by (auto intro!: keep_rules keeps_wait_done keeps_wait_loop keeps_modp_chan)

lemma keeps_clear: "keeps keep clearPendingCommand"
  unfolding clearPendingCommand_def by (intro keep_rules keeps_free keeps_modp_chan) simp

lemma keeps_finish: "keeps keep (finish_command pp)"
  unfolding finish_command_def reverseIntermediates_def
  by (auto intro!: keep_rules keeps_free keeps_update_at keeps_clear keeps_modp_chan)

lemma keeps_begin: "keeps keep (begin_command ty pre pdu)"
  by (rule keeps_chan_only) (auto simp: begin_command_apply)

lemma keeps_take_reaction: "keeps keep take_reaction"
  unfolding take_reaction_def by (rule keeps_modp_chan) (simp split: list.split)

lemma keeps_nolock: "keeps keep (at_send_command_full_nolock cb c ty pre pdu timeout pp)"
  unfolding at_send_command_full_nolock_def writeline_def
  by (auto intro!: keep_rules keeps_clear keeps_write keeps_wait_final keeps_finish keeps_begin
      keeps_take_reaction)

lemma keeps_drain: "keeps keep (drain cb)"
  unfolding drain_def by (intro keep_rules keeps_reader_events keeps_modp_chan) simp

lemma keeps_full: "keeps keep (at_send_command_full cb c ty pre pdu timeout pp)"
  unfolding at_send_command_full_def
  by (cases "onTimeout cb")
    (auto intro!: keep_rules keeps_nolock keeps_drain simp: timeout_keep split: prod.split)

lemma keeps_require: "keeps keep (require_intermediate pp r)"
  unfolding require_intermediate_def
  by (auto intro!: keep_rules keeps_deref keeps_free split: prod.split)

end

text \<open>
  Liveness: a reaction in which a final response, or the end of the stream, comes before
  some \<open>Wake\<close> ends the wait.
\<close>

definition ends_wait :: "event \<Rightarrow> bool" where
  "ends_wait e = (case e of Line l \<Rightarrow> isFinalResponse l | Closed \<Rightarrow> True | _ \<Rightarrow> False)"

definition answering :: "event list \<Rightarrow> bool" where
  "answering es \<longleftrightarrow> (\<exists>as e bs. es = as @ e # bs \<and> ends_wait e \<and> Wake \<in> set bs)"

lemma answering_Cons: "answering (e # es) \<longleftrightarrow> ends_wait e \<and> Wake \<in> set es \<or> answering es"
proof
  assume "answering (e # es)"
  then obtain as e' bs where "e # es = as @ e' # bs" "ends_wait e'" "Wake \<in> set bs"
    by (auto simp: answering_def)
  then show "ends_wait e \<and> Wake \<in> set es \<or> answering es"
    by (cases as) (auto simp: answering_def)
next
  assume "ends_wait e \<and> Wake \<in> set es \<or> answering es"
  then show "answering (e # es)"
    unfolding answering_def by (metis append_Cons append_Nil)
qed

lemma absorb_keeps_final:
  "finalResponse (snd x) \<noteq> None \<Longrightarrow> finalResponse (snd (absorb_events ty pre es x)) \<noteq> None"
proof (induction ty pre es x rule: absorb_events.induct)
  case (2 ty pre l es pdu r)
  then show ?case by (cases "verdict ty pre pdu r l") (simp_all add: Let_def)
qed simp_all

lemma absorb_final:
  "isFinalResponse l \<Longrightarrow> finalResponse (absorb (verdict ty pre pdu r l) l r) \<noteq> None"
  by (auto simp: verdict_def isFinalResponse_def)

context channel_client
begin

lemma wait_loop_ends:
  "waiting a r s \<Longrightarrow> prefix_ok (s_type s) (s_responsePrefix s) \<Longrightarrow> \<forall>e \<in> set es. event_ok e \<Longrightarrow>
   onClosed cb \<noteq> None \<Longrightarrow>
   answering es \<or> Wake \<in> set es \<and> (finalResponse r \<noteq> None \<or> s_readerClosed s) \<Longrightarrow>
   \<exists>x s'. wait_loop cb timed es s = Done x s'"
proof (induction es arbitrary: s r)
  case Nil
  then show ?case by (simp add: answering_def)
next
  case (Cons e es)
  have silent: "\<exists>x s'. wait_loop cb timed es s = Done x s'"
    if "answering es \<or> Wake \<in> set es \<and> (finalResponse r \<noteq> None \<or> s_readerClosed s)"
    using Cons that by simp
  consider (wake) "e = Wake" | (out) "e = TimedOut" | (event) "e \<noteq> Wake" "e \<noteq> TimedOut"
    by blast
  then show ?case
  proof cases
    case wake
    then show ?thesis
      using silent Cons.prems
      by (auto simp: outcome_simps wait_done_waiting answering_Cons ends_wait_def)
  next
    case out
    then show ?thesis
      using silent Cons.prems by (auto simp: outcome_simps answering_Cons ends_wait_def)
  next
    case event
    obtain s' where s': "reader_event cb e s = Done () s'"
      using reader_event_returns [of e s] Cons.prems by auto
    let ?x = "absorb_events (s_type s) (s_responsePrefix s) [e] (s_smsPDU s, r)"
    have w: "waiting a (snd ?x) s'" and fr: "wait_frame a s s'"
      using reader_event_waiting [OF s' Cons.prems(1)] by auto
    have "s_readerClosed s'" if "e = Closed"
      using s' that Cons.prems(4) closed_sets [of s s'] by auto
    moreover have "finalResponse (snd ?x) \<noteq> None" if "ends_wait e" "e \<noteq> Closed"
      using that by (auto simp: ends_wait_def Let_def absorb_final simp del: not_None_eq split: event.splits)
    ultimately have "answering es \<or> Wake \<in> set es \<and> (finalResponse (snd ?x) \<noteq> None \<or> s_readerClosed s')"
      using Cons.prems(5) event fr absorb_keeps_final [of "(s_smsPDU s, r)" "s_type s" "s_responsePrefix s" "[e]"]
      by (auto simp: answering_Cons wait_frame_def)
    then have "\<exists>x t. wait_loop cb timed es s' = Done x t"
      using w fr Cons.prems by (intro Cons.IH [OF w]) (auto simp: wait_frame_def)
    then show ?thesis
      using event s' by (simp add: wait_loop_event outcome_simps)
  qed
qed

lemma send_command_returns:
  fixes s :: "'z chan_scheme"
  assumes "idle s" and ev: "\<forall>e \<in> pending_events s. event_ok e" and pre: "prefix_ok ty pre"
    and "onClosed cb \<noteq> None" and ans: "answering (rx s @ concat (take 1 (env s)))"
  shows "\<exists>r t. at_send_command_full cb c ty pre pdu timeout pp s = Done r t"
proof -
  have no_block: "at_send_command_full_nolock cb c ty pre pdu timeout pp s \<noteq> Blocked b" for b
    using assms(1)
  proof (cases rule: nolock_cases [where c = c and ty = ty and pre = pre and pdu = pdu
        and timeout = timeout and pp = pp])
    case (failed e t)
    then show ?thesis by simp
  next
    case (sent u)
    have "set (rx u) \<subseteq> pending_events s"
      using concat_take_tl [of "env s"] sent by (cases "env s") (auto simp: pending_events_def)
    then have "\<forall>e \<in> set (rx u). event_ok e"
      using ev by blast
    moreover have "answering (rx u)"
      using ans sent by simp
    ultimately obtain x v where "wait_loop cb (timeout \<noteq> 0) (rx u) u = Done x v"
      using wait_loop_ends [OF sent(2), of "rx u" "timeout \<noteq> 0"] sent(4,5) pre assms(4) by blast
    then have w: "\<exists>e' v. wait_final cb (timeout \<noteq> 0) u = Done e' v"
      using sent by (simp add: wait_final_def wait_done_waiting outcome_simps split: prod.split)
    have "\<exists>r. waiting (brk s) r v" if "wait_final cb (timeout \<noteq> 0) u = Done e' v" for e' v
      using wait_final_waiting [OF that sent(2) _ sent(3)]
      by (auto simp: waited_def Let_def waiting_def)
    then show ?thesis
      unfolding sent(1) using w
      by (auto simp: bindp_apply seqp_apply ret_apply clearPendingCommand_waiting finish_command_waiting
          split: if_splits)
  qed
  obtain r u where n: "at_send_command_full_nolock cb c ty pre pdu timeout pp s = Done r u"
    using no_block nolock_no_fault [OF assms(1-3)]
    by (cases "at_send_command_full_nolock cb c ty pre pdu timeout pp s") auto
  then have "idle u" and "pending_events u \<subseteq> pending_events s"
    using nolock_command_spec [OF assms(1), of c ty pre pdu timeout pp "fst r" "snd r" u]
    by (simp_all add: command_spec_def)
  then obtain v where "drain cb u = Done () v"
    using drain_returns [of u] ev by blast
  then show ?thesis
    using n timeout_returns [of _ v]
    by (cases r; cases "onTimeout cb") (auto simp: at_send_command_full_def outcome_simps)
qed

end


subsection \<open>The contract the callers of the channel rely on\<close>

text \<open>
  \<open>sender\<close> is the interface between the channel and its callers: one way to send a command
  that returns a response through a non-NULL \<open>pp_outResponse\<close>.  A caller may assume that an
  error code leaves either no new response or one that it must still free, that a success
  code comes with a fresh answered response for which \<open>good\<close> holds, and that nothing else
  changes hands.
\<close>

definition owns_only :: "ptr \<Rightarrow> 'z chan_scheme \<Rightarrow> 'z chan_scheme \<Rightarrow> bool" where
  "owns_only p s s' \<longleftrightarrow>
     (case p of Ptr a \<Rightarrow> (\<exists>r. heap s' = (heap s)(a \<mapsto> r)) \<and> brk s \<le> a \<and> a < brk s'
      | _ \<Rightarrow> heap s' = heap s)"

definition frame_ok :: "'z chan_scheme \<Rightarrow> 'z chan_scheme \<Rightarrow> bool" where
  "frame_ok s s' \<longleftrightarrow> idle s' \<and> self_reader s' = self_reader s \<and> brk s \<le> brk s' \<and>
     pending_events s' \<subseteq> pending_events s \<and> env s' \<in> {env s, tl (env s)} \<and>
     (rx s = [] \<longrightarrow> rx s' = [])"

text \<open>The final response is one of the lines the reader delivered.\<close>

definition final_from :: "'z chan_scheme \<Rightarrow> ATResponse \<Rightarrow> bool" where
  "final_from s r \<longleftrightarrow> (\<exists>l. finalResponse r = Some l \<and> Line l \<in> pending_events s)"

text \<open>
  \<open>handed_out\<close>: what a caller that passed the address of a variable holding \<open>q\<close> finds in it
  afterwards.
\<close>

definition handed_out ::
  "(ATResponse \<Rightarrow> bool) \<Rightarrow> ptr \<Rightarrow> int \<Rightarrow> ptr \<Rightarrow> 'z chan_scheme \<Rightarrow> 'z chan_scheme \<Rightarrow> bool" where
  "handed_out good q err p s t \<longleftrightarrow>
     err = 0 \<and> (\<exists>a r. p = Ptr a \<and> brk s \<le> a \<and> a < brk t \<and> heap t = (heap s)(a \<mapsto> r) \<and>
        final_from s r \<and> good r) \<or>
     err < 0 \<and> ((p = q \<or> p = Null) \<and> heap t = heap s \<or>
        (\<exists>a r. p = Ptr a \<and> brk s \<le> a \<and> a < brk t \<and> heap t = (heap s)(a \<mapsto> r)))"

definition events_ok :: "'z chan_scheme \<Rightarrow> bool" where
  "events_ok s \<longleftrightarrow> (\<forall>e \<in> pending_events s. event_ok e)"

text \<open>
  The environment answers the next \<open>n\<close> commands.  \<open>ready B n s\<close> is the state in which
  commands are issued; with \<open>B\<close> false it includes that the next \<open>n\<close> of them are answered.
\<close>

definition responsive :: "nat \<Rightarrow> 'z chan_scheme \<Rightarrow> bool" where
  "responsive n s \<longleftrightarrow> n \<le> length (env s) \<and> (\<forall>es \<in> set (env s). answering es) \<and> rx s = []"

definition ready :: "bool \<Rightarrow> nat \<Rightarrow> 'z chan_scheme \<Rightarrow> bool" where
  "ready B n s \<longleftrightarrow> idle s \<and> events_ok s \<and> (\<not> B \<longrightarrow> responsive n s)"

lemma ready_mono: "ready B n s \<Longrightarrow> m \<le> n \<Longrightarrow> ready B m s"
  by (auto simp: ready_def responsive_def)

lemma ready_frame:
  assumes "ready B (Suc n) s" and "frame_ok s t"
  shows "ready B n t"
proof -
  have "set (tl (env s)) \<subseteq> set (env s)"
    by (cases "env s") auto
  then show ?thesis
    using assms by (auto simp: ready_def frame_ok_def responsive_def events_ok_def)
qed

locale sender =
  fixes send :: "ptr \<Rightarrow> ('z chan_scheme, int \<times> ptr) prog"
    and good :: "ATResponse \<Rightarrow> bool"
    and keep :: "'z chan_scheme \<Rightarrow> 'z chan_scheme \<Rightarrow> bool"
  assumes send_frame: "idle s \<Longrightarrow> send q s = Done (err, p) s' \<Longrightarrow> frame_ok s s'"
    and send_keep: "keeps keep (send q)"
    and send_no_fault: "idle s \<Longrightarrow> events_ok s \<Longrightarrow> send q s \<noteq> Fault f t"
    and send_returns: "idle s \<Longrightarrow> events_ok s \<Longrightarrow> responsive (Suc n) s \<Longrightarrow> \<exists>r t. send q s = Done r t"
    and send_success: "idle s \<Longrightarrow> send q s = Done (0, p) s' \<Longrightarrow>
      \<exists>a r. p = Ptr a \<and> brk s \<le> a \<and> a < brk s' \<and> heap s' = (heap s)(a \<mapsto> r) \<and>
        final_from s r \<and> good r"
    and send_error: "idle s \<Longrightarrow> send q s = Done (err, p) s' \<Longrightarrow> err \<noteq> 0 \<Longrightarrow>
      err < 0 \<and> ((p = q \<or> p = Null) \<and> heap s' = heap s \<or> (\<exists>a. p = Ptr a) \<and> owns_only p s s')"
begin

text \<open>Freeing what was handed out restores the heap: from NULL, no command leaks.\<close>

lemma send_then_free:
  assumes "idle s" and "send Null s = Done (err, p) s'"
  shows "\<exists>t. at_response_free p s' = Done () t \<and> heap t = heap s \<and> frame_ok s t"
proof -
  have wf: "\<forall>a \<ge> brk s. heap s a = None" and fr: "frame_ok s s'"
    using assms send_frame by (auto simp: idle_def heap_wf_def)
  have own: "p = Null \<and> heap s' = heap s \<or> (\<exists>a r. p = Ptr a \<and> brk s \<le> a \<and> heap s' = (heap s)(a \<mapsto> r))"
  proof (cases "err = 0")
    case True
    then show ?thesis
      using send_success [of s Null p s'] assms by blast
  next
    case False
    then show ?thesis
      using send_error [OF assms False] by (auto simp: owns_only_def split: ptr.splits)
  qed
  then show ?thesis
    using wf fr by (auto simp: at_response_free_def frame_ok_def idle_def heap_wf_def fun_upd_idem)
qed

text \<open>The whole contract in one triple.\<close>

lemma send_triple:
  assumes rd: "ready B (Suc n) s"
  shows "safe B (send q) s (\<lambda>r t. ready B n t \<and> frame_ok s t \<and> keep s t \<and>
    handed_out good q (fst r) (snd r) s t)"
proof (rule safeI)
  have i: "idle s" "events_ok s"
    using rd by (simp_all add: ready_def)
  show "send q s \<noteq> Fault f t" for f t
    using send_no_fault [OF i] .
  show "\<exists>x t. send q s = Done x t" if "\<not> B"
    using send_returns [OF i] rd that by (auto simp: ready_def)
  fix x t
  assume d: "send q s = Done x t"
  obtain err p where x: "x = (err, p)" by (cases x)
  have fr: "frame_ok s t"
    using send_frame [OF i(1)] d x by simp
  moreover have "keep s t"
    using keepsD [OF send_keep d] .
  moreover have "handed_out good q err p s t"
  proof (cases "err = 0")
    case True
    then show ?thesis
      using send_success [OF i(1)] d x unfolding handed_out_def by blast
  next
    case False
    then show ?thesis
      using send_error [OF i(1) d [unfolded x] False] by (auto simp: owns_only_def handed_out_def)
  qed
  ultimately show "ready B n t \<and> frame_ok s t \<and> keep s t \<and> handed_out good q (fst x) (snd x) s t"
    using ready_frame [OF rd fr] x by simp
qed

end

lemma absorb_final_from:
  "finalResponse (snd (absorb_events ty pre es x)) = Some l \<Longrightarrow>
   finalResponse (snd x) = Some l \<or> Line l \<in> set es"
proof (induction ty pre es x rule: absorb_events.induct)
  case (2 ty pre m es pdu r)
  then show ?case by (cases "verdict ty pre pdu r m") (auto simp: Let_def)
qed auto

lemma answered_fresh:
  assumes "answered ty pre pdu (Some q) (err, p) s s'" and "heap_wf s'"
  shows "\<exists>r. p = Ptr (brk s) \<and> brk s < brk s' \<and> heap s' = (heap s)(brk s \<mapsto> r) \<and>
    resp_ok ty pre r \<and> (err = 0 \<longrightarrow> final_from s r)"
proof -
  obtain used rest where "rx s @ concat (take 1 (env s)) = used @ rest"
    and u: "p = Ptr (brk s)" "heap s' = (heap s)(brk s \<mapsto> response_of ty pre pdu used)"
    "err = 0 \<and> finalResponse (response_of ty pre pdu used) \<noteq> None \<or> err = AT_ERROR_CHANNEL_CLOSED"
    using assms(1) by (auto simp: answered_def Let_def)
  then have "set used \<subseteq> set (rx s @ concat (take 1 (env s)))"
    by simp
  then have "set used \<subseteq> pending_events s"
    by (cases "env s") (auto simp: pending_events_def)
  moreover have "Line l \<in> set used" if "finalResponse (response_of ty pre pdu used) = Some l" for l
    using that absorb_final_from [of ty pre used "(pdu, new_response)" l]
    by (simp add: response_of_def Let_def)
  moreover have "\<not> brk s' \<le> brk s"
    using u assms(2) by (auto simp: heap_wf_def)
  ultimately show ?thesis
    using u response_of_ok [of ty pre pdu used] by (auto simp: at_errors final_from_def)
qed

text \<open>The channel is such a sender, for every type of command.\<close>

context channel_client
begin

lemma send_command_rx:
  assumes "idle s" and d: "at_send_command_full cb c ty pre pdu timeout pp s = Done r s'"
  shows "rx s = [] \<longrightarrow> rx s' = []"
proof (cases "self_reader s")
  case True
  then show ?thesis
    using d by (auto simp: at_send_command_full_def outcome_simps)
next
  case False
  obtain err p where r: "r = (err, p)"
    by (cases r)
  obtain t u where t: "at_send_command_full_nolock cb c ty pre pdu timeout pp s = Done r t"
    and u: "drain cb t = Done () u"
    and s': "(case onTimeout cb of None \<Rightarrow> ret ()
              | Some h \<Rightarrow> if err = AT_ERROR_TIMEOUT then h else ret ()) u = Done () s'"
    using d False r by (auto simp: at_send_command_full_def outcome_simps split: outcome.splits)
  have "idle t"
    using nolock_command_spec [OF assms(1), of c ty pre pdu timeout pp "fst r" "snd r" t] t
    by (simp add: command_spec_def)
  then have "same_cmd (t\<lparr>rx := []\<rparr>) u"
    using u by (rule drain_idle)
  then have u': "rx u = []" "sp_response u = Null"
    using \<open>idle t\<close> by (simp_all add: same_cmd_def idle_def)
  then have "same_cmd u s'"
    using s' by (auto simp: outcome_simps split: option.splits if_splits dest: timeout_frame)
  then show ?thesis
    using u' by (simp add: same_cmd_def)
qed

lemma full_returns:
  assumes "idle s" and "events_ok s" and "prefix_ok ty pre" and "responsive (Suc n) s"
  shows "\<exists>r t. at_send_command_full cb c ty pre pdu timeout pp s = Done r t"
proof (rule send_command_returns [OF assms(1) _ assms(3) closed_set])
  show "\<forall>e \<in> pending_events s. event_ok e"
    using assms(2) by (simp add: events_ok_def)
  show "answering (rx s @ concat (take 1 (env s)))"
    using assms(4) by (cases "env s") (auto simp: responsive_def)
qed

lemma full_sender:
  assumes "prefix_ok ty pre"
  shows "sender (\<lambda>q. at_send_command_full cb c ty pre pdu timeout (Some q)) (resp_ok ty pre) keep"
proof
  fix s s' :: "'z chan_scheme" and q p err
  assume i: "idle s" and d: "at_send_command_full cb c ty pre pdu timeout (Some q) s = Done (err, p) s'"
  have spec: "command_spec ty pre pdu (timeout \<noteq> 0) (Some q) (err, p) s s'"
    using i d by (rule send_command_spec)
  then show "frame_ok s s'"
    using send_command_rx [OF i d] by (simp add: command_spec_def frame_ok_def)
  have wf: "heap_wf s'"
    using spec by (simp add: command_spec_def idle_def)
  assume e: "err \<noteq> 0"
  have "err < 0"
    using spec e by (auto simp: at_errors answered_def command_spec_def Let_def split: if_splits)
  moreover have "p = q \<and> heap s' = heap s \<or> answered ty pre pdu (Some q) (err, p) s s'"
    using spec by (auto simp: command_spec_def out_unchanged_def)
  ultimately show "err < 0 \<and> ((p = q \<or> p = Null) \<and> heap s' = heap s \<or> (\<exists>a. p = Ptr a) \<and> owns_only p s s')"
    using answered_fresh [OF _ wf] by (fastforce simp: owns_only_def)
next
  show "keeps keep (at_send_command_full cb c ty pre pdu timeout (Some q))" for q
    by (rule keeps_full)
next
  show "\<exists>r t. at_send_command_full cb c ty pre pdu timeout (Some q) s = Done r t"
    if "idle s" and "events_ok s" and "responsive (Suc n) s" for q n and s :: "'z chan_scheme"
    using that by (intro full_returns [OF _ _ assms])
next
  show "at_send_command_full cb c ty pre pdu timeout (Some q) s \<noteq> Fault f t"
    if "idle s" and "events_ok s" for q f and s t :: "'z chan_scheme"
    using that send_command_no_fault [OF that(1) _ assms] by (simp add: events_ok_def)
next
  fix s s' :: "'z chan_scheme" and q p
  assume i: "idle s" and d: "at_send_command_full cb c ty pre pdu timeout (Some q) s = Done (0, p) s'"
  have spec: "command_spec ty pre pdu (timeout \<noteq> 0) (Some q) (0, p) s s'"
    using i d by (rule send_command_spec)
  then have "answered ty pre pdu (Some q) (0, p) s s'" and "heap_wf s'"
    by (auto simp: command_spec_def idle_def at_errors split: if_splits)
  then show "\<exists>a r. p = Ptr a \<and> brk s \<le> a \<and> a < brk s' \<and> heap s' = (heap s)(a \<mapsto> r) \<and>
        final_from s r \<and> resp_ok ty pre r"
    using answered_fresh by blast
qed

end

lemma require_apply:
  "err \<noteq> 0 \<Longrightarrow> require_intermediate pp (err, p) t = Done (err, p) t"
  "heap t a = Some r \<Longrightarrow> require_intermediate (Some q) (0, Ptr a) t =
     (if success r > 0 \<and> p_intermediates r = []
      then Done (AT_ERROR_INVALID_RESPONSE, Null) (t\<lparr>heap := (heap t)(a := None)\<rparr>)
      else Done (0, Ptr a) t)"
  by (simp_all add: require_intermediate_def deref_def at_response_free_def outcome_simps)

text \<open>Requiring an intermediate response strengthens what success means.\<close>

context sender
begin

lemma required_result:
  assumes i: "idle s" and d: "bindp (send q) (require_intermediate (Some q)) s = Done (err, p) s'"
  shows "frame_ok s s' \<and>
     (err \<noteq> 0 \<longrightarrow> err < 0 \<and> ((p = q \<or> p = Null) \<and> heap s' = heap s \<or> (\<exists>a. p = Ptr a) \<and> owns_only p s s')) \<and>
     (err = 0 \<longrightarrow> (\<exists>a r. p = Ptr a \<and> brk s \<le> a \<and> a < brk s' \<and> heap s' = (heap s)(a \<mapsto> r) \<and>
        final_from s r \<and> good r \<and> (success r > 0 \<longrightarrow> p_intermediates r \<noteq> [])))"
proof -
  obtain e p1 t where t: "send q s = Done (e, p1) t"
    and r: "require_intermediate (Some q) (e, p1) t = Done (err, p) s'"
    using d by (auto elim!: bindp_DoneE)
  have fr: "frame_ok s t"
    using send_frame [OF i t] .
  have wf: "\<forall>a \<ge> brk s. heap s a = None"
    using i by (simp add: idle_def heap_wf_def)
  show ?thesis
  proof (cases "e = 0")
    case False
    then have "err = e" "p = p1" "s' = t"
      using r by (simp_all add: require_intermediate_def outcome_simps)
    then show ?thesis
      using fr send_error [OF i t False] False by simp
  next
    case True
    then obtain a x where x: "p1 = Ptr a" "brk s \<le> a" "a < brk t" "heap t = (heap s)(a \<mapsto> x)"
      "final_from s x" "good x"
      using send_success [OF i] t by blast
    show ?thesis
    proof (cases "success x > 0 \<and> p_intermediates x = []")
      case True
      then have "err = AT_ERROR_INVALID_RESPONSE" "p = Null" "s' = t\<lparr>heap := (heap s)(a := None)\<rparr>"
        using r x \<open>e = 0\<close>
        by (auto simp: require_intermediate_def deref_def at_response_free_def outcome_simps)
      moreover have "(heap s)(a := None) = heap s"
        using wf x(2) by (simp add: fun_upd_idem)
      ultimately show ?thesis
        using fr x by (auto simp: at_errors frame_ok_def idle_def heap_wf_def)
    next
      case False
      then have "err = 0" "p = p1" "s' = t"
        using r x \<open>e = 0\<close>
        by (auto simp: require_intermediate_def deref_def outcome_simps split: if_splits)
      then show ?thesis
        using fr x False by auto
    qed
  qed
qed

lemma required_no_fault:
  assumes "idle s" and "events_ok s"
  shows "bindp (send q) (require_intermediate (Some q)) s \<noteq> Fault f t"
proof (rule safe_no_fault [where B = True and Q = "\<lambda>_ _. True"], rule safe_bind [OF send_triple [where n = 0]])
  show "ready True (Suc 0) s"
    using assms by (simp add: ready_def)
  fix x t
  assume "ready True 0 t \<and> frame_ok s t \<and> keep s t \<and> handed_out good q (fst x) (snd x) s t"
  then show "safe True (require_intermediate (Some q) x) t (\<lambda>_ _. True)"
    by (cases x) (auto simp: safe_def handed_out_def require_apply split: if_splits)
qed

lemma required_returns:
  assumes "idle s" and "events_ok s" and "responsive (Suc n) s"
  shows "\<exists>r t. bindp (send q) (require_intermediate (Some q)) s = Done r t"
proof -
  obtain e p t where d: "send q s = Done (e, p) t"
    using send_returns [OF assms, of q] by auto
  have "\<exists>r u. require_intermediate (Some q) (e, p) t = Done r u"
  proof (cases "e = 0")
    case True
    then obtain a x where "p = Ptr a" "heap t a = Some x"
      using send_success [OF assms(1)] d by fastforce
    then show ?thesis
      using True by (simp add: require_apply)
  next
    case False
    then show ?thesis by (simp add: require_apply)
  qed
  then show ?thesis
    using d by (simp add: outcome_simps)
qed

lemma required_sender:
  assumes "\<And>q r. keeps keep (require_intermediate (Some q) r)" and "transp keep"
  shows "sender (\<lambda>q. bindp (send q) (require_intermediate (Some q)))
     (\<lambda>r. good r \<and> (success r > 0 \<longrightarrow> p_intermediates r \<noteq> [])) keep"
proof unfold_locales
  show "keeps keep (bindp (send q) (require_intermediate (Some q)))" for q
    using assms(2) send_keep assms(1) by (rule keeps_bind)
  show "idle s \<Longrightarrow> events_ok s \<Longrightarrow> bindp (send q) (require_intermediate (Some q)) s \<noteq> Fault f t"
    for s q f t
    by (rule required_no_fault)
  show "idle s \<Longrightarrow> events_ok s \<Longrightarrow> responsive (Suc n) s \<Longrightarrow>
      \<exists>r t. bindp (send q) (require_intermediate (Some q)) s = Done r t" for s q n
    by (rule required_returns)
qed (use required_result in blast)+

end

text \<open>The five ways to send a command.\<close>

context channel_client
begin

sublocale command: sender "\<lambda>q. at_send_command cb c (Some q)" "resp_ok NO_RESULT None" keep for c
  unfolding at_send_command_def by (rule full_sender) (simp add: prefix_ok_def)

sublocale singleline: sender "\<lambda>q. at_send_command_singleline cb c pre (Some q)"
  "\<lambda>r. resp_ok SINGLELINE (Some pre) r \<and> (success r > 0 \<longrightarrow> p_intermediates r \<noteq> [])" keep for c pre
  unfolding at_send_command_singleline_def
  by (rule sender.required_sender [OF full_sender keeps_require keep_trans]) (simp add: prefix_ok_def)

sublocale numeric: sender "\<lambda>q. at_send_command_numeric cb c (Some q)"
  "\<lambda>r. resp_ok NUMERIC None r \<and> (success r > 0 \<longrightarrow> p_intermediates r \<noteq> [])" keep for c
  unfolding at_send_command_numeric_def
  by (rule sender.required_sender [OF full_sender keeps_require keep_trans]) (simp add: prefix_ok_def)

sublocale sms: sender "\<lambda>q. at_send_command_sms cb c pdu pre (Some q)"
  "\<lambda>r. resp_ok SINGLELINE (Some pre) r \<and> (success r > 0 \<longrightarrow> p_intermediates r \<noteq> [])" keep for c pdu pre
  unfolding at_send_command_sms_def
  by (rule sender.required_sender [OF full_sender keeps_require keep_trans]) (simp add: prefix_ok_def)

sublocale multiline: sender "\<lambda>q. at_send_command_multiline cb c pre (Some q)"
  "resp_ok MULTILINE (Some pre)" keep for c pre
  unfolding at_send_command_multiline_def by (rule full_sender) (simp add: prefix_ok_def)

text \<open>Commands whose response the caller does not want.\<close>

lemma discard_triple:
  assumes rd: "ready B (Suc n) s" and pre: "prefix_ok ty pre"
  shows "safe B (at_send_command_full cb c ty pre pdu timeout None) s
    (\<lambda>r t. ready B n t \<and> frame_ok s t \<and> keep s t \<and> heap t = heap s)"
proof (rule safeI)
  have i: "idle s" "events_ok s"
    using rd by (simp_all add: ready_def)
  show "at_send_command_full cb c ty pre pdu timeout None s \<noteq> Fault f t" for f t
    using send_command_no_fault [OF i(1) _ pre] i(2) by (simp add: events_ok_def)
  show "\<exists>r t. at_send_command_full cb c ty pre pdu timeout None s = Done r t" if "\<not> B"
    using full_returns [OF i pre] rd that by (auto simp: ready_def)
  fix r t
  assume d: "at_send_command_full cb c ty pre pdu timeout None s = Done r t"
  have spec: "command_spec ty pre pdu (timeout \<noteq> 0) None r s t"
    using send_command_spec [OF i(1), of c ty pre pdu timeout None "fst r" "snd r"] d by simp
  then have fr: "frame_ok s t"
    using send_command_rx [OF i(1) d] by (simp add: command_spec_def frame_ok_def)
  moreover have "heap t = heap s"
    using spec by (auto simp: command_spec_def answered_def Let_def)
  moreover have "keep s t"
    using keepsD [OF keeps_full d] .
  ultimately show "ready B n t \<and> frame_ok s t \<and> keep s t \<and> heap t = heap s"
    using ready_frame [OF rd fr] by simp
qed

lemma command_discard:
  "ready B (Suc n) s \<Longrightarrow> safe B (at_send_command cb c None) s
    (\<lambda>r t. ready B n t \<and> frame_ok s t \<and> keep s t \<and> heap t = heap s)"
  unfolding at_send_command_def by (rule discard_triple) (simp_all add: prefix_ok_def)

lemma singleline_discard:
  "ready B (Suc n) s \<Longrightarrow> safe B (at_send_command_singleline cb c pre None) s
    (\<lambda>r t. ready B n t \<and> frame_ok s t \<and> keep s t \<and> heap t = heap s)"
  unfolding at_send_command_singleline_def
  by (rule safe_bind, rule discard_triple)
    (auto simp: prefix_ok_def require_intermediate_def)

end

end
