(* ===== verification/UsimFcp.thy ===== *)
theory UsimFcp
  imports CLib "HOL-Library.Word"
begin

section \<open>usim-fcp.c: from a UICC file control template to a GSM status response\<close>

text \<open>
  A USIM answers \<open>GET RESPONSE\<close> with a BER-TLV template (TS 102 221); the framework expects
  the fixed layout of TS 51.011.  \<open>convertUSimFcp\<close> turns the hex text of the first into the
  hex text of the second.  Bytes are \<open>8 word\<close> and the offset into the block is an
  \<open>8 word\<close> too, as in the code, so that it wraps.

  Two things the C leaves open are parameters: \<open>schar\<close> says whether plain \<open>char\<close> is signed,
  which decides how \<open>dataBlock[offset]\<close> compares with tags above \<open>0x7f\<close>; the initial
  content of the automatic variable \<open>efStatus\<close> and of the malloc'ed block are arguments,
  since the code never initialises them.
\<close>

unbundle bit_operations_syntax

subsection \<open>Data\<close>

record SimEfStatusData =
  fileId :: "16 word"
  fileIsValidated :: "8 word"
  fileSize :: "16 word"
  recordLength :: "8 word"
  numberOfRecords :: "8 word"
  efStructure :: int
  fileType :: int

definition SIM_EFSTRUCT_T :: int where "SIM_EFSTRUCT_T = 0"
definition SIM_EFSTRUCT_LF :: int where "SIM_EFSTRUCT_LF = 1"
definition SIM_EFSTRUCT_C :: int where "SIM_EFSTRUCT_C = 3"
definition SIM_FILETYPE_DF :: int where "SIM_FILETYPE_DF = 2"
definition SIM_FILETYPE_EF :: int where "SIM_FILETYPE_EF = 4"

definition combine_two_bytes :: "8 word \<Rightarrow> 8 word \<Rightarrow> 16 word" where
  "combine_two_bytes high low = push_bit 8 (ucast high) OR ucast low"

subsection \<open>Hexadecimal text\<close>

definition vgIntToHexChar :: "8 word \<Rightarrow> char" where
  "vgIntToHexChar i =
     (if i \<le> 9 then char_of (unat i + 48)
      else if 10 \<le> i \<and> i \<le> 15 then char_of (unat i - 10 + 65)
      else char_of (255 :: nat))"

definition vgHexCharToInt :: "char \<Rightarrow> 8 word" where
  "vgHexCharToInt ch =
     (if 48 \<le> code ch \<and> code ch \<le> 57 then of_nat (code ch) - 48
      else if 97 \<le> code ch \<and> code ch \<le> 102 then of_nat (code ch) - 87
      else if 65 \<le> code ch \<and> code ch \<le> 70 then of_nat (code ch) - 55
      else -1)"

fun vgHexDataToString :: "8 word list \<Rightarrow> string" where
  "vgHexDataToString [] = []"
| "vgHexDataToString (d # ds) =
     vgIntToHexChar (drop_bit 4 d AND 0x0f) # vgIntToHexChar (d AND 0x0f) # vgHexDataToString ds"

text \<open>
  The loop \<open>while (j < length)\<close>; a last odd character is paired with the NUL that ends the
  text.
\<close>

fun vgStringToHexData :: "string \<Rightarrow> 8 word list" where
  "vgStringToHexData [] = []"
| "vgStringToHexData [c] = [push_bit 4 (vgHexCharToInt c) OR vgHexCharToInt (CHR 0x00)]"
| "vgStringToHexData (c # d # cs) =
     (push_bit 4 (vgHexCharToInt c) OR vgHexCharToInt d) # vgStringToHexData cs"

subsection \<open>The TLV decoder\<close>

text \<open>\<open>None\<close>: a byte beyond the block is read.\<close>

definition peek :: "8 word list \<Rightarrow> nat \<Rightarrow> 8 word option" where
  "peek data i = (if i < length data then Some (data ! i) else None)"

text \<open>The size of the length field and the length.\<close>

definition UsimDecodeDataLength :: "8 word list \<Rightarrow> nat \<Rightarrow> (8 word \<times> 8 word) option" where
  "UsimDecodeDataLength data i = do {
     d \<leftarrow> peek data i;
     if d \<le> 0x7F then Some (1, d)
     else if d = 0x81 then do {
       d1 \<leftarrow> peek data (i + 1);
       Some (2, if d1 \<ge> 0x80 then d1 else 0)
     }
     else Some (0, 0)
   }"

definition UsimDecEfFileDescriptor ::
  "8 word list \<Rightarrow> 8 word \<times> SimEfStatusData \<Rightarrow> (8 word \<times> SimEfStatusData) option" where
  "UsimDecEfFileDescriptor data x = (case x of (offset, st) \<Rightarrow> do {
     len \<leftarrow> peek data (unat offset + 1);
     b \<leftarrow> peek data (unat offset + 2);
     let st = (if b AND 0x07 = 1 then st\<lparr>efStructure := SIM_EFSTRUCT_T\<rparr>
               else if b AND 0x07 = 2 then st\<lparr>efStructure := SIM_EFSTRUCT_LF\<rparr>
               else if b AND 0x07 = 6 then st\<lparr>efStructure := SIM_EFSTRUCT_C\<rparr>
               else st);
     let ft = drop_bit 3 (b AND 0x38);
     let st = (if ft = 0 \<or> ft = 1 then st\<lparr>fileType := SIM_FILETYPE_EF\<rparr>
               else if ft = 7 then st\<lparr>fileType := SIM_FILETYPE_DF\<rparr>
               else st);
     st \<leftarrow> (if len = 5 then do {
         p4 \<leftarrow> peek data (unat offset + 4);
         p5 \<leftarrow> peek data (unat offset + 5);
         p6 \<leftarrow> peek data (unat offset + 6);
         Some (st\<lparr>recordLength := ucast (combine_two_bytes p4 p5), numberOfRecords := p6\<rparr>)
       }
       else Some (st\<lparr>recordLength := 0, numberOfRecords := 0\<rparr>));
     Some (offset + (2 + len), st)
   })"

definition UsimDecFileSize ::
  "8 word list \<Rightarrow> 8 word \<times> SimEfStatusData \<Rightarrow> (8 word \<times> SimEfStatusData) option" where
  "UsimDecFileSize data x = (case x of (offset, st) \<Rightarrow> do {
     len \<leftarrow> peek data (unat offset + 1);
     size \<leftarrow> (if len = 2 then do {
         p2 \<leftarrow> peek data (unat offset + 2);
         p3 \<leftarrow> peek data (unat offset + 3);
         Some (combine_two_bytes p2 p3)
       } else Some 0);
     Some (offset + (2 + len), st\<lparr>fileSize := size\<rparr>)
   })"

definition UsimDecEfFileId ::
  "8 word list \<Rightarrow> 8 word \<times> SimEfStatusData \<Rightarrow> (8 word \<times> SimEfStatusData) option" where
  "UsimDecEfFileId data x = (case x of (offset, st) \<Rightarrow> do {
     len \<leftarrow> peek data (unat offset + 1);
     i \<leftarrow> (if len = 2 then do {
         p2 \<leftarrow> peek data (unat offset + 2);
         p3 \<leftarrow> peek data (unat offset + 3);
         Some (combine_two_bytes p2 p3)
       } else Some 0);
     Some (offset + (2 + len), st\<lparr>fileId := i\<rparr>)
   })"

text \<open>\<open>case 0x8A\<close>, the life cycle status; \<open>default\<close>, an object to skip.\<close>

definition decode_life_cycle ::
  "8 word list \<Rightarrow> 8 word \<times> SimEfStatusData \<Rightarrow> (8 word \<times> SimEfStatusData) option" where
  "decode_life_cycle data x = (case x of (offset, st) \<Rightarrow> do {
     len \<leftarrow> peek data (unat (offset + 1));
     valid \<leftarrow> (if len = 1 then do {
         b \<leftarrow> peek data (unat (offset + 2));
         Some (b AND 0xFD \<noteq> 0x04)
       } else Some True);
     Some (offset + 2 + len, st\<lparr>fileIsValidated := if valid then 1 else 0\<rparr>)
   })"

definition skip_object ::
  "8 word list \<Rightarrow> 8 word \<times> SimEfStatusData \<Rightarrow> (8 word \<times> SimEfStatusData) option" where
  "skip_object data x = (case x of (offset, st) \<Rightarrow> do {
     (n, len) \<leftarrow> UsimDecodeDataLength data (unat (offset + 1));
     Some (offset + 1 + (n + len), st)
   })"

text \<open>The value of \<open>dataBlock[offset]\<close> in the \<open>switch\<close>.\<close>

definition char_value :: "bool \<Rightarrow> 8 word \<Rightarrow> int" where
  "char_value schar b = (if schar then sint b else uint b)"

definition decode_object ::
  "bool \<Rightarrow> 8 word list \<Rightarrow> 8 word \<times> SimEfStatusData \<Rightarrow> (8 word \<times> SimEfStatusData) option" where
  "decode_object schar data x = do {
     b \<leftarrow> peek data (unat (fst x));
     let tag = char_value schar b;
     if tag = 0x82 then UsimDecEfFileDescriptor data x
     else if tag = 0x83 then UsimDecEfFileId data x
     else if tag = 0x8A then decode_life_cycle data x
     else if tag = 0x80 then UsimDecFileSize data x
     else skip_object data x
   }"

datatype decoding =
    Decoded SimEfStatusData
  | Overread                   \<comment> \<open>a byte beyond the block was read\<close>
  | Running                    \<comment> \<open>still in the loop after the given number of rounds\<close>

fun decode_loop :: "nat \<Rightarrow> bool \<Rightarrow> 8 word list \<Rightarrow> nat \<Rightarrow> 8 word \<times> SimEfStatusData \<Rightarrow> decoding" where
  "decode_loop fuel schar data limit x =
     (if unat (fst x) \<le> limit then
        (case fuel of
           0 \<Rightarrow> Running
         | Suc n \<Rightarrow> (case decode_object schar data x of
             None \<Rightarrow> Overread
           | Some y \<Rightarrow> decode_loop n schar data limit y))
      else Decoded (snd x))"

declare decode_loop.simps [simp del]

definition UsimDecodeEfStatusData ::
  "nat \<Rightarrow> bool \<Rightarrow> 8 word list \<Rightarrow> SimEfStatusData \<Rightarrow> decoding" where
  "UsimDecodeEfStatusData fuel schar data st =
     (case peek data 0 of
        None \<Rightarrow> Overread
      | Some t \<Rightarrow>
          if t \<noteq> 0x62 then Decoded st
          else (case UsimDecodeDataLength data 1 of
              None \<Rightarrow> Overread
            | Some (n, len) \<Rightarrow>
                if n = 0 then Decoded st
                else decode_loop fuel schar data (unat len + unat n) (1 + n, st)))"

subsection \<open>The GSM layout\<close>

definition To2gSimStatus :: "SimEfStatusData \<Rightarrow> 8 word list" where
  "To2gSimStatus st =
     [0, 0, ucast (drop_bit 8 (fileSize st)), ucast (fileSize st AND 0xff),
      ucast (drop_bit 8 (fileId st)), ucast (fileId st AND 0xff),
      word_of_int (fileType st), 0, 0, 0, 0, 0, 2, word_of_int (efStructure st),
      if efStructure st = SIM_EFSTRUCT_LF \<or> efStructure st = SIM_EFSTRUCT_C
      then recordLength st else 0]"

text \<open>
  \<open>len\<close> is passed on as a \<open>UINT16\<close>; what the conversion does not fill of the
  \<open>len / 2 + 1\<close> bytes is \<open>junk\<close>.
\<close>

definition fcp_block :: "string \<Rightarrow> 8 word list \<Rightarrow> 8 word list" where
  "fcp_block fcp junk =
     (let data = vgStringToHexData (take (length fcp mod 65536) fcp)
      in take (length fcp div 2 + 1) (data @ junk))"

datatype fcp_result = Fcp_text string | Fcp_overread | Fcp_running

definition convertUSimFcp ::
  "nat \<Rightarrow> bool \<Rightarrow> 8 word list \<Rightarrow> SimEfStatusData \<Rightarrow> string \<Rightarrow> fcp_result" where
  "convertUSimFcp fuel schar junk init fcp =
     (case UsimDecodeEfStatusData fuel schar (fcp_block fcp junk) init of
        Decoded st \<Rightarrow> Fcp_text (vgHexDataToString (To2gSimStatus st))
      | Overread \<Rightarrow> Fcp_overread
      | Running \<Rightarrow> Fcp_running)"


subsection \<open>Hex text round trip\<close>

lemma low_nibble: "(d :: 8 word) AND 0x0f = of_nat (unat d mod 16)"
proof -
  have "(0x0f :: 8 word) = mask 4"
    by (simp add: mask_eq_exp_minus_1)
  then have "d AND 0x0f = take_bit 4 d"
    by (simp add: take_bit_eq_mask)
  also have "\<dots> = of_nat (unat d mod 16)"
    by (simp add: take_bit_eq_mod word_arith_nat_mod)
  finally show ?thesis .
qed

lemma all_nibbles:
  assumes "\<forall>i \<in> set [0, 1, 2, 3, 4, 5, 6, 7, 8, 9, 10, 11, 12, 13, 14, 15 :: 8 word]. P i"
  shows "P (d AND 0x0f)"
proof -
  have "n < 16 \<Longrightarrow> n \<in> {0, 1, 2, 3, 4, 5, 6, 7, 8, 9, 10, 11, 12, 13, 14, 15}" for n :: nat
    unfolding insert_iff empty_iff by arith
  then have "unat d mod 16 \<in> {0, 1, 2, 3, 4, 5, 6, 7, 8, 9, 10, 11, 12, 13, 14, 15}"
    by simp
  then show ?thesis
    using assms unfolding low_nibble by (auto simp del: unsigned_of_nat)
qed

lemma hex_digit: "vgHexCharToInt (vgIntToHexChar (d AND 0x0f)) = d AND 0x0f"
  by (rule all_nibbles) (simp add: vgIntToHexChar_def vgHexCharToInt_def code_def)

definition upper_hex :: "char \<Rightarrow> bool" where
  "upper_hex c \<longleftrightarrow> isdigit c \<or> 65 \<le> code c \<and> code c \<le> 70"

lemma hex_digit_char: "upper_hex (vgIntToHexChar (d AND 0x0f))"
  by (rule all_nibbles) (simp add: vgIntToHexChar_def upper_hex_def isdigit_def code_def)

lemma nibbles: "push_bit 4 (drop_bit 4 d AND 0x0f) OR (d AND 0x0f) = (d :: 8 word)"
proof (rule bit_word_eqI)
  fix n assume "n < LENGTH(8)"
  have m: "(0x0f :: 8 word) = mask 4"
    by (simp add: mask_eq_exp_minus_1)
  show "bit (push_bit 4 (drop_bit 4 d AND 0x0f) OR (d AND 0x0f)) n = bit d n"
    unfolding m using \<open>n < LENGTH(8)\<close>
    by (auto simp: bit_simps)
qed

lemma hex_round_trip: "vgStringToHexData (vgHexDataToString ds) = ds"
proof (induction ds)
  case Nil
  then show ?case by simp
next
  case (Cons d ds)
  show ?case
    unfolding vgHexDataToString.simps vgStringToHexData.simps hex_digit nibbles Cons.IH by (rule refl)
qed

lemma hex_length: "length (vgHexDataToString ds) = 2 * length ds"
  by (induction ds) simp_all

lemma hex_digits: "list_all upper_hex (vgHexDataToString ds)"
  by (induction ds) (simp_all only: vgHexDataToString.simps list.pred_inject hex_digit_char simp_thms)

subsection \<open>Well-formed templates\<close>

text \<open>
  The specification of the decoder: a template is a list of objects, and each object updates
  the status on its own.  Objects and the template carry one-byte lengths.
\<close>

definition structure_of :: "8 word \<Rightarrow> int \<Rightarrow> int" where
  "structure_of b old =
     (if b AND 0x07 = 1 then SIM_EFSTRUCT_T else if b AND 0x07 = 2 then SIM_EFSTRUCT_LF
      else if b AND 0x07 = 6 then SIM_EFSTRUCT_C else old)"

definition type_of_file :: "8 word \<Rightarrow> int \<Rightarrow> int" where
  "type_of_file b old =
     (let ft = drop_bit 3 (b AND 0x38)
      in if ft = 0 \<or> ft = 1 then SIM_FILETYPE_EF else if ft = 7 then SIM_FILETYPE_DF else old)"

fun apply_object :: "8 word \<times> 8 word list \<Rightarrow> SimEfStatusData \<Rightarrow> SimEfStatusData" where
  "apply_object (tag, v) e = e\<lparr>
     fileId := if tag = 0x83 then (if length v = 2 then combine_two_bytes (v ! 0) (v ! 1) else 0)
       else fileId e,
     fileIsValidated := if tag = 0x8A then (if length v = 1 \<and> v ! 0 AND 0xFD = 0x04 then 0 else 1)
       else fileIsValidated e,
     fileSize := if tag = 0x80 then (if length v = 2 then combine_two_bytes (v ! 0) (v ! 1) else 0)
       else fileSize e,
     recordLength := if tag = 0x82 then (if length v = 5 then v ! 3 else 0) else recordLength e,
     numberOfRecords := if tag = 0x82 then (if length v = 5 then v ! 4 else 0) else numberOfRecords e,
     efStructure := if tag = 0x82 then structure_of (v ! 0) (efStructure e) else efStructure e,
     fileType := if tag = 0x82 then type_of_file (v ! 0) (fileType e) else fileType e\<rparr>"

definition object_ok :: "8 word \<times> 8 word list \<Rightarrow> bool" where
  "object_ok x \<longleftrightarrow> length (snd x) \<le> 127 \<and> (fst x = 0x82 \<longrightarrow> snd x \<noteq> [])"

fun encode_object :: "8 word \<times> 8 word list \<Rightarrow> 8 word list" where
  "encode_object (tag, v) = tag # of_nat (length v) # v"

definition encode_fcp :: "(8 word \<times> 8 word list) list \<Rightarrow> 8 word list" where
  "encode_fcp os = (let body = concat (map encode_object os) in 0x62 # of_nat (length body) # body)"

lemma low_byte: "ucast (combine_two_bytes a b) = b"
proof (rule bit_word_eqI)
  fix n assume "n < LENGTH(8)"
  then show "bit (ucast (combine_two_bytes a b) :: 8 word) n = bit b n"
    by (simp add: combine_two_bytes_def bit_simps)
qed

lemma byte_eq:
  "n < 256 \<Longrightarrow> (of_nat n :: 8 word) = numeral k \<longleftrightarrow> n = numeral k mod 256"
  "n < 256 \<Longrightarrow> (of_nat n :: 8 word) = 1 \<longleftrightarrow> n = 1"
  "n < 256 \<Longrightarrow> (of_nat n :: 8 word) = 0 \<longleftrightarrow> n = 0"
  by (simp_all add: word_unat_eq_iff unsigned_of_nat take_bit_eq_mod unsigned_numeral)

lemma unat_byte: "n < 256 \<Longrightarrow> unat (of_nat n :: 8 word) = n"
  by (simp add: unsigned_of_nat take_bit_eq_mod)

lemma unat_byte_less: "unat (x :: 8 word) < 256"
  using unsigned_less [of x] by simp

lemma unat_byte_add: "unat (x :: 8 word) + n < 256 \<Longrightarrow> unat (x + of_nat n) = unat x + n"
  by (simp add: unat_word_ariths unat_byte)

lemma decode_object_unsigned:
  "peek data (unat x) = Some tag \<Longrightarrow> decode_object False data (x, e) =
     (if tag = 0x82 then UsimDecEfFileDescriptor data (x, e)
      else if tag = 0x83 then UsimDecEfFileId data (x, e)
      else if tag = 0x8A then decode_life_cycle data (x, e)
      else if tag = 0x80 then UsimDecFileSize data (x, e)
      else skip_object data (x, e))"
  by (simp add: decode_object_def char_value_def word_uint_eq_iff uint_numeral take_bit_eq_mod Let_def)

lemma peek_object:
  assumes "data = pre @ encode_object (tag, v) @ post"
  shows "peek data (length pre) = Some tag"
    and "peek data (length pre + 1) = Some (of_nat (length v))"
    and "i < length v \<Longrightarrow> peek data (length pre + (2 + i)) = Some (v ! i)"
  using assms by (auto simp: peek_def nth_append)

lemma decode_one:
  assumes ok: "object_ok (tag, v)" and data: "data = pre @ encode_object (tag, v) @ post"
    and x: "unat x = length pre" and small: "length pre + 2 + length v < 256"
  shows "decode_object False data (x, e) = Some (x + (2 + of_nat (length v)), apply_object (tag, v) e)"
proof -
  note pk = peek_object [OF data, folded x]
  have pk2: "peek data (Suc (unat x)) = Some (of_nat (length v))"
    using pk(2) by simp
  have i0: "peek data (unat x + 2) = Some (v ! 0)" if "v \<noteq> []"
    using pk(3) [of 0] that by simp
  have i1: "peek data (unat x + 3) = Some (v ! 1)" if "length v = 2"
    using pk(3) [of 1] that by simp
  have i5: "peek data (unat x + 4) = Some (v ! 2)" "peek data (unat x + 5) = Some (v ! 3)"
    "peek data (unat x + 6) = Some (v ! 4)" if "length v = 5"
    using pk(3) [of 2] pk(3) [of 3] pk(3) [of 4] that by simp_all
  have len: "length v \<le> 127" "length v < 256"
    using ok small by (auto simp: object_ok_def)
  have un: "unat (x + 1) = unat x + 1" "unat (x + 2) = unat x + 2"
    using unat_byte_add [of x 1] unat_byte_add [of x 2] small x by simp_all
  have ne: "v \<noteq> []" if "length v = 2 \<or> length v = 1 \<or> length v = 5"
    using that by auto
  consider (fd) "tag = 0x82" | (fid) "tag = 0x83" | (lc) "tag = 0x8A" | (size) "tag = 0x80"
    | (other) "tag \<noteq> 0x82" "tag \<noteq> 0x83" "tag \<noteq> 0x8A" "tag \<noteq> 0x80"
    by blast
  then show ?thesis
  proof cases
    case fd
    then have "v \<noteq> []"
      using ok by (simp add: object_ok_def)
    then show ?thesis
      unfolding decode_object_unsigned [OF pk(1)] using fd i0 i5 len
      by (simp add: pk2 UsimDecEfFileDescriptor_def byte_eq Let_def low_byte structure_of_def
          type_of_file_def del: add_2_eq_Suc')
  next
    case fid
    then show ?thesis
      unfolding decode_object_unsigned [OF pk(1)] using i0 i1 len ne
      by (simp add: pk2 UsimDecEfFileId_def byte_eq del: add_2_eq_Suc')
  next
    case lc
    then show ?thesis
      unfolding decode_object_unsigned [OF pk(1)] using i0 len ne
      by (simp add: pk2 un decode_life_cycle_def byte_eq add.assoc del: add_2_eq_Suc')
  next
    case size
    then show ?thesis
      unfolding decode_object_unsigned [OF pk(1)] using i0 i1 len ne
      by (simp add: pk2 UsimDecFileSize_def byte_eq del: add_2_eq_Suc')
  next
    case other
    have "(of_nat (length v) :: 8 word) \<le> 0x7F"
      using len by (simp add: word_le_nat_alt unat_byte)
    then show ?thesis
      unfolding decode_object_unsigned [OF pk(1)] using other
      by (simp add: pk2 un skip_object_def UsimDecodeDataLength_def add.assoc)
  qed
qed

lemma apply_next:
  fixes x :: "8 word"
  assumes "object_ok (tag, v)" and "unat x = length pre" and "length pre + 2 + length v < 256"
  shows "unat (x + (2 + of_nat (length v))) = length (pre @ encode_object (tag, v))"
  using unat_byte_add [of x "2 + length v"] assms by simp

lemma decode_loop_objects:
  "list_all object_ok os \<Longrightarrow> data = pre @ concat (map encode_object os) @ post \<Longrightarrow>
   unat x = length pre \<Longrightarrow> Suc limit = length pre + length (concat (map encode_object os)) \<Longrightarrow>
   limit < 255 \<Longrightarrow> length os \<le> fuel \<Longrightarrow>
   decode_loop fuel False data limit (x, e) = Decoded (fold apply_object os e)"
proof (induction os arbitrary: pre x e fuel)
  case Nil
  then show ?case by (simp add: decode_loop.simps)
next
  case (Cons ob os)
  obtain tag v where ob: "ob = (tag, v)" by (cases ob)
  obtain n where fuel: "fuel = Suc n" using Cons.prems by (cases fuel) simp_all
  let ?rest = "concat (map encode_object os)"
  have fits: "length pre + 2 + length v + length ?rest = Suc limit"
    using Cons.prems(4) ob by simp
  have one: "decode_object False data (x, e) = Some (x + (2 + of_nat (length v)), apply_object (tag, v) e)"
    using Cons.prems fits ob by (intro decode_one [where pre = pre and post = "?rest @ post"]) simp_all
  have "decode_loop n False data limit (x + (2 + of_nat (length v)), apply_object (tag, v) e) =
      Decoded (fold apply_object os (apply_object (tag, v) e))"
  proof (rule Cons.IH [where pre = "pre @ encode_object (tag, v)"])
    show "unat (x + (2 + of_nat (length v))) = length (pre @ encode_object (tag, v))"
      using Cons.prems fits ob by (intro apply_next) simp_all
  qed (use Cons.prems fits ob fuel in simp_all)
  moreover have "unat x \<le> limit"
    using Cons.prems(3) fits by simp
  ultimately show ?case
    by (subst decode_loop.simps) (simp add: fuel one ob)
qed

lemma decode_fcp:
  assumes "list_all object_ok os" and "length (concat (map encode_object os)) \<le> 127"
    and "length os \<le> fuel"
  shows "UsimDecodeEfStatusData fuel False (encode_fcp os @ post) e = Decoded (fold apply_object os e)"
proof -
  let ?body = "concat (map encode_object os)"
  let ?n = "length ?body"
  have "(of_nat ?n :: 8 word) \<le> 0x7F"
    using assms(2) by (simp add: word_le_nat_alt unat_byte)
  moreover have "unat (of_nat ?n :: 8 word) = ?n"
    using assms(2) by (intro unat_byte) simp
  moreover have "decode_loop fuel False (encode_fcp os @ post) (?n + 1) (2, e) =
      Decoded (fold apply_object os e)"
    using assms by (intro decode_loop_objects [where pre = "[0x62, of_nat ?n]" and post = post])
      (simp_all add: encode_fcp_def Let_def)
  ultimately show ?thesis
    by (simp add: UsimDecodeEfStatusData_def UsimDecodeDataLength_def encode_fcp_def Let_def peek_def)
qed

text \<open>The whole conversion.\<close>

lemma convert_fcp:
  assumes "list_all object_ok os" and "length (concat (map encode_object os)) \<le> 127"
    and "length os \<le> fuel"
  shows "convertUSimFcp fuel False junk init (vgHexDataToString (encode_fcp os)) =
    Fcp_text (vgHexDataToString (To2gSimStatus (fold apply_object os init)))"
proof -
  have "length (encode_fcp os) \<le> 129"
    using assms(2) by (simp add: encode_fcp_def Let_def)
  then have "fcp_block (vgHexDataToString (encode_fcp os)) junk = encode_fcp os @ take 1 junk"
    by (simp add: fcp_block_def Let_def hex_length hex_round_trip)
  then show ?thesis
    using decode_fcp [OF assms, of "take 1 junk" init] by (simp add: convertUSimFcp_def)
qed

text \<open>A template with all three mandatory objects leaves nothing to chance.\<close>

definition complete :: "(8 word \<times> 8 word list) list \<Rightarrow> bool" where
  "complete os \<longleftrightarrow> 0x80 \<in> fst ` set os \<and> 0x83 \<in> fst ` set os \<and>
     (\<exists>v. (0x82, v) \<in> set os \<and> v ! 0 AND 0x07 \<in> {1, 2, 6} \<and> drop_bit 3 (v ! 0 AND 0x38) \<in> {0, 1, 7})"

lemma fold_field:
  assumes "x \<in> set os" and "\<And>e e'. f (apply_object x e) = f (apply_object x e')"
    and keep: "\<And>y e e'. f e = f e' \<Longrightarrow> f (apply_object y e) = f (apply_object y e')"
  shows "f (fold apply_object os e) = f (fold apply_object os e')"
proof -
  have agree: "f e = f e' \<Longrightarrow> f (fold apply_object ys e) = f (fold apply_object ys e')" for ys e e'
  proof (induction ys arbitrary: e e')
    case Nil
    then show ?case by simp
  next
    case (Cons y ys)
    show ?case
      unfolding fold_Cons comp_apply by (rule Cons.IH) (rule keep [OF Cons.prems])
  qed
  obtain as bs where os: "os = as @ x # bs"
    using assms(1) by (metis split_list)
  have "f (fold apply_object bs (apply_object x a)) = f (fold apply_object bs (apply_object x b))" for a b
    by (rule agree) (rule assms(2))
  then show ?thesis by (simp add: os)
qed

lemma apply_fields:
  "fileSize (apply_object (tag, v) e) = (if tag = 0x80 then
     (if length v = 2 then combine_two_bytes (v ! 0) (v ! 1) else 0) else fileSize e)"
  "fileId (apply_object (tag, v) e) = (if tag = 0x83 then
     (if length v = 2 then combine_two_bytes (v ! 0) (v ! 1) else 0) else fileId e)"
  "fileType (apply_object (tag, v) e) = (if tag = 0x82 then type_of_file (v ! 0) (fileType e) else fileType e)"
  "efStructure (apply_object (tag, v) e) =
     (if tag = 0x82 then structure_of (v ! 0) (efStructure e) else efStructure e)"
  "recordLength (apply_object (tag, v) e) =
     (if tag = 0x82 then (if length v = 5 then v ! 3 else 0) else recordLength e)"
  by (simp_all split del: if_split)

declare apply_object.simps [simp del]

lemma complete_independent:
  assumes "complete os"
  shows "To2gSimStatus (fold apply_object os e) = To2gSimStatus (fold apply_object os e')"
proof -
  obtain s where s: "(0x80, s) \<in> set os" using assms by (auto simp: complete_def)
  obtain i where i: "(0x83, i) \<in> set os" using assms by (auto simp: complete_def)
  obtain d where d: "(0x82, d) \<in> set os" and b: "d ! 0 AND 0x07 \<in> {1, 2, 6}"
      and t: "drop_bit 3 (d ! 0 AND 0x38) \<in> {0, 1, 7}"
    using assms by (auto simp: complete_def)
  have b': "structure_of (d ! 0) x = structure_of (d ! 0) y" for x y
    using b unfolding structure_of_def by auto
  have t': "type_of_file (d ! 0) x = type_of_file (d ! 0) y" for x y
    using t unfolding type_of_file_def Let_def by auto
  have "fileSize (fold apply_object os e) = fileSize (fold apply_object os e')"
    by (rule fold_field [OF s]) (auto simp: apply_fields split: if_splits)
  moreover have "fileId (fold apply_object os e) = fileId (fold apply_object os e')"
    by (rule fold_field [OF i]) (auto simp: apply_fields split: if_splits)
  moreover have "fileType (fold apply_object os e) = fileType (fold apply_object os e')"
    by (rule fold_field [OF d]) (auto simp: apply_fields t' split: if_splits)
  moreover have "efStructure (fold apply_object os e) = efStructure (fold apply_object os e')"
    by (rule fold_field [OF d]) (auto simp: apply_fields b' split: if_splits)
  moreover have "recordLength (fold apply_object os e) = recordLength (fold apply_object os e')"
    by (rule fold_field [OF d]) (auto simp: apply_fields split: if_splits)
  ultimately show ?thesis by (simp add: To2gSimStatus_def)
qed

subsection \<open>The layout of the answer, byte by byte\<close>

lemma high_byte: "ucast (drop_bit 8 (combine_two_bytes a b)) = a"
proof (rule bit_word_eqI)
  fix n assume "n < LENGTH(8)"
  then show "bit (ucast (drop_bit 8 (combine_two_bytes a b)) :: 8 word) n = bit a n"
    by (auto simp: combine_two_bytes_def bit_simps dest: bit_imp_le_length)
qed

lemma low_byte_mask: "ucast (combine_two_bytes a b AND 0xff) = b"
proof -
  have m: "(0xff :: 16 word) = mask 8" by (simp add: mask_eq_exp_minus_1)
  show ?thesis
  proof (rule bit_word_eqI)
    fix n assume "n < LENGTH(8)"
    then show "bit (ucast (combine_two_bytes a b AND 0xff) :: 8 word) n = bit b n"
      unfolding m by (simp add: combine_two_bytes_def bit_simps)
  qed
qed

text \<open>A field is set by the last object with its tag.\<close>

lemma fold_last:
  assumes "map_of (rev os) tag = Some v"
    and "\<And>t w e. f (apply_object (t, w) e) = (if t = tag then g w (f e) else f e)"
    and "\<And>x. g v x = r"
  shows "f (fold apply_object os e) = r"
  using assms(1)
proof (induction os rule: rev_induct)
  case (snoc x os)
  obtain t w where "x = (t, w)" by (cases x)
  then show ?case using snoc assms(2,3) by (auto split: if_splits)
qed simp

lemma three_bits: "unat (b AND 0x07) = unat (b :: 8 word) mod 8"
proof -
  have "(0x07 :: 8 word) = mask 3" by (simp add: mask_eq_exp_minus_1)
  then have "b AND 0x07 = take_bit 3 b" by (simp add: take_bit_eq_mask)
  then show ?thesis by (simp add: take_bit_eq_mod unat_mod)
qed

lemma next_bits: "unat (drop_bit 3 (b AND 0x38)) = unat (b :: 8 word) div 8 mod 8"
proof -
  have "drop_bit 3 (b AND 0x38) = take_bit 3 (drop_bit 3 b)"
    by (simp add: drop_bit_and take_bit_eq_mask mask_eq_exp_minus_1)
  then show ?thesis
    by (simp add: take_bit_eq_mod drop_bit_eq_div unat_mod unat_div)
qed

lemma structure_byte:
  "unat b mod 8 = 1 \<Longrightarrow> structure_of b old = 0" "unat b mod 8 = 2 \<Longrightarrow> structure_of b old = 1"
  "unat b mod 8 = 6 \<Longrightarrow> structure_of b old = 3"
  using three_bits [of b]
  by (auto simp: structure_of_def word_unat_eq_iff SIM_EFSTRUCT_T_def SIM_EFSTRUCT_LF_def SIM_EFSTRUCT_C_def)

lemma type_byte:
  "unat b div 8 mod 8 \<le> 1 \<Longrightarrow> type_of_file b old = 4" "unat b div 8 mod 8 = 7 \<Longrightarrow> type_of_file b old = 2"
  using next_bits [of b]
  by (auto simp: type_of_file_def Let_def word_unat_eq_iff SIM_FILETYPE_EF_def SIM_FILETYPE_DF_def)

text \<open>The bytes of TS 51.011 for a descriptor: type, structure and record length of the file.\<close>

definition gsm_type :: "8 word \<Rightarrow> 8 word" where
  "gsm_type b = (if unat b div 8 mod 8 = 7 then 2 else 4)"

definition gsm_structure :: "8 word \<Rightarrow> 8 word" where
  "gsm_structure b = (if unat b mod 8 = 1 then 0 else if unat b mod 8 = 2 then 1 else 3)"

definition gsm_record :: "8 word list \<Rightarrow> 8 word" where
  "gsm_record v = (if unat (v ! 0) mod 8 \<noteq> 1 \<and> length v = 5 then v ! 3 else 0)"

definition known_descriptor :: "8 word list \<Rightarrow> bool" where
  "known_descriptor v \<longleftrightarrow> v \<noteq> [] \<and> unat (v ! 0) mod 8 \<in> {1, 2, 6} \<and> unat (v ! 0) div 8 mod 8 \<in> {0, 1, 7}"

lemma status_bytes:
  assumes "map_of (rev os) 0x80 = Some [s1, s2]" and "map_of (rev os) 0x83 = Some [i1, i2]"
    and "map_of (rev os) 0x82 = Some v" and "known_descriptor v"
  shows "To2gSimStatus (fold apply_object os e) =
    [0, 0, s1, s2, i1, i2, gsm_type (v ! 0), 0, 0, 0, 0, 0, 2, gsm_structure (v ! 0), gsm_record v]"
proof -
  have size: "fileSize (fold apply_object os e) = combine_two_bytes s1 s2"
    by (rule fold_last [OF assms(1), where g = "\<lambda>v x. if length v = 2 then combine_two_bytes (v ! 0) (v ! 1) else 0"])
      (simp_all add: apply_fields)
  have id: "fileId (fold apply_object os e) = combine_two_bytes i1 i2"
    by (rule fold_last [OF assms(2), where g = "\<lambda>v x. if length v = 2 then combine_two_bytes (v ! 0) (v ! 1) else 0"])
      (simp_all add: apply_fields)
  have rl: "recordLength (fold apply_object os e) = (if length v = 5 then v ! 3 else 0)"
    by (rule fold_last [OF assms(3), where g = "\<lambda>v x. if length v = 5 then v ! 3 else 0"])
      (simp_all add: apply_fields)
  have st: "efStructure (fold apply_object os e) = (if unat (v ! 0) mod 8 = 1 then 0 else if unat (v ! 0) mod 8 = 2 then 1 else 3)"
    by (rule fold_last [OF assms(3), where g = "\<lambda>v. structure_of (v ! 0)"])
      (use assms(4) in \<open>auto simp: apply_fields structure_byte known_descriptor_def\<close>)
  have ty: "fileType (fold apply_object os e) = (if unat (v ! 0) div 8 mod 8 = 7 then 2 else 4)"
    by (rule fold_last [OF assms(3), where g = "\<lambda>v. type_of_file (v ! 0)"])
      (use assms(4) in \<open>auto simp: apply_fields type_byte known_descriptor_def\<close>)
  show ?thesis
    using assms(4)
    by (auto simp: To2gSimStatus_def size id rl st ty high_byte low_byte_mask gsm_type_def gsm_structure_def
        gsm_record_def SIM_EFSTRUCT_LF_def SIM_EFSTRUCT_C_def known_descriptor_def)
qed

subsection \<open>Malformed templates and signed characters\<close>

text \<open>A template that claims 253 bytes or more is never finished: the offset wraps below the limit.\<close>

lemma decode_loop_never:
  "255 \<le> limit \<Longrightarrow> decode_loop fuel schar data limit x \<noteq> Decoded e"
proof (induction fuel arbitrary: x)
  case 0
  have "unat (fst x) \<le> limit"
    using 0 unat_byte_less [of "fst x"] by simp
  then show ?case by (simp add: decode_loop.simps)
next
  case (Suc n)
  have "unat (fst x) \<le> limit"
    using Suc.prems unat_byte_less [of "fst x"] by simp
  then show ?case
    using Suc by (subst decode_loop.simps) (simp split: option.split)
qed

text \<open>Where plain \<open>char\<close> is signed, no tag above \<open>0x7f\<close> is recognised.\<close>

lemma skip_object_status: "skip_object data x = Some y \<Longrightarrow> snd y = snd x"
  by (auto simp: skip_object_def split: bind_splits prod.splits)

lemma decode_object_signed: "decode_object True data x = Some y \<Longrightarrow> snd y = snd x"
proof -
  have "char_value True b < 128" for b
    using sint_lt [of b] by (simp add: char_value_def)
  then have "char_value True b \<noteq> 0x82" "char_value True b \<noteq> 0x83" "char_value True b \<noteq> 0x8A"
    "char_value True b \<noteq> 0x80" for b
    by (smt (verit))+
  then show "decode_object True data x = Some y \<Longrightarrow> snd y = snd x"
    by (auto simp: decode_object_def skip_object_status split: bind_splits)
qed

lemma decode_loop_signed: "decode_loop fuel True data limit x = Decoded e \<Longrightarrow> e = snd x"
proof (induction fuel arbitrary: x)
  case 0
  then show ?case by (simp add: decode_loop.simps split: if_splits)
next
  case (Suc n)
  then show ?case
    by (subst (asm) decode_loop.simps)
      (auto split: if_splits option.splits dest: decode_object_signed)
qed

lemma decode_signed:
  "UsimDecodeEfStatusData fuel True data e = Decoded e' \<Longrightarrow> e' = e"
  by (auto simp: UsimDecodeEfStatusData_def split: option.splits if_splits prod.splits
      dest: decode_loop_signed)

end
