(* ===== verification/RilState.thy ===== *)
theory RilState
  imports AtSender UsimFcp
begin

section \<open>reference-ril.c: the state and the interface of the RIL\<close>

text \<open>
  The data that \<open>reference-ril.c\<close> exchanges with the framework, its static variables as a
  record that extends the state of the AT channel, and the calls through \<open>s_rilenv\<close>, which
  are appended to \<open>rlog\<close>.  The configuration is \<open>RIL_VERSION\<close> 12 built as a shared
  library, without the \<open>USE_TI_COMMANDS\<close>, \<open>AIRM2M_REPORT_SIGNAL_STRENGTH\<close> and
  \<open>POLL_CALL_STATE\<close> options.  The enumerations of \<open>ril.h\<close> are datatypes; no use is made of
  their numbers beyond the order of \<open>RIL_RadioState\<close>.
\<close>

subsection \<open>Radio and SIM states\<close>

datatype RIL_RadioState = RADIO_STATE_OFF | RADIO_STATE_UNAVAILABLE | RADIO_STATE_ON

text \<open>The code compares radio states with \<open>\<le>\<close>: the order of the enumeration.\<close>

instantiation RIL_RadioState :: linorder
begin

fun rank_RadioState :: "RIL_RadioState \<Rightarrow> nat" where
  "rank_RadioState RADIO_STATE_OFF = 0"
| "rank_RadioState RADIO_STATE_UNAVAILABLE = 1"
| "rank_RadioState RADIO_STATE_ON = 2"

definition less_eq_RIL_RadioState :: "RIL_RadioState \<Rightarrow> RIL_RadioState \<Rightarrow> bool" where
  "less_eq_RIL_RadioState x y \<longleftrightarrow> rank_RadioState x \<le> rank_RadioState y"

definition less_RIL_RadioState :: "RIL_RadioState \<Rightarrow> RIL_RadioState \<Rightarrow> bool" where
  "less_RIL_RadioState x y \<longleftrightarrow> rank_RadioState x < rank_RadioState y"

lemma rank_RadioState_inj: "rank_RadioState x = rank_RadioState y \<Longrightarrow> x = y"
  by (cases x; cases y) simp_all

instance
  by intro_classes
    (auto simp: less_eq_RIL_RadioState_def less_RIL_RadioState_def dest: rank_RadioState_inj)

end

datatype SIM_Status =
    SIM_ABSENT | SIM_NOT_READY | SIM_READY | SIM_PIN | SIM_PUK | SIM_NETWORK_PERSONALIZATION
  | RUIM_ABSENT | RUIM_NOT_READY | RUIM_READY | RUIM_PIN | RUIM_PUK | RUIM_NETWORK_PERSONALIZATION
  | ISIM_ABSENT | ISIM_NOT_READY | ISIM_READY | ISIM_PIN | ISIM_PUK | ISIM_NETWORK_PERSONALIZATION

fun sim_num :: "SIM_Status \<Rightarrow> nat" where
  "sim_num SIM_ABSENT = 0" | "sim_num SIM_NOT_READY = 1" | "sim_num SIM_READY = 2"
| "sim_num SIM_PIN = 3" | "sim_num SIM_PUK = 4" | "sim_num SIM_NETWORK_PERSONALIZATION = 5"
| "sim_num RUIM_ABSENT = 6" | "sim_num RUIM_NOT_READY = 7" | "sim_num RUIM_READY = 8"
| "sim_num RUIM_PIN = 9" | "sim_num RUIM_PUK = 10" | "sim_num RUIM_NETWORK_PERSONALIZATION = 11"
| "sim_num ISIM_ABSENT = 12" | "sim_num ISIM_NOT_READY = 13" | "sim_num ISIM_READY = 14"
| "sim_num ISIM_PIN = 15" | "sim_num ISIM_PUK = 16" | "sim_num ISIM_NETWORK_PERSONALIZATION = 17"

subsection \<open>Requests and their data\<close>

datatype request =
    RIL_REQUEST_GET_SIM_STATUS | RIL_REQUEST_GET_CURRENT_CALLS | RIL_REQUEST_DIAL
  | RIL_REQUEST_HANGUP | RIL_REQUEST_HANGUP_WAITING_OR_BACKGROUND
  | RIL_REQUEST_HANGUP_FOREGROUND_RESUME_BACKGROUND
  | RIL_REQUEST_SWITCH_WAITING_OR_HOLDING_AND_ACTIVE | RIL_REQUEST_ANSWER
  | RIL_REQUEST_CONFERENCE | RIL_REQUEST_UDUB | RIL_REQUEST_SEPARATE_CONNECTION
  | RIL_REQUEST_SIGNAL_STRENGTH | RIL_REQUEST_GET_ACTIVITY_INFO
  | RIL_REQUEST_VOICE_REGISTRATION_STATE | RIL_REQUEST_DATA_REGISTRATION_STATE
  | RIL_REQUEST_OPERATOR | RIL_REQUEST_RADIO_POWER | RIL_REQUEST_DTMF | RIL_REQUEST_SEND_SMS
  | RIL_REQUEST_SETUP_DATA_CALL | RIL_REQUEST_DEACTIVATE_DATA_CALL | RIL_REQUEST_SMS_ACKNOWLEDGE
  | RIL_REQUEST_GET_IMSI | RIL_REQUEST_GET_IMEI | RIL_REQUEST_DEVICE_IDENTITY
  | RIL_REQUEST_BASEBAND_VERSION | RIL_REQUEST_SIM_IO | RIL_REQUEST_SEND_USSD
  | RIL_REQUEST_CANCEL_USSD | RIL_REQUEST_SET_NETWORK_SELECTION_AUTOMATIC
  | RIL_REQUEST_DATA_CALL_LIST | RIL_REQUEST_SET_PREFERRED_NETWORK_TYPE
  | RIL_REQUEST_REPORT_STK_SERVICE_IS_RUNNING | RIL_REQUEST_CDMA_SET_SUBSCRIPTION_SOURCE
  | RIL_REQUEST_GET_RADIO_CAPABILITY | RIL_REQUEST_QUERY_NETWORK_SELECTION_MODE
  | RIL_REQUEST_OEM_HOOK_RAW | RIL_REQUEST_SET_RADIO_CAPABILITY | RIL_REQUEST_OEM_HOOK_STRINGS
  | RIL_REQUEST_WRITE_SMS_TO_SIM | RIL_REQUEST_DELETE_SMS_ON_SIM
  | RIL_REQUEST_ENTER_SIM_PIN | RIL_REQUEST_ENTER_SIM_PUK | RIL_REQUEST_ENTER_SIM_PIN2
  | RIL_REQUEST_ENTER_SIM_PUK2 | RIL_REQUEST_CHANGE_SIM_PIN | RIL_REQUEST_CHANGE_SIM_PIN2
  | RIL_REQUEST_OTHER nat   \<comment> \<open>any other request code\<close>

record RIL_SIM_IO =
  sim_command :: int
  sim_fileid :: int
  sim_p1 :: int
  sim_p2 :: int
  sim_p3 :: int
  sim_data :: "string option"

text \<open>What \<open>void *data\<close> points at.\<close>

datatype rdata =
    No_data                          \<comment> \<open>NULL\<close>
  | Int_data "int list"
  | Char_data string                 \<comment> \<open>\<open>char *\<close>\<close>
  | String_data "string option list" \<comment> \<open>\<open>char **\<close>\<close>
  | Dial_data string int             \<comment> \<open>\<open>RIL_Dial\<close>: address and CLIR\<close>
  | Sim_io_data RIL_SIM_IO
  | Sms_write_data int string        \<comment> \<open>\<open>RIL_SMS_WriteArgs\<close>: status and PDU\<close>

definition pointer_size :: nat where "pointer_size = 8"

type_synonym RIL_Token = "nat option"   \<comment> \<open>\<open>None\<close>: NULL\<close>

subsection \<open>Responses\<close>

datatype RIL_Errno =
    RIL_E_SUCCESS | RIL_E_RADIO_NOT_AVAILABLE | RIL_E_GENERIC_FAILURE | RIL_E_PASSWORD_INCORRECT
  | RIL_E_REQUEST_NOT_SUPPORTED

datatype unsol =
    RIL_UNSOL_RESPONSE_RADIO_STATE_CHANGED | RIL_UNSOL_RESPONSE_SIM_STATUS_CHANGED
  | RIL_UNSOL_RESPONSE_CALL_STATE_CHANGED | RIL_UNSOL_NITZ_TIME_RECEIVED
  | RIL_UNSOL_RESPONSE_VOICE_NETWORK_STATE_CHANGED | RIL_UNSOL_RESPONSE_NEW_SMS
  | RIL_UNSOL_RESPONSE_NEW_SMS_STATUS_REPORT | RIL_UNSOL_DATA_CALL_LIST_CHANGED

datatype RIL_CallState =
    RIL_CALL_ACTIVE | RIL_CALL_HOLDING | RIL_CALL_DIALING | RIL_CALL_ALERTING | RIL_CALL_INCOMING
  | RIL_CALL_WAITING

record RIL_Call =
  call_index :: int
  isMT :: int
  call_state :: RIL_CallState
  isVoice :: bool
  isMpty :: int
  call_number :: "string option"
  toa :: int

datatype RIL_AppType = RIL_APPTYPE_UNKNOWN | RIL_APPTYPE_SIM | RIL_APPTYPE_RUIM | RIL_APPTYPE_ISIM
datatype RIL_AppState =
    RIL_APPSTATE_UNKNOWN | RIL_APPSTATE_DETECTED | RIL_APPSTATE_PIN | RIL_APPSTATE_PUK
  | RIL_APPSTATE_SUBSCRIPTION_PERSO | RIL_APPSTATE_READY
datatype RIL_PersoSubstate =
    RIL_PERSOSUBSTATE_UNKNOWN | RIL_PERSOSUBSTATE_READY | RIL_PERSOSUBSTATE_SIM_NETWORK
datatype RIL_PinState =
    RIL_PINSTATE_UNKNOWN | RIL_PINSTATE_ENABLED_NOT_VERIFIED | RIL_PINSTATE_ENABLED_BLOCKED
datatype RIL_CardState = RIL_CARDSTATE_ABSENT | RIL_CARDSTATE_PRESENT

record RIL_AppStatus =
  app_type :: RIL_AppType
  app_state :: RIL_AppState
  perso_substate :: RIL_PersoSubstate
  pin1 :: RIL_PinState

record RIL_CardStatus_v5 =
  card_state :: RIL_CardState
  universal_pin_state :: RIL_PinState
  gsm_umts_subscription_app_index :: int
  cdma_subscription_app_index :: int
  num_applications :: int
  applications :: "RIL_AppStatus list"

record RIL_CardStatus_v6 = RIL_CardStatus_v5 +
  ims_subscription_app_index :: int

record RIL_SIM_IO_Response =
  sw1 :: int
  sw2 :: int
  simResponse :: "string option"

record RIL_Data_Call_Response =
  dc_status :: int
  suggestedRetryTime :: int
  dc_cid :: int
  dc_active :: int
  dc_type :: string
  dc_ifname :: string
  addresses :: string
  dnses :: string
  gateways :: string
  pcscf :: string
  mtu :: int

datatype payload =
    Nothing                                  \<comment> \<open>\<open>NULL, 0\<close>\<close>
  | Text string
  | Texts "string option list"
  | Ints "int list"
  | Uninitialised_int                        \<comment> \<open>an \<open>int\<close> that was never assigned\<close>
  | Card RIL_CardStatus_v6
  | Call_list "RIL_Call list"
  | Sim_io RIL_SIM_IO_Response
  | Data_call RIL_Data_Call_Response
  | Sms_response                             \<comment> \<open>an all-zero \<open>RIL_SMS_Response\<close>\<close>
  | Radio_capability "string list"           \<comment> \<open>the \<open>RAF_\<close> flags set\<close>
  | Echo rdata nat                           \<comment> \<open>the data of the request itself\<close>

datatype timed_callback =
    Callback_pollSIMState | Callback_sendCallStateChanged | Callback_onDataCallExit
  | Callback_onDataCallListChanged | Callback_initializeCallback

text \<open>What the RIL does to its surroundings, in order; times in microseconds.\<close>

datatype ril_act =
    OnRequestComplete RIL_Token RIL_Errno payload
  | OnUnsolicitedResponse unsol payload
  | RequestTimedCallback timed_callback nat
  | Pppd_start int "string option" string string string string string
  | Pppd_stop

text \<open>
  What \<open>requestSetupDataCall\<close> finds when it polls for the address of \<open>ppp0\<close>: how often
  \<open>pppd.c\<close> reported an exit meanwhile, whether the AT channel was closed meanwhile, whether
  the child is gone, whether the daemon runs, and what the kernel says of its network
  interfaces: whether there is a socket to ask with, and the list that \<open>SIOCGIFCONF\<close> gives.  Each
  entry has a name, an address of four bytes, and whether \<open>SIOCGIFFLAGS\<close> says that the interface
  is up.
\<close>

record netif =
  ifr_name :: string
  ifr_addr :: "nat list"
  ifr_up :: "bool option"

record ppp_poll =
  exits :: nat
  lost_channel :: bool
  child_gone :: bool
  running :: bool
  has_socket :: bool
  ifconf :: "netif list option"

subsection \<open>The static variables\<close>

record ril = chan +
  sState :: RIL_RadioState
  s_closed :: bool
  onRequestCount :: int
  bSetupDataCallCompelete :: bool
  nSetupDataCallFailTimes :: int
  s_default_pdp :: int
  sKeepLocalip :: string
  MVersion :: string
  readBinaryResult :: "string option"
  getResponseResult :: string
  char_signed :: bool                    \<comment> \<open>is plain \<open>char\<close> signed?\<close>
  fcp_stack :: SimEfStatusData           \<comment> \<open>what \<open>convertUSimFcp\<close> finds on its stack\<close>
  fcp_heap :: "8 word list"              \<comment> \<open>and in the block it allocates\<close>
  pppd_pid :: int                        \<comment> \<open>what the next \<open>pppd_start\<close> returns\<close>
  ppp_polls :: "nat \<Rightarrow> ppp_poll"
  rlog :: "ril_act list"

definition act :: "ril_act \<Rightarrow> (ril, unit) prog" where
  "act a = modp (\<lambda>s. s\<lparr>rlog := rlog s @ [a]\<rparr>)"

definition RIL_onRequestComplete :: "RIL_Token \<Rightarrow> RIL_Errno \<Rightarrow> payload \<Rightarrow> (ril, unit) prog" where
  "RIL_onRequestComplete t e p = act (OnRequestComplete t e p)"

definition RIL_onUnsolicitedResponse :: "unsol \<Rightarrow> payload \<Rightarrow> (ril, unit) prog" where
  "RIL_onUnsolicitedResponse u p = act (OnUnsolicitedResponse u p)"

definition RIL_requestTimedCallback :: "timed_callback \<Rightarrow> nat \<Rightarrow> (ril, unit) prog" where
  "RIL_requestTimedCallback c usec = act (RequestTimedCallback c usec)"

text \<open>Reading the data of a request: data of another shape is a wild access.\<close>

definition int_arg :: "rdata \<Rightarrow> nat \<Rightarrow> (ril, int) prog" where
  "int_arg d i = (case d of
      Int_data xs \<Rightarrow> if i < length xs then ret (xs ! i) else failp OutOfBounds
    | No_data \<Rightarrow> failp NullDeref
    | _ \<Rightarrow> failp WildPointer)"

definition string_arg :: "rdata \<Rightarrow> nat \<Rightarrow> (ril, string option) prog" where
  "string_arg d i = (case d of
      String_data xs \<Rightarrow> if i < length xs then ret (xs ! i) else failp OutOfBounds
    | No_data \<Rightarrow> failp NullDeref
    | _ \<Rightarrow> failp WildPointer)"

text \<open>A string that is dereferenced, as by \<open>strlen\<close> or \<open>%s\<close>.\<close>

definition non_null :: "'a option \<Rightarrow> (ril, 'a) prog" where
  "non_null x = (case x of None \<Rightarrow> failp NullDeref | Some y \<Rightarrow> ret y)"

definition or_goto :: "'a option \<Rightarrow> ('s, 'b) prog \<Rightarrow> ('a \<Rightarrow> ('s, 'b) prog) \<Rightarrow> ('s, 'b) prog" where
  "or_goto x err k = (case x of None \<Rightarrow> err | Some y \<Rightarrow> k y)"

text \<open>How often a token was completed, and how often any request was.\<close>

definition completed :: "RIL_Token \<Rightarrow> ril \<Rightarrow> nat" where
  "completed t s = length (filter (\<lambda>a. case a of OnRequestComplete t' _ _ \<Rightarrow> t' = t | _ \<Rightarrow> False) (rlog s))"

subsection \<open>What a command may change\<close>

text \<open>
  The callbacks that run during a command notify the framework, and close the channel; this
  is all that can happen to the RIL's own state while a command runs.
\<close>

fun is_notice :: "ril_act \<Rightarrow> bool" where
  "is_notice (OnUnsolicitedResponse _ _) = True"
| "is_notice (RequestTimedCallback _ _) = True"
| "is_notice _ = False"

definition quiet :: "ril \<Rightarrow> ril \<Rightarrow> bool" where
  "quiet s t \<longleftrightarrow> (\<exists>l. rlog t = rlog s @ l \<and> list_all is_notice l) \<and>
     (sState t = sState s \<or> sState t = RADIO_STATE_UNAVAILABLE \<and> s_closed t) \<and>
     (s_closed s \<longrightarrow> s_closed t) \<and> (s_closed t \<longrightarrow> s_closed s \<or> sState t = RADIO_STATE_UNAVAILABLE) \<and>
     onRequestCount t = onRequestCount s \<and> bSetupDataCallCompelete t = bSetupDataCallCompelete s \<and>
     nSetupDataCallFailTimes t = nSetupDataCallFailTimes s \<and> s_default_pdp t = s_default_pdp s \<and>
     sKeepLocalip t = sKeepLocalip s \<and> MVersion t = MVersion s \<and>
     readBinaryResult t = readBinaryResult s \<and> getResponseResult t = getResponseResult s \<and>
     pppd_pid t = pppd_pid s \<and> ppp_polls t = ppp_polls s"

lemma quiet_refl [simp, intro]: "quiet s s"
  by (simp add: quiet_def)

lemma quiet_transp: "transp quiet"
proof (rule transpI)
  fix s t u
  assume "quiet s t" and "quiet t u"
  then show "quiet s u"
    unfolding quiet_def by (metis append.assoc list_all_append)
qed

lemma quiet_trans: "quiet s t \<Longrightarrow> quiet t u \<Longrightarrow> quiet s u"
  by (rule transpD [OF quiet_transp])

lemma quiet_more: "chan.more t = chan.more s \<Longrightarrow> quiet s t"
  by (cases s; cases t) (simp add: quiet_def)

lemma quiet_completed: "quiet s t \<Longrightarrow> completed k t = completed k s"
proof -
  have "list_all is_notice l \<Longrightarrow>
      filter (\<lambda>a. case a of OnRequestComplete t' _ _ \<Rightarrow> t' = k | _ \<Rightarrow> False) l = []" for l
    by (induction l) (auto split: ril_act.splits)
  then show "quiet s t \<Longrightarrow> completed k t = completed k s"
    by (auto simp: quiet_def completed_def)
qed

end
