(* ===== verification/RilCallbacks.thy ===== *)
theory RilCallbacks
  imports RilState
begin

section \<open>reference-ril.c: the radio state and the callbacks of the AT channel\<close>

subsection \<open>The code\<close>

text \<open>
  \<open>setRadioState\<close> calls \<open>onRadioPowerOn\<close>, which issues commands on the channel whose
  callbacks call \<open>setRadioState\<close>.  The knot is cut by the argument \<open>powerOn\<close>: the callbacks
  set the radio state only after setting \<open>s_closed\<close>, and then \<open>onRadioPowerOn\<close> is never
  reached (\<open>setRadioState_closed\<close>).
\<close>

definition setRadioState_with :: "(ril, unit) prog \<Rightarrow> RIL_RadioState \<Rightarrow> (ril, unit) prog" where
  "setRadioState_with powerOn newState = bindp (getp sState) (\<lambda>oldState.
     seqp (modp (\<lambda>s. let new = (if s_closed s then RADIO_STATE_UNAVAILABLE else newState)
                     in if sState s \<noteq> new \<or> s_closed s then s\<lparr>sState := new\<rparr> else s))
     (bindp (getp sState) (\<lambda>now.
        if now = oldState then ret ()
        else seqp (RIL_onUnsolicitedResponse RIL_UNSOL_RESPONSE_RADIO_STATE_CHANGED Nothing)
          (seqp (RIL_onUnsolicitedResponse RIL_UNSOL_RESPONSE_SIM_STATUS_CHANGED Nothing)
          (if now = RADIO_STATE_ON then powerOn else ret ())))))"

definition onATReaderClosed :: "(ril, unit) prog" where
  "onATReaderClosed = seqp at_close (seqp (modp (\<lambda>s. s\<lparr>s_closed := True\<rparr>))
     (setRadioState_with (ret ()) RADIO_STATE_UNAVAILABLE))"

definition onATTimeout :: "(ril, unit) prog" where
  "onATTimeout = seqp at_close (seqp (modp (\<lambda>s. s\<lparr>s_closed := True\<rparr>))
     (setRadioState_with (ret ()) RADIO_STATE_UNAVAILABLE))"

definition nitz_time :: "string \<Rightarrow> (ril, unit) prog" where
  "nitz_time s = (case at_tok_nextstr (snd (at_tok_start (Some s))) of (err, response, _) \<Rightarrow>
     if err \<noteq> 0 then ret ()
     else bindp (non_null response) (\<lambda>r. RIL_onUnsolicitedResponse RIL_UNSOL_NITZ_TIME_RECEIVED (Text r)))"

definition onUnsolicited :: "string \<Rightarrow> string option \<Rightarrow> (ril, unit) prog" where
  "onUnsolicited s sms_pdu = bindp (getp sState) (\<lambda>state.
     if state = RADIO_STATE_UNAVAILABLE then ret ()
     else if strStartsWith s ''%CTZV:'' then nitz_time s
     else if strStartsWith s ''+CRING:'' \<or> strStartsWith s ''RING'' \<or> strStartsWith s ''NO CARRIER''
          \<or> strStartsWith s ''+CCWA'' then
       RIL_onUnsolicitedResponse RIL_UNSOL_RESPONSE_CALL_STATE_CHANGED Nothing
     else if strStartsWith s ''+CREG:'' \<or> strStartsWith s ''+CEREG:'' then
       RIL_onUnsolicitedResponse RIL_UNSOL_RESPONSE_VOICE_NETWORK_STATE_CHANGED Nothing
     else if strStartsWith s ''+CMT:'' then
       bindp (non_null sms_pdu) (\<lambda>p. RIL_onUnsolicitedResponse RIL_UNSOL_RESPONSE_NEW_SMS (Text p))
     else if strStartsWith s ''+CDS:'' then
       bindp (non_null sms_pdu) (\<lambda>p.
         RIL_onUnsolicitedResponse RIL_UNSOL_RESPONSE_NEW_SMS_STATUS_REPORT (Text p))
     else if strStartsWith s ''+CGEV:'' then
       RIL_requestTimedCallback Callback_onDataCallListChanged 0
     else ret ())"

text \<open>\<open>at_open(fd, onUnsolicited)\<close>, \<open>at_set_on_reader_closed\<close>, \<open>at_set_on_timeout\<close>.\<close>

definition ril_cb :: "unit ril_ext chan_scheme callbacks" where
  "ril_cb = \<lparr>unsolHandler = Some onUnsolicited, onClosed = Some onATReaderClosed,
             onTimeout = Some onATTimeout\<rparr>"

subsection \<open>The callbacks keep the contract of the channel\<close>

lemmas out_defs =
  RIL_onRequestComplete_def RIL_onUnsolicitedResponse_def RIL_requestTimedCallback_def act_def
  non_null_def

lemma setRadioState_apply:
  "setRadioState_with powerOn new s =
     (let new = (if s_closed s then RADIO_STATE_UNAVAILABLE else new);
          t = s\<lparr>sState := new, rlog := rlog s @
            [OnUnsolicitedResponse RIL_UNSOL_RESPONSE_RADIO_STATE_CHANGED Nothing,
             OnUnsolicitedResponse RIL_UNSOL_RESPONSE_SIM_STATUS_CHANGED Nothing]\<rparr>
      in if new = sState s then Done () s
         else if new = RADIO_STATE_ON then powerOn t else Done () t)"
  by (simp add: setRadioState_with_def out_defs outcome_simps Let_def)

lemma setRadioState_closed:
  "s_closed s \<Longrightarrow> setRadioState_with m new s = setRadioState_with m' RADIO_STATE_UNAVAILABLE s"
  by (simp add: setRadioState_apply Let_def)

text \<open>Both closing callbacks do the same.\<close>

definition closed_state :: "ril \<Rightarrow> ril" where
  "closed_state s =
     (let t = s\<lparr>s_fd := -1, s_readerClosed := True, s_closed := True\<rparr>
      in if sState s = RADIO_STATE_UNAVAILABLE then t
         else t\<lparr>sState := RADIO_STATE_UNAVAILABLE, rlog := rlog s @
           [OnUnsolicitedResponse RIL_UNSOL_RESPONSE_RADIO_STATE_CHANGED Nothing,
            OnUnsolicitedResponse RIL_UNSOL_RESPONSE_SIM_STATUS_CHANGED Nothing]\<rparr>)"

lemma onATReaderClosed_apply: "onATReaderClosed s = Done () (closed_state s)"
  by (auto simp: onATReaderClosed_def at_close_def outcome_simps setRadioState_apply closed_state_def Let_def)

lemma onATTimeout_apply: "onATTimeout s = Done () (closed_state s)"
  by (auto simp: onATTimeout_def at_close_def outcome_simps setRadioState_apply closed_state_def Let_def)

lemma closed_state_frame: "same_cmd s (closed_state s) \<and> quiet s (closed_state s)"
  by (simp add: closed_state_def same_cmd_def quiet_def Let_def)

lemma quiet_act: "is_notice a \<Longrightarrow> quiet s (s\<lparr>rlog := rlog s @ [a]\<rparr>)"
  by (simp add: quiet_def)

lemma same_cmd_act: "same_cmd s (s\<lparr>rlog := rlog s @ [a]\<rparr>)"
  by (simp add: same_cmd_def)

text \<open>An unsolicited line leads to at most one notice.\<close>

lemma notice_witness:
  "is_notice b \<Longrightarrow> \<exists>a. is_notice a \<and> s\<lparr>rlog := rlog s @ [b]\<rparr> = s\<lparr>rlog := rlog s @ [a]\<rparr>"
  by blast

lemma onUnsolicited_cases:
  "onUnsolicited l p s = Done x t \<Longrightarrow> t = s \<or> (\<exists>a. is_notice a \<and> t = s\<lparr>rlog := rlog s @ [a]\<rparr>)"
  by (auto simp: onUnsolicited_def nitz_time_def out_defs outcome_simps intro!: notice_witness
      split: if_splits option.splits prod.splits)

lemma onUnsolicited_returns:
  assumes "isSMSUnsolicited l \<Longrightarrow> p \<noteq> None"
  shows "\<exists>t. onUnsolicited l p s = Done () t"
proof -
  have sms: "p \<noteq> None" if "strStartsWith l ''+CMT:'' \<or> strStartsWith l ''+CDS:''"
    using that assms by (auto simp: isSMSUnsolicited_def s_smsUnsoliciteds_def)
  have nitz: "\<exists>t. nitz_time l s = Done () t"
  proof (cases "snd (at_tok_start (Some l))")
    case None
    then show ?thesis by (simp add: nitz_time_def at_tok_nextstr_def outcome_simps)
  next
    case (Some rest)
    obtain tok cur where "nextTok (Some rest) = (Some tok, cur)"
      using nextTok_Some by blast
    then show ?thesis
      using Some by (simp add: nitz_time_def at_tok_nextstr_def out_defs outcome_simps)
  qed
  show ?thesis
    using sms nitz by (auto simp: onUnsolicited_def out_defs outcome_simps split: option.splits)
qed

interpretation ril: channel_client ril_cb quiet
proof
  fix h and l :: string and p :: "string option" and s s' :: ril
  assume "unsolHandler ril_cb = Some h"
  then have h: "h = onUnsolicited" by (simp add: ril_cb_def)
  show "same_cmd s s'" if "h l p s = Done () s'"
    using that unfolding h by (auto dest: onUnsolicited_cases simp: same_cmd_act)
  show "keeps quiet (h l p)"
  proof (rule keepsI)
    fix s x s' assume "h l p s = Done x s'"
    then show "quiet s s'"
      unfolding h by (auto dest: onUnsolicited_cases simp: quiet_act)
  qed
  show "\<exists>s'. h l p s = Done () s'" if "isSMSUnsolicited l \<Longrightarrow> p \<noteq> None"
    using onUnsolicited_returns [OF that] by (simp add: h)
next
  fix k and s s' :: ril
  assume "onClosed ril_cb = Some k"
  then have k: "k = onATReaderClosed" by (simp add: ril_cb_def)
  show "same_cmd s s'" if "k s = Done () s'"
    using that closed_state_frame by (auto simp: k onATReaderClosed_apply)
  show "keeps quiet k"
    by (rule keepsI) (use closed_state_frame in \<open>auto simp: k onATReaderClosed_apply\<close>)
  show "\<exists>s'. k s = Done () s'"
    by (simp add: k onATReaderClosed_apply)
next
  fix m and s s' :: ril
  assume "onTimeout ril_cb = Some m"
  then have m: "m = onATTimeout" by (simp add: ril_cb_def)
  show "same_cmd s s'" if "m s = Done () s'"
    using that closed_state_frame by (auto simp: m onATTimeout_apply)
  show "keeps quiet m"
    by (rule keepsI) (use closed_state_frame in \<open>auto simp: m onATTimeout_apply\<close>)
  show "\<exists>s'. m s = Done () s'"
    by (simp add: m onATTimeout_apply)
next
  show "onClosed ril_cb \<noteq> None" by (simp add: ril_cb_def)
  show "transp quiet" by (rule quiet_transp)
  show "quiet s s'" if "chan.more s' = chan.more s" for s s' :: ril
    using that by (rule quiet_more)
qed

end
