(* ===== verification/RilCommands.thy ===== *)
theory RilCommands
  imports RilCallbacks
begin

section \<open>reference-ril.c: how its functions issue commands and answer requests\<close>

subsection \<open>Idioms of the code\<close>

text \<open>
  The calls of the channel with the RIL's callbacks.  The last argument is the content of the
  caller's response variable before the call.
\<close>

abbreviation send_command :: "string \<Rightarrow> ptr \<Rightarrow> (ril, int \<times> ptr) prog" where
  "send_command c q \<equiv> at_send_command ril_cb c (Some q)"

abbreviation send_singleline :: "string \<Rightarrow> string \<Rightarrow> ptr \<Rightarrow> (ril, int \<times> ptr) prog" where
  "send_singleline c pre q \<equiv> at_send_command_singleline ril_cb c pre (Some q)"

abbreviation send_numeric :: "string \<Rightarrow> ptr \<Rightarrow> (ril, int \<times> ptr) prog" where
  "send_numeric c q \<equiv> at_send_command_numeric ril_cb c (Some q)"

abbreviation send_multiline :: "string \<Rightarrow> string \<Rightarrow> ptr \<Rightarrow> (ril, int \<times> ptr) prog" where
  "send_multiline c pre q \<equiv> at_send_command_multiline ril_cb c pre (Some q)"

abbreviation send_sms :: "string \<Rightarrow> string \<Rightarrow> string \<Rightarrow> ptr \<Rightarrow> (ril, int \<times> ptr) prog" where
  "send_sms c pdu pre q \<equiv> at_send_command_sms ril_cb c pdu pre (Some q)"

text \<open>A command whose response and result are ignored: \<open>at_send_command(c, NULL)\<close>.\<close>

definition send_ignored :: "string \<Rightarrow> (ril, unit) prog" where
  "send_ignored c = bindp (at_send_command ril_cb c None) (\<lambda>_. ret ())"

text \<open>\<open>err < 0 || p_response->success == 0\<close> and \<open>err != 0 || p_response->success == 0\<close>\<close>

definition rejected :: "int \<times> ptr \<Rightarrow> (ril, bool) prog" where
  "rejected r = (if fst r < 0 then ret True else bindp (resp_success (snd r)) (\<lambda>ok. ret (ok = 0)))"

definition rejected0 :: "int \<times> ptr \<Rightarrow> (ril, bool) prog" where
  "rejected0 r = (if fst r \<noteq> 0 then ret True else bindp (resp_success (snd r)) (\<lambda>ok. ret (ok = 0)))"

text \<open>
  The two ends of a handler: complete the request and free the response, in one order or the
  other.
\<close>

definition complete_free :: "RIL_Token \<Rightarrow> RIL_Errno \<Rightarrow> payload \<Rightarrow> ptr \<Rightarrow> (ril, unit) prog" where
  "complete_free t e d p = seqp (RIL_onRequestComplete t e d) (at_response_free p)"

definition free_complete :: "RIL_Token \<Rightarrow> RIL_Errno \<Rightarrow> payload \<Rightarrow> ptr \<Rightarrow> (ril, unit) prog" where
  "free_complete t e d p = seqp (at_response_free p) (RIL_onRequestComplete t e d)"

subsection \<open>Counting completions\<close>

text \<open>\<open>once t m\<close>: a normal return of \<open>m\<close> has completed the request \<open>t\<close> exactly once.\<close>

definition once :: "RIL_Token \<Rightarrow> (ril, 'a) prog \<Rightarrow> bool" where
  "once t m \<longleftrightarrow> adds (completed t) 1 m"

definition none :: "RIL_Token \<Rightarrow> (ril, 'a) prog \<Rightarrow> bool" where
  "none t m \<longleftrightarrow> adds (completed t) 0 m"

lemma keeps_none: "keeps quiet m \<Longrightarrow> none t m"
  by (auto simp: none_def intro!: addsI dest!: keepsD dest: quiet_completed)

lemma completed_act [simp]:
  "completed t (s\<lparr>rlog := rlog s @ [a]\<rparr>) = completed t s + (case a of
     OnRequestComplete t' _ _ \<Rightarrow> if t' = t then 1 else 0 | _ \<Rightarrow> 0)"
  by (simp add: completed_def split: ril_act.splits)

lemma completed_other [simp]:
  "completed t (s\<lparr>heap := h\<rparr>) = completed t s"
  "completed t (s\<lparr>sState := st\<rparr>) = completed t s"
  "completed t (s\<lparr>s_closed := b\<rparr>) = completed t s"
  "completed t (s\<lparr>onRequestCount := n\<rparr>) = completed t s"
  "completed t (s\<lparr>bSetupDataCallCompelete := b\<rparr>) = completed t s"
  "completed t (s\<lparr>nSetupDataCallFailTimes := n\<rparr>) = completed t s"
  "completed t (s\<lparr>s_default_pdp := n\<rparr>) = completed t s"
  "completed t (s\<lparr>sKeepLocalip := x\<rparr>) = completed t s"
  "completed t (s\<lparr>MVersion := x\<rparr>) = completed t s"
  "completed t (s\<lparr>readBinaryResult := y\<rparr>) = completed t s"
  "completed t (s\<lparr>getResponseResult := x\<rparr>) = completed t s"
  by (simp_all add: completed_def)

lemma none_commands:
  "none t (at_send_command ril_cb c pp)"
  "none t (at_send_command_singleline ril_cb c pre pp)"
  "none t (at_send_command_numeric ril_cb c pp)"
  "none t (at_send_command_multiline ril_cb c pre pp)"
  "none t (at_send_command_sms ril_cb c pdu pre pp)"
  unfolding at_send_command_def at_send_command_singleline_def at_send_command_numeric_def
    at_send_command_multiline_def at_send_command_sms_def
  by (rule keeps_none, intro ril.keep_rules ril.keeps_full ril.keeps_require)+

lemma none_responses:
  "none t (deref p)" "none t (resp_success p)" "none t (first_line p)" "none t (at_response_free p)"
  "none t (at_get_cme_error p)"
  unfolding resp_success_def first_line_def at_get_cme_error_def
  by (rule keeps_none,
      auto intro!: ril.keep_rules ril.keeps_deref ril.keeps_free split: list.splits option.splits)+

lemma none_bind: "none t m \<Longrightarrow> (\<And>x. none t (f x)) \<Longrightarrow> none t (bindp m f)"
  unfolding none_def by (rule adds_bind_r)

lemma none_seq: "none t m \<Longrightarrow> none t n \<Longrightarrow> none t (seqp m n)"
  unfolding none_def by (rule adds_seq_r)

lemma none_ret: "none t (ret x)"
  unfolding none_def by (rule adds_ret)

lemma none_getp: "none t (getp f)"
  unfolding none_def by (rule adds_getp)

lemma none_modp: "(\<And>s. completed t (f s) = completed t s) \<Longrightarrow> none t (modp f)"
  unfolding none_def by (rule adds_modp) simp

lemma none_failp: "none t (failp e)"
  unfolding none_def by (rule adds_failp)

lemma none_if: "(b \<Longrightarrow> none t m) \<Longrightarrow> (\<not> b \<Longrightarrow> none t n) \<Longrightarrow> none t (if b then m else n)"
  by simp

lemma none_option:
  "none t m \<Longrightarrow> (\<And>x. none t (f x)) \<Longrightarrow> none t (case z of None \<Rightarrow> m | Some x \<Rightarrow> f x)"
  by (cases z) auto

lemma none_prod: "(\<And>x y. none t (f x y)) \<Longrightarrow> none t (case z of (x, y) \<Rightarrow> f x y)"
  by (cases z) auto

lemma none_or_goto: "none t m \<Longrightarrow> (\<And>x. none t (f x)) \<Longrightarrow> none t (or_goto z m f)"
  unfolding or_goto_def by (rule none_option)

lemma none_notice: "none t (RIL_onUnsolicitedResponse u p)" "none t (RIL_requestTimedCallback c n)"
  unfolding RIL_onUnsolicitedResponse_def RIL_requestTimedCallback_def act_def
  by (rule none_modp, simp)+

lemma none_args: "none t (int_arg d i)" "none t (string_arg d i)" "none t (non_null x)"
  unfolding int_arg_def string_arg_def non_null_def
  by (auto intro!: none_ret none_failp split: rdata.split option.split)

lemma none_rejected: "none t (rejected r)" "none t (rejected0 r)"
  unfolding rejected_def rejected0_def by (auto intro!: none_bind none_ret none_responses)

lemma none_ignored: "none t (send_ignored c)"
  unfolding send_ignored_def by (intro none_bind none_ret none_commands)

lemmas none_rules =
  none_ret none_getp none_failp none_commands none_responses none_notice none_args none_rejected
  none_ignored none_bind none_seq none_if none_option none_prod none_or_goto

lemma once_complete: "once t (RIL_onRequestComplete t e d)"
  unfolding once_def RIL_onRequestComplete_def act_def by (rule adds_modp) simp

lemma once_complete_seq: "none t n \<Longrightarrow> once t (seqp (RIL_onRequestComplete t e d) n)"
  using once_complete unfolding once_def none_def by (rule adds_seq_l)

lemma once_complete_free: "once t (complete_free t e d p)"
  unfolding complete_free_def by (intro once_complete_seq none_responses)

lemma once_complete_free_seq: "none t n \<Longrightarrow> once t (seqp (complete_free t e d p) n)"
  using once_complete_free unfolding once_def none_def by (rule adds_seq_l)

lemma once_seq: "none t m \<Longrightarrow> once t n \<Longrightarrow> once t (seqp m n)"
  unfolding once_def none_def by (rule adds_seq_r)

lemma once_free_complete: "once t (free_complete t e d p)"
  unfolding free_complete_def by (intro once_seq none_responses once_complete)

lemma once_bind: "none t m \<Longrightarrow> (\<And>x. once t (f x)) \<Longrightarrow> once t (bindp m f)"
  unfolding once_def none_def by (rule adds_bind_r)

lemma once_failp: "once t (failp e)"
  unfolding once_def by (rule adds_failp)

lemma once_if: "(b \<Longrightarrow> once t m) \<Longrightarrow> (\<not> b \<Longrightarrow> once t n) \<Longrightarrow> once t (if b then m else n)"
  by simp

lemma once_option:
  "once t m \<Longrightarrow> (\<And>x. once t (f x)) \<Longrightarrow> once t (case z of None \<Rightarrow> m | Some x \<Rightarrow> f x)"
  by (cases z) auto

lemma once_prod: "(\<And>x y. once t (f x y)) \<Longrightarrow> once t (case z of (x, y) \<Rightarrow> f x y)"
  by (cases z) auto

lemma once_or_goto: "once t m \<Longrightarrow> (\<And>x. once t (f x)) \<Longrightarrow> once t (or_goto z m f)"
  unfolding or_goto_def by (rule once_option)

lemmas once_rules =
  once_complete once_complete_seq once_complete_free_seq once_complete_free once_free_complete once_failp once_bind once_seq
  once_if once_option once_prod once_or_goto

subsection \<open>Running a command\<close>

text \<open>
  \<open>holds p s t\<close>: beyond the responses of \<open>s\<close>, state \<open>t\<close> has the one \<open>p\<close> points at, or none
  if \<open>p\<close> is NULL.
\<close>

definition holds :: "ptr \<Rightarrow> ril \<Rightarrow> ril \<Rightarrow> bool" where
  "holds p s t \<longleftrightarrow> p = Null \<and> heap t = heap s \<or>
     (\<exists>a x. p = Ptr a \<and> heap s a = None \<and> heap t = (heap s)(a \<mapsto> x))"

text \<open>\<open>serves B n t s s'\<close>: the request was completed once and nothing leaked.\<close>

definition serves :: "bool \<Rightarrow> nat \<Rightarrow> RIL_Token \<Rightarrow> ril \<Rightarrow> ril \<Rightarrow> bool" where
  "serves B n t s s' \<longleftrightarrow> ready B n s' \<and> heap s' = heap s \<and> completed t s' = Suc (completed t s)"

lemma ready_simps [simp]:
  "ready B n (s\<lparr>rlog := l\<rparr>) = ready B n (s :: ril)"
  "ready B n (s\<lparr>sState := st\<rparr>) = ready B n s"
  "ready B n (s\<lparr>onRequestCount := k\<rparr>) = ready B n s"
  "ready B n (s\<lparr>bSetupDataCallCompelete := b\<rparr>) = ready B n s"
  "ready B n (s\<lparr>nSetupDataCallFailTimes := k\<rparr>) = ready B n s"
  "ready B n (s\<lparr>MVersion := x\<rparr>) = ready B n s"
  by (simp_all add: ready_def idle_def heap_wf_def events_ok_def responsive_def pending_events_def)

lemma ready_heap:
  assumes "ready B n t" and "\<And>a. heap t a = None \<Longrightarrow> h a = None"
  shows "ready B n (t\<lparr>heap := h\<rparr>)"
  using assms by (auto simp: ready_def idle_def heap_wf_def events_ok_def responsive_def)

lemma holds_ready: "holds p s t \<Longrightarrow> ready B n t \<Longrightarrow> ready B n (t\<lparr>heap := heap s\<rparr>)"
  by (rule ready_heap) (auto simp: holds_def split: if_splits)

lemma holds_free:
  "holds p s t \<Longrightarrow> at_response_free p t = Done () (t\<lparr>heap := heap s\<rparr>)"
  by (auto simp: holds_def at_response_free_def fun_upd_idem)

lemma safe_free:
  "holds p s t \<Longrightarrow> safe B (seqp (at_response_free p) m) t Q = safe B m (t\<lparr>heap := heap s\<rparr>) Q"
  by (simp add: safe_seq_Done [where m = "at_response_free p", OF holds_free])

lemma holds_rlog [simp]: "holds p s (t\<lparr>rlog := l\<rparr>) = holds p s t"
  by (simp add: holds_def)

lemma complete_free_serves:
  assumes "holds p s u" and "ready B n u" and "quiet s u"
  shows "safe B (complete_free t e d p) u (\<lambda>_. serves B n t s)"
  using assms holds_ready [of p s "u\<lparr>rlog := rlog u @ [OnRequestComplete t e d]\<rparr>" B n]
    quiet_completed [OF assms(3), of t]
  by (simp add: complete_free_def RIL_onRequestComplete_def act_def safe_Done [OF holds_free]
      serves_def completed_def)

lemma free_complete_serves:
  assumes "holds p s u" and "ready B n u" and "quiet s u"
  shows "safe B (free_complete t e d p) u (\<lambda>_. serves B n t s)"
  using assms holds_ready [OF assms(1,2)] quiet_completed [OF assms(3), of t]
  by (simp add: free_complete_def RIL_onRequestComplete_def act_def safe_seq_Done [OF holds_free]
      serves_def completed_def)

lemma complete_serves:
  assumes "heap u = heap s" and "ready B n u" and "quiet s u"
  shows "safe B (RIL_onRequestComplete t e d) u (\<lambda>_. serves B n t s)"
  using assms quiet_completed [OF assms(3), of t]
  by (simp add: RIL_onRequestComplete_def act_def serves_def completed_def)

text \<open>A command issued with a NULL response variable, and what follows it.\<close>

lemma safe_send:
  assumes "sender send good quiet" and rd: "ready B (Suc n) s"
    and err: "\<And>e p t. e < 0 \<Longrightarrow> holds p s t \<Longrightarrow> ready B n t \<Longrightarrow> quiet s t \<Longrightarrow> safe B (k (e, p)) t Q"
    and ok: "\<And>a x t. heap s a = None \<Longrightarrow> heap t = (heap s)(a \<mapsto> x) \<Longrightarrow> good x \<Longrightarrow> final_from s x \<Longrightarrow>
      holds (Ptr a) s t \<Longrightarrow> ready B n t \<Longrightarrow> quiet s t \<Longrightarrow> safe B (k (0, Ptr a)) t Q"
  shows "safe B (bindp (send Null) k) s Q"
proof (rule safe_bind [OF sender.send_triple [OF assms(1) rd]])
  fix r t
  assume t: "ready B n t \<and> frame_ok s t \<and> quiet s t \<and> handed_out good Null (fst r) (snd r) s t"
  have fresh: "brk s \<le> a \<Longrightarrow> heap s a = None" for a
    using rd by (simp add: ready_def idle_def heap_wf_def)
  show "safe B (k r) t Q"
  proof (cases "fst r = 0")
    case True
    then obtain a x where "snd r = Ptr a" "brk s \<le> a" "heap t = (heap s)(a \<mapsto> x)"
      "final_from s x" "good x"
      using t by (auto simp: handed_out_def)
    then show ?thesis
      using ok [of a t x] t fresh True by (cases r) (auto simp: holds_def)
  next
    case False
    then have "fst r < 0" and "holds (snd r) s t"
      using t fresh by (auto simp: handed_out_def holds_def)
    then show ?thesis
      using err [of "fst r" "snd r" t] t by simp
  qed
qed

lemma safe_ignored:
  assumes "ready B (Suc n) s"
    and "\<And>t. heap t = heap s \<Longrightarrow> ready B n t \<Longrightarrow> quiet s t \<Longrightarrow> safe B m t Q"
  shows "safe B (seqp (send_ignored c) m) s Q"
  unfolding send_ignored_def
proof (rule safe_seq)
  show "safe B (bindp (at_send_command ril_cb c None) (\<lambda>_. ret ())) s
      (\<lambda>_ t. ready B n t \<and> quiet s t \<and> heap t = heap s)"
    by (rule safe_bind, rule ril.command_discard [OF assms(1)]) simp
qed (use assms(2) in blast)

text \<open>Looking at a response that is held.\<close>

lemma held_simps:
  "heap t a = Some x \<Longrightarrow> safe B (bindp (resp_success (Ptr a)) k) t Q = safe B (k (success x)) t Q"
  "heap t a = Some x \<Longrightarrow> p_intermediates x = l # ls \<Longrightarrow>
     safe B (bindp (first_line (Ptr a)) k1) t Q = safe B (k1 l) t Q"
  "heap t a = Some x \<Longrightarrow> safe B (bindp (deref (Ptr a)) k2) t Q = safe B (k2 x) t Q"
  by (simp_all add: safe_def resp_success_def first_line_def deref_def outcome_simps)

lemma rejected_err [simp]: "e < 0 \<Longrightarrow> rejected (e, p) = ret True" "e < 0 \<Longrightarrow> rejected0 (e, p) = ret True"
  by (simp_all add: rejected_def rejected0_def)

lemma safe_rejected:
  "heap t a = Some x \<Longrightarrow> safe B (bindp (rejected (0, Ptr a)) k) t Q = safe B (k (success x = 0)) t Q"
  "heap t a = Some x \<Longrightarrow> safe B (bindp (rejected0 (0, Ptr a)) k) t Q = safe B (k (success x = 0)) t Q"
  by (simp_all add: safe_def rejected_def rejected0_def resp_success_def deref_def outcome_simps)

end
