(* ===== verification/AtRun.thy ===== *)
theory AtRun
  imports AtSender
begin

section \<open>Runs of single commands\<close>

text \<open>
  What happens on an open channel when a command gets the shortest answers: only an error, or
  one line that starts with the expected prefix and then a success.  Statements about faults
  of the callers start from these runs.
\<close>

definition open_channel :: "'z chan_scheme \<Rightarrow> bool" where
  "open_channel s \<longleftrightarrow> 0 \<le> s_fd s \<and> \<not> s_readerClosed s \<and> \<not> self_reader s \<and> wenv s = [] \<and> rx s = []"

lemma write_bytes_all: "wenv s = [] \<Longrightarrow> write_bytes b s = Done True (s\<lparr>tx := tx s @ b\<rparr>)"
  by (cases b) (simp_all add: write_bytes_def)

lemmas run_defs =
  at_send_command_full_def at_send_command_full_nolock_def idle_def open_channel_def
  begin_command_apply writeline_def write_terminated_def write_bytes_all take_reaction_def wait_final_def
  wait_done_def processLine_def handleFinalResponse_def update_at_def deref_def as_reader_def
  finish_command_def reverseIntermediates_def clearPendingCommand_def at_response_free_def drain_def
  heap_wf_def outcome_simps at_errors

lemma refused_run:
  assumes "idle s" and "open_channel s" and "env s = [Line l, Wake] # rest" and "isFinalResponseError l"
  shows "\<exists>t. at_send_command_full cb c ty pre pdu timeout (Some q) s = Done (0, Ptr (brk s)) t \<and>
    heap t = (heap s)(brk s \<mapsto> \<lparr>success = 0, finalResponse = Some l, p_intermediates = []\<rparr>) \<and>
    chan.more t = chan.more s \<and> idle t \<and> open_channel t \<and> env t = rest \<and> tx t = tx s @ c @ [CHR 0x0D]"
proof -
  have "\<not> isFinalResponseSuccess l"
    using assms(4) success_not_error by blast
  then show ?thesis
    using assms by (simp add: run_defs split: option.split)
qed

lemma singleline_refused_run:
  assumes "idle s" and "open_channel s" and "env s = [Line l, Wake] # rest" and "isFinalResponseError l"
  shows "\<exists>t. at_send_command_singleline cb c pre (Some q) s = Done (0, Ptr (brk s)) t \<and>
    heap t = (heap s)(brk s \<mapsto> \<lparr>success = 0, finalResponse = Some l, p_intermediates = []\<rparr>) \<and>
    chan.more t = chan.more s \<and> idle t \<and> open_channel t \<and> env t = rest \<and> tx t = tx s @ c @ [CHR 0x0D]"
proof -
  obtain t where t: "at_send_command_full cb c SINGLELINE (Some pre) None 0 (Some q) s = Done (0, Ptr (brk s)) t"
    "heap t = (heap s)(brk s \<mapsto> \<lparr>success = 0, finalResponse = Some l, p_intermediates = []\<rparr>)"
    "chan.more t = chan.more s" "idle t" "open_channel t" "env t = rest" "tx t = tx s @ c @ [CHR 0x0D]"
    using refused_run [OF assms, of cb c SINGLELINE "Some pre" None 0 q] by blast
  have h: "heap t (brk s) = Some \<lparr>success = 0, finalResponse = Some l, p_intermediates = []\<rparr>"
    by (simp add: t(2))
  show ?thesis
    using t by (simp add: at_send_command_singleline_def bindp_apply t(1) require_apply(2) [OF h])
qed

text \<open>\<open>late\<close> are events that arrive once the command is answered.\<close>

definition answered_state :: "'z chan_scheme \<Rightarrow> string \<Rightarrow> string \<Rightarrow> string \<Rightarrow> event list list \<Rightarrow> 'z chan_scheme" where
  "answered_state s c i f rest =
     s\<lparr>brk := Suc (brk s), s_type := SINGLELINE, tx := tx s @ c @ [CHR 0x0D], env := rest,
       self_reader := False,
       heap := (heap s)(brk s \<mapsto> \<lparr>success = 1, finalResponse = Some f, p_intermediates = [i]\<rparr>),
       sp_response := Null, s_responsePrefix := None, s_smsPDU := None, rx := []\<rparr>"

lemma answered_run:
  assumes "idle s" and "open_channel s" and "env s = (Line i # Line f # Wake # late) # rest"
    and "strStartsWith i pre" and "\<not> isFinalResponse i" and "isFinalResponseSuccess f"
  shows "at_send_command_full cb c SINGLELINE (Some pre) None 0 (Some q) s =
      bindp (reader_events cb late) (\<lambda>_. ret (0, Ptr (brk s))) (answered_state s c i f rest)"
  using assms
  by (simp add: run_defs isFinalResponse_def process_by_type_def answered_state_def
      no_intermediate_def has_prefix_def addIntermediate_def split: option.split outcome.split)

lemma answered_state_props:
  assumes "idle s" and "open_channel s"
  shows "heap (answered_state s c i f rest) =
      (heap s)(brk s \<mapsto> \<lparr>success = 1, finalResponse = Some f, p_intermediates = [i]\<rparr>)"
    "chan.more (answered_state s c i f rest) = chan.more s"
    "idle (answered_state s c i f rest)" "open_channel (answered_state s c i f rest)"
    "env (answered_state s c i f rest) = rest"
  using assms by (simp_all add: answered_state_def idle_def heap_wf_def open_channel_def)

lemma singleline_answered_run:
  assumes "idle s" and "open_channel s" and "env s = [Line i, Line f, Wake] # rest"
    and "strStartsWith i pre" and "\<not> isFinalResponse i" and "isFinalResponseSuccess f"
  shows "\<exists>t. at_send_command_singleline cb c pre (Some q) s = Done (0, Ptr (brk s)) t \<and>
    heap t = (heap s)(brk s \<mapsto> \<lparr>success = 1, finalResponse = Some f, p_intermediates = [i]\<rparr>) \<and>
    chan.more t = chan.more s \<and> idle t \<and> open_channel t \<and> env t = rest"
proof -
  let ?t = "answered_state s c i f rest"
  have "at_send_command_full cb c SINGLELINE (Some pre) None 0 (Some q) s = Done (0, Ptr (brk s)) ?t"
    using answered_run [OF assms, of cb c q] by (simp add: outcome_simps)
  then show ?thesis
    using answered_state_props [OF assms(1,2), of c i f rest]
    by (simp add: at_send_command_singleline_def bindp_apply require_apply)
qed

text \<open>The answer comes, and then the modem goes away.\<close>

lemma singleline_then_closed_run:
  assumes "idle s" and "open_channel s" and "env s = [Line i, Line f, Wake, Closed] # rest"
    and "strStartsWith i pre" and "\<not> isFinalResponse i" and "isFinalResponseSuccess f"
    and k: "onClosed cb = Some k" "\<And>s. \<exists>s'. k s = Done () s' \<and> same_cmd s s' \<and> s_readerClosed s'"
  shows "\<exists>t. at_send_command_singleline cb c pre (Some q) s = Done (0, Ptr (brk s)) t \<and>
    heap t = (heap s)(brk s \<mapsto> \<lparr>success = 1, finalResponse = Some f, p_intermediates = [i]\<rparr>) \<and>
    idle t \<and> s_readerClosed t \<and> \<not> self_reader t \<and> rx t = []"
proof -
  define u where "u = answered_state s c i f rest"
  have u: "at_send_command_full cb c SINGLELINE (Some pre) None 0 (Some q) s =
      bindp (reader_events cb [Closed]) (\<lambda>_. ret (0, Ptr (brk s))) u"
    "heap u = (heap s)(brk s \<mapsto> \<lparr>success = 1, finalResponse = Some f, p_intermediates = [i]\<rparr>)"
    "idle u" "open_channel u"
    using answered_run [OF assms(1-6), of cb c q] answered_state_props [OF assms(1,2)]
    by (simp_all add: u_def)
  obtain v where v: "k (u\<lparr>self_reader := True, s_readerClosed := True\<rparr>) = Done () v"
    "same_cmd (u\<lparr>self_reader := True, s_readerClosed := True\<rparr>) v" "s_readerClosed v"
    using k(2) by blast
  let ?t = "v\<lparr>self_reader := False\<rparr>"
  have full: "at_send_command_full cb c SINGLELINE (Some pre) None 0 (Some q) s = Done (0, Ptr (brk s)) ?t"
    using u(4) v(1) by (simp add: u(1) outcome_simps as_reader_def onReaderClosed_def k(1) open_channel_def)
  have t: "heap ?t = heap u" "idle ?t" "s_readerClosed ?t" "rx ?t = []"
    using v u(3,4) by (auto simp: same_cmd_def idle_def heap_wf_def open_channel_def)
  have h: "heap ?t (brk s) = Some \<lparr>success = 1, finalResponse = Some f, p_intermediates = [i]\<rparr>"
    by (simp add: t(1) u(2))
  show ?thesis
    using t u(2) by (simp add: at_send_command_singleline_def bindp_apply full require_apply(2) [OF h])
qed

text \<open>On a closed channel nothing is sent, and the caller's variable keeps its value.\<close>

lemma singleline_closed_run:
  assumes "idle s" and "s_readerClosed s" and "\<not> self_reader s" and "rx s = []"
  shows "\<exists>t. at_send_command_singleline cb c pre (Some q) s = Done (AT_ERROR_CHANNEL_CLOSED, q) t \<and>
    heap t = heap s \<and> chan.more t = chan.more s \<and> idle t"
proof -
  have "(heap s)(brk s := None) = heap s"
    using assms(1) by (simp add: idle_def heap_wf_def fun_upd_idem)
  then show ?thesis
    using assms by (simp add: at_send_command_singleline_def require_intermediate_def run_defs out_unchanged_def
        split: option.split)
qed

end
