(* ===== verification/RilSim.thy ===== *)
theory RilSim
  imports RilCommands AtRun
begin

section \<open>reference-ril.c: SIM status, radio power and SIM files\<close>

subsection \<open>SIM status\<close>

text \<open>\<open>strcmp\<close> of the \<open>+CPIN\<close> result; \<open>None\<close> is \<open>READY\<close>, where the search goes on.\<close>

definition cpin_status :: "string \<Rightarrow> SIM_Status" where
  "cpin_status cpinResult =
     (if cpinResult = ''SIM PIN'' then SIM_PIN
      else if cpinResult = ''SIM PUK'' then SIM_PUK
      else if cpinResult = ''PH-NET PIN'' then SIM_NETWORK_PERSONALIZATION
      else if cpinResult \<noteq> ''READY'' then SIM_ABSENT
      else SIM_READY)"

definition parse_cpin :: "string \<Rightarrow> string option" where
  "parse_cpin line = do { cur \<leftarrow> tok_start (Some line); (r, _) \<leftarrow> tok_str cur; Some r }"

text \<open>
  \<open>done: at_response_free(p_response); return ret;\<close> ends every path but one: after
  \<open>PH-NET PIN\<close> the function returns without freeing.
\<close>

definition sim_done :: "ptr \<Rightarrow> SIM_Status \<Rightarrow> (ril, SIM_Status) prog" where
  "sim_done p status = seqp (at_response_free p) (ret status)"

text \<open>From \<open>switch (at_get_cme_error(p_response))\<close> on.\<close>

definition sim_answer :: "ptr \<Rightarrow> (ril, SIM_Status) prog" where
  "sim_answer p = bindp (at_get_cme_error p) (\<lambda>cme.
     if cme = CME_SIM_NOT_INSERTED then sim_done p SIM_ABSENT
     else if cme \<noteq> CME_SUCCESS then sim_done p SIM_NOT_READY
     else bindp (first_line p) (\<lambda>line.
       or_goto (parse_cpin line) (sim_done p SIM_NOT_READY) (\<lambda>cpinResult.
         if cpin_status cpinResult = SIM_NETWORK_PERSONALIZATION then ret SIM_NETWORK_PERSONALIZATION
         else sim_done p (cpin_status cpinResult))))"

definition getSIMStatus :: "(ril, SIM_Status) prog" where
  "getSIMStatus = bindp (getp sState) (\<lambda>state.
     if state = RADIO_STATE_OFF \<or> state = RADIO_STATE_UNAVAILABLE then sim_done Null SIM_NOT_READY
     else bindp (send_singleline ''AT+CPIN?'' ''+CPIN:'' Null) (\<lambda>r1.
       bindp (if fst r1 \<noteq> 0 then send_singleline ''AT+CPIN?'' ''+CPIN:'' (snd r1) else ret r1) (\<lambda>r.
       if fst r \<noteq> 0 then sim_done (snd r) SIM_NOT_READY else sim_answer (snd r))))"

text \<open>The rows of \<open>app_status_array\<close>; the members left out are NULL, 0 and UNKNOWN.\<close>

definition app :: "RIL_AppType \<Rightarrow> RIL_AppState \<Rightarrow> RIL_PersoSubstate \<Rightarrow> RIL_PinState \<Rightarrow> RIL_AppStatus" where
  "app ty st ps pin = \<lparr>app_type = ty, app_state = st, perso_substate = ps, pin1 = pin\<rparr>"

definition app_rows :: "RIL_AppType \<Rightarrow> RIL_AppStatus list" where
  "app_rows ty =
     [app RIL_APPTYPE_UNKNOWN RIL_APPSTATE_UNKNOWN RIL_PERSOSUBSTATE_UNKNOWN RIL_PINSTATE_UNKNOWN,
      app ty RIL_APPSTATE_DETECTED RIL_PERSOSUBSTATE_UNKNOWN RIL_PINSTATE_UNKNOWN,
      app ty RIL_APPSTATE_READY RIL_PERSOSUBSTATE_READY RIL_PINSTATE_UNKNOWN,
      app ty RIL_APPSTATE_PIN RIL_PERSOSUBSTATE_UNKNOWN RIL_PINSTATE_ENABLED_NOT_VERIFIED,
      app ty RIL_APPSTATE_PUK RIL_PERSOSUBSTATE_UNKNOWN RIL_PINSTATE_ENABLED_BLOCKED,
      app ty RIL_APPSTATE_SUBSCRIPTION_PERSO RIL_PERSOSUBSTATE_SIM_NETWORK
        RIL_PINSTATE_ENABLED_NOT_VERIFIED]"

definition app_status_array :: "RIL_AppStatus list" where
  "app_status_array = app_rows RIL_APPTYPE_SIM @ app_rows RIL_APPTYPE_RUIM @ app_rows RIL_APPTYPE_ISIM"

text \<open>\<open>app_status_array[i]\<close> and \<open>applications[i] = ...\<close>, within the bounds of the arrays.\<close>

definition app_status_at :: "RIL_AppStatus list \<Rightarrow> nat \<Rightarrow> (ril, RIL_AppStatus) prog" where
  "app_status_at table i = (if i < length table then ret (table ! i) else failp OutOfBounds)"

definition set_application ::
  "nat \<Rightarrow> RIL_AppStatus \<Rightarrow> 'z RIL_CardStatus_v5_scheme \<Rightarrow> (ril, 'z RIL_CardStatus_v5_scheme) prog" where
  "set_application i a cs = (if i < length (applications cs)
     then ret (cs\<lparr>applications := (applications cs)[i := a]\<rparr>) else failp OutOfBounds)"

text \<open>\<open>maxApps\<close> is \<open>RIL_CARD_MAX_APPS\<close> of \<open>ril.h\<close>.\<close>

definition fill_card_V12 :: "nat \<Rightarrow> SIM_Status \<Rightarrow> (ril, RIL_CardStatus_v6) prog" where
  "fill_card_V12 maxApps sim_status =
     (let absent = sim_status = SIM_ABSENT;
          cs = \<lparr>card_state = (if absent then RIL_CARDSTATE_ABSENT else RIL_CARDSTATE_PRESENT),
           universal_pin_state = RIL_PINSTATE_UNKNOWN, gsm_umts_subscription_app_index = -1,
           cdma_subscription_app_index = -1, num_applications = (if absent then 0 else 3),
           applications = replicate maxApps (app_status_array ! sim_num SIM_ABSENT),
           ims_subscription_app_index = -1\<rparr>
      in if absent then ret cs
         else
          bindp (app_status_at app_status_array (sim_num sim_status)) (\<lambda>a0.
          bindp (app_status_at app_status_array (sim_num sim_status + sim_num RUIM_ABSENT)) (\<lambda>a1.
          bindp (app_status_at app_status_array (sim_num sim_status + sim_num ISIM_ABSENT)) (\<lambda>a2.
          bindp (set_application 0 a0 (cs\<lparr>num_applications := 3, gsm_umts_subscription_app_index := 0,
              cdma_subscription_app_index := 1, ims_subscription_app_index := 2\<rparr>)) (\<lambda>cs.
          bindp (set_application 1 a1 cs) (\<lambda>cs.
          set_application 2 a2 cs))))))"

definition getCardStatusV12 :: "nat \<Rightarrow> (ril, RIL_CardStatus_v6) prog" where
  "getCardStatusV12 maxApps = bindp getSIMStatus (fill_card_V12 maxApps)"

text \<open>The variants for older frameworks report one application.\<close>

definition getCardStatusV5 :: "nat \<Rightarrow> (ril, RIL_CardStatus_v5) prog" where
  "getCardStatusV5 maxApps = bindp getSIMStatus (\<lambda>sim_status.
     let absent = sim_status = SIM_ABSENT;
         cs = \<lparr>card_state = (if absent then RIL_CARDSTATE_ABSENT else RIL_CARDSTATE_PRESENT),
           universal_pin_state = RIL_PINSTATE_UNKNOWN, gsm_umts_subscription_app_index = int maxApps,
           cdma_subscription_app_index = int maxApps, num_applications = (if absent then 0 else 1),
           applications = replicate maxApps (app_rows RIL_APPTYPE_SIM ! sim_num SIM_ABSENT)\<rparr>
     in if absent then ret cs
        else bindp (app_status_at (app_rows RIL_APPTYPE_SIM) (sim_num sim_status)) (\<lambda>a0.
          set_application 0 a0 (cs\<lparr>num_applications := 1, gsm_umts_subscription_app_index := 0\<rparr>)))"

definition getCardStatusV6 :: "nat \<Rightarrow> (ril, RIL_CardStatus_v6) prog" where
  "getCardStatusV6 maxApps = bindp getSIMStatus (\<lambda>sim_status.
     let absent = sim_status = SIM_ABSENT;
         cs = \<lparr>card_state = (if absent then RIL_CARDSTATE_ABSENT else RIL_CARDSTATE_PRESENT),
           universal_pin_state = RIL_PINSTATE_UNKNOWN, gsm_umts_subscription_app_index = int maxApps,
           cdma_subscription_app_index = int maxApps, num_applications = (if absent then 0 else 1),
           applications = replicate maxApps (app_rows RIL_APPTYPE_SIM ! sim_num SIM_ABSENT),
           ims_subscription_app_index = int maxApps\<rparr>
     in if absent then ret cs
        else bindp (app_status_at (app_rows RIL_APPTYPE_SIM) (sim_num sim_status)) (\<lambda>a0.
          set_application 0 a0 (cs\<lparr>num_applications := 1, gsm_umts_subscription_app_index := 0\<rparr>)))"

subsection \<open>Radio power\<close>

definition onSIMReady :: "(ril, unit) prog" where
  "onSIMReady =
     bindp (at_send_command_singleline ril_cb ''AT+CSMS=1'' ''+CSMS:'' None) (\<lambda>_.
     send_ignored ''AT+CNMI=1,2,2,1,1'')"

definition pollSIMState :: "(ril, unit) prog" where
  "pollSIMState = bindp (getp sState) (\<lambda>state.
     if state \<noteq> RADIO_STATE_UNAVAILABLE then ret ()
     else bindp getSIMStatus (\<lambda>status.
       if status = SIM_NOT_READY then RIL_requestTimedCallback Callback_pollSIMState 1000000
       else if status = SIM_READY then
         seqp onSIMReady (RIL_onUnsolicitedResponse RIL_UNSOL_RESPONSE_SIM_STATUS_CHANGED Nothing)
       else RIL_onUnsolicitedResponse RIL_UNSOL_RESPONSE_SIM_STATUS_CHANGED Nothing))"

definition onRadioPowerOn :: "(ril, unit) prog" where
  "onRadioPowerOn = pollSIMState"

definition setRadioState :: "RIL_RadioState \<Rightarrow> (ril, unit) prog" where
  "setRadioState newState = setRadioState_with onRadioPowerOn newState"

text \<open>\<open>1\<close> if on, \<open>0\<close> if off, \<open>-1\<close> on error\<close>

definition parse_cfun :: "string \<Rightarrow> int option" where
  "parse_cfun line = do { cur \<leftarrow> tok_start (Some line); (b, _) \<leftarrow> tok_bool cur; Some b }"

definition isRadioOn :: "(ril, int) prog" where
  "isRadioOn = bindp (send_singleline ''AT+CFUN?'' ''+CFUN:'' Null) (\<lambda>r.
     bindp (rejected r) (\<lambda>bad.
       if bad then seqp (at_response_free (snd r)) (ret (-1))
       else bindp (first_line (snd r)) (\<lambda>line.
         seqp (at_response_free (snd r))
           (ret (case parse_cfun line of None \<Rightarrow> -1 | Some b \<Rightarrow> b)))))"

definition power_off :: "RIL_Token \<Rightarrow> (ril, unit) prog" where
  "power_off t = bindp (send_command ''AT+CFUN=4'' Null) (\<lambda>r. bindp (rejected r) (\<lambda>bad.
     if bad then free_complete t RIL_E_GENERIC_FAILURE Nothing (snd r)
     else seqp (setRadioState RADIO_STATE_OFF) (free_complete t RIL_E_SUCCESS Nothing (snd r))))"

definition power_on :: "RIL_Token \<Rightarrow> (ril, unit) prog" where
  "power_on t = bindp (send_command ''AT+CFUN=1'' Null) (\<lambda>r. bindp (rejected r) (\<lambda>bad.
     bindp (if bad then isRadioOn else ret 1) (\<lambda>on.
       if on \<noteq> 1 then free_complete t RIL_E_GENERIC_FAILURE Nothing (snd r)
       else seqp (setRadioState RADIO_STATE_ON) (free_complete t RIL_E_SUCCESS Nothing (snd r)))))"

definition requestRadioPower :: "rdata \<Rightarrow> nat \<Rightarrow> RIL_Token \<Rightarrow> (ril, unit) prog" where
  "requestRadioPower data datalen t =
     (if datalen < pointer_size then failp AssertFailed
      else bindp (int_arg data 0) (\<lambda>onOff. bindp (getp sState) (\<lambda>state.
        if onOff = 0 \<and> state \<noteq> RADIO_STATE_OFF then power_off t
        else if onOff > 0 \<and> state = RADIO_STATE_OFF then power_on t
        else free_complete t RIL_E_SUCCESS Nothing Null)))"

subsection \<open>SIM files and PINs\<close>

definition sim_io_arg :: "rdata \<Rightarrow> (ril, RIL_SIM_IO) prog" where
  "sim_io_arg d = (case d of
      Sim_io_data a \<Rightarrow> ret a | No_data \<Rightarrow> failp NullDeref | _ \<Rightarrow> failp WildPointer)"

fun comma_join :: "string list \<Rightarrow> string" where
  "comma_join [] = []"
| "comma_join [x] = x"
| "comma_join (x # y # xs) = x @ '','' @ comma_join (y # xs)"

text \<open>The parse of a \<open>+CRSM\<close> line; \<open>old\<close> is \<open>sr.simResponse\<close> before.\<close>

definition parse_crsm :: "string option \<Rightarrow> string \<Rightarrow> RIL_SIM_IO_Response option" where
  "parse_crsm old line = do {
     cur \<leftarrow> tok_start (Some line);
     (a, cur) \<leftarrow> tok_int cur;
     (b, cur) \<leftarrow> tok_int cur;
     if at_tok_hasmore cur
     then do { (x, _) \<leftarrow> tok_str cur; Some \<lparr>sw1 = a, sw2 = b, simResponse = Some x\<rparr> }
     else Some \<lparr>sw1 = a, sw2 = b, simResponse = old\<rparr>
   }"

definition READ_BINARY_BLOCK_LEN :: int where "READ_BINARY_BLOCK_LEN = 255"

text \<open>The \<open>pos\<close> and \<open>length\<close> of each round of the loop of \<open>requestReadBinary\<close>.\<close>

function read_blocks :: "int \<Rightarrow> int \<Rightarrow> (int \<times> int) list" where
  "read_blocks pos remain =
     (let len = (if remain \<le> READ_BINARY_BLOCK_LEN then remain else READ_BINARY_BLOCK_LEN)
      in (pos, len) # (if remain - len \<le> 0 then [] else read_blocks (pos + len) (remain - len)))"
  by pat_completeness auto
termination
  by (relation "measure (\<lambda>(_, remain). nat remain)") (auto simp: READ_BINARY_BLOCK_LEN_def)

declare read_blocks.simps [simp del]

text \<open>\<open>strcat(readBinaryResult, x)\<close> into a block that holds \<open>room\<close> characters.\<close>

definition append_result :: "int \<Rightarrow> string option \<Rightarrow> (ril, unit) prog" where
  "append_result room x = (case x of
      None \<Rightarrow> ret ()
    | Some y \<Rightarrow> bindp (getp readBinaryResult) (\<lambda>old. bindp (non_null old) (\<lambda>buf.
        if int (length buf + length y) \<le> room
        then modp (\<lambda>s. s\<lparr>readBinaryResult := Some (buf @ y)\<rparr>)
        else failp OutOfBounds)))"

definition read_failed :: "RIL_Token \<Rightarrow> ptr \<Rightarrow> (ril, unit) prog" where
  "read_failed t p = seqp (complete_free t RIL_E_GENERIC_FAILURE Nothing p)
     (modp (\<lambda>s. s\<lparr>readBinaryResult := None\<rparr>))"

fun read_loop ::
  "RIL_SIM_IO \<Rightarrow> RIL_Token \<Rightarrow> (int \<times> int) list \<Rightarrow> ptr \<Rightarrow> RIL_SIM_IO_Response \<Rightarrow> (ril, unit) prog" where
  "read_loop a t [] p sr = bindp (getp readBinaryResult) (\<lambda>x.
     complete_free t RIL_E_SUCCESS (Sim_io (sr\<lparr>simResponse := x\<rparr>)) p)"
| "read_loop a t ((pos, len) # blocks) p sr =
     bindp (send_singleline (''AT+CRSM='' @ comma_join [print_d (sim_command a), print_d (sim_fileid a),
        print_d (drop_bit 8 pos), print_d (and pos 0xff), print_d len]) ''+CRSM:'' p) (\<lambda>r.
     bindp (rejected r) (\<lambda>bad.
       if bad then read_failed t (snd r)
       else bindp (first_line (snd r)) (\<lambda>line.
         or_goto (parse_crsm (simResponse sr) line) (read_failed t (snd r)) (\<lambda>sr.
           seqp (append_result (sim_p3 a * 2) (simResponse sr))
             (read_loop a t blocks (snd r) sr)))))"

definition requestReadBinary :: "RIL_SIM_IO \<Rightarrow> RIL_Token \<Rightarrow> (ril, unit) prog" where
  "requestReadBinary a t =
     (if sim_p3 a < 0 then failp NullDeref
      else seqp (modp (\<lambda>s. s\<lparr>readBinaryResult := Some []\<rparr>))
        (read_loop a t (read_blocks (or (push_bit 8 (sim_p1 a)) (sim_p2 a)) (sim_p3 a)) Null
          \<lparr>sw1 = 0, sw2 = 0, simResponse = None\<rparr>))"

text \<open>The rewriting of \<open>GET RESPONSE\<close> answers for the framework.\<close>

definition to_gsm_response :: "RIL_SIM_IO \<Rightarrow> RIL_SIM_IO_Response \<Rightarrow> (ril, RIL_SIM_IO_Response) prog" where
  "to_gsm_response a sr =
     (let sr = (if sim_command a = 0xc0 \<and> sw1 sr = 0x69 \<and> sw2 sr = 0x85 \<and> sim_fileid a = 0x2fe2
                then \<lparr>sw1 = 0x90, sw2 = 0x00,
                      simResponse = Some ''62178202412183022FE28A01058B032F06038002000A880110''\<rparr>
                else sr)
      in if sim_command a = 0xc0 \<and> sw1 sr = 0x90 \<and> sw2 sr = 0x00 then
           (case simResponse sr of
              None \<Rightarrow> ret (sr\<lparr>simResponse :=
                Some ''621982054221001CFA83026F3A8A01058B036F060D80021B588800''\<rparr>)
            | Some fcp \<Rightarrow> (\<lambda>s. (case convertUSimFcp 256 (char_signed s) (fcp_heap s) (fcp_stack s) fcp of
                Fcp_text out \<Rightarrow> Done (sr\<lparr>simResponse := Some out\<rparr>) (s\<lparr>getResponseResult := out\<rparr>)
              | Fcp_overread \<Rightarrow> Fault OutOfBounds s
              | Fcp_running \<Rightarrow> Blocked s)))
         else ret sr)"

definition crsm_command :: "RIL_SIM_IO \<Rightarrow> string" where
  "crsm_command a = ''AT+CRSM='' @ comma_join ([print_d (sim_command a), print_d (sim_fileid a),
     print_d (sim_p1 a), print_d (sim_p2 a), print_d (sim_p3 a)] @
     (case sim_data a of None \<Rightarrow> [] | Some d \<Rightarrow> [d]))"

definition requestSIM_IO :: "rdata \<Rightarrow> RIL_Token \<Rightarrow> (ril, unit) prog" where
  "requestSIM_IO data t = bindp (sim_io_arg data) (\<lambda>args.
     if sim_command args = 0xB0 then requestReadBinary args t
     else
       let a = (if sim_command args = 0xC0 then args\<lparr>sim_p3 := 255\<rparr> else args)
       in bindp (send_singleline (crsm_command a) ''+CRSM:'' Null) (\<lambda>r.
          bindp (rejected r) (\<lambda>bad.
            if bad then complete_free t RIL_E_GENERIC_FAILURE Nothing (snd r)
            else bindp (first_line (snd r)) (\<lambda>line.
              or_goto (parse_crsm None line) (complete_free t RIL_E_GENERIC_FAILURE Nothing (snd r)) (\<lambda>sr.
                bindp (to_gsm_response a sr) (\<lambda>sr.
                  complete_free t RIL_E_SUCCESS (Sim_io sr) (snd r)))))))"

text \<open>\<open>%s\<close> of a string that may be NULL\<close>

definition show_s :: "string option \<Rightarrow> string" where
  "show_s x = (case x of None \<Rightarrow> ''(null)'' | Some y \<Rightarrow> y)"

definition requestEnterSimPin :: "rdata \<Rightarrow> nat \<Rightarrow> RIL_Token \<Rightarrow> (ril, unit) prog" where
  "requestEnterSimPin data datalen t =
     (if datalen = pointer_size \<or> datalen = 2 * pointer_size then
        bindp (string_arg data 0) (\<lambda>pin.
        bindp (if datalen = pointer_size then ret [] else
            bindp (string_arg data 1) (\<lambda>pin2. ret ('','' @ show_s pin2))) (\<lambda>more.
        bindp (send_singleline (''AT+CPIN='' @ show_s pin @ more) ''+CPIN:'' Null) (\<lambda>r.
        bindp (rejected r) (\<lambda>bad.
          complete_free t (if bad then RIL_E_PASSWORD_INCORRECT else RIL_E_SUCCESS) (Ints [100]) (snd r)))))
      else complete_free t RIL_E_PASSWORD_INCORRECT Uninitialised_int Null)"

subsection \<open>What these functions do\<close>

text \<open>A response variable that may be freed.\<close>

definition live :: "ptr \<Rightarrow> ril \<Rightarrow> bool" where
  "live p t \<longleftrightarrow> p = Null \<or> (\<exists>a x. p = Ptr a \<and> heap t a = Some x)"

lemma holds_live: "holds p s t \<Longrightarrow> live p t"
  by (auto simp: holds_def live_def)

lemma quiet_heap [simp]: "quiet s (t\<lparr>heap := h\<rparr>) = quiet s t"
  by (simp add: quiet_def)

lemma sim_done_safe:
  assumes "live p t" and "ready B n t" and "quiet s t"
  shows "safe B (sim_done p x) t (\<lambda>y u. y = x \<and> ready B n u \<and> quiet s u)"
proof -
  obtain h where "at_response_free p t = Done () (t\<lparr>heap := h\<rparr>)" and "\<And>a. heap t a = None \<Longrightarrow> h a = None"
    using assms(1) that [of "heap t"] that [of "(heap t)(_ := None)"]
    by (auto simp: live_def at_response_free_def)
  then show ?thesis
    using assms by (simp add: sim_done_def safe_seq_Done ready_heap)
qed

lemma at_get_cme_error_held:
  "heap t a = Some x \<Longrightarrow> at_get_cme_error (Ptr a) t =
     Done (if success x > 0 then CME_SUCCESS
           else case finalResponse x of None \<Rightarrow> CME_ERROR_NON_CME | Some l \<Rightarrow> cme_of_line l) t"
  by (simp add: at_get_cme_error_def deref_def outcome_simps split: option.split)

text \<open>
  A final response \<open>+CME ERROR: 0\<close> makes \<open>at_get_cme_error\<close> return \<open>CME_SUCCESS\<close> for a
  command that failed.
\<close>

definition no_cme_success :: "ril \<Rightarrow> bool" where
  "no_cme_success s \<longleftrightarrow> (\<forall>l. Line l \<in> pending_events s \<longrightarrow> cme_of_line l \<noteq> CME_SUCCESS)"

lemma sim_answer_safe:
  assumes x: "heap t a = Some x" "final_from u x" "success x > 0 \<longrightarrow> p_intermediates x \<noteq> []"
    and n: "no_cme_success u" and t: "ready B n t" "quiet s t"
  shows "safe B (sim_answer (Ptr a)) t (\<lambda>y v. sim_num y \<le> 5 \<and> ready B n v \<and> quiet s v)"
proof -
  obtain l where "finalResponse x = Some l" "cme_of_line l \<noteq> CME_SUCCESS"
    using x(2) n by (auto simp: final_from_def no_cme_success_def)
  moreover have fin: "safe B (sim_done (Ptr a) y) t (\<lambda>y v. sim_num y \<le> 5 \<and> ready B n v \<and> quiet s v)"
    if "sim_num y \<le> 5" for y
    by (rule safe_mono, rule sim_done_safe [OF _ t]) (use x(1) that in \<open>auto simp: live_def\<close>)
  moreover have "sim_num (cpin_status r) \<le> 5" for r
    by (simp add: cpin_status_def)
  moreover have "CME_SIM_NOT_INSERTED \<noteq> CME_SUCCESS"
    by (simp add: CME_SIM_NOT_INSERTED_def CME_SUCCESS_def)
  moreover obtain m ms where "success x > 0 \<Longrightarrow> p_intermediates x = m # ms"
    using x(3) by (cases "p_intermediates x") auto
  ultimately show ?thesis
    unfolding sim_answer_def safe_bind_Done [where m = "at_get_cme_error (Ptr a)", OF at_get_cme_error_held [OF x(1)]]
    by (cases "success x > 0") (auto simp: held_simps(2) [OF x(1)] or_goto_def t split: option.split)
qed

lemma getSIMStatus_safe:
  assumes rd: "ready B (Suc (Suc n)) s" and n: "no_cme_success s"
  shows "safe B getSIMStatus s (\<lambda>status t. sim_num status \<le> 5 \<and> ready B n t \<and> quiet s t)"
proof (cases "sState s = RADIO_STATE_OFF \<or> sState s = RADIO_STATE_UNAVAILABLE")
  case True
  then show ?thesis
    using ready_mono [OF rd, of n] sim_done_safe [of Null s B n s SIM_NOT_READY]
    by (auto simp: getSIMStatus_def live_def intro: safe_mono)
next
  case False
  define k where "k r = (if fst r \<noteq> 0 then sim_done (snd r) SIM_NOT_READY else sim_answer (snd r))"
    for r :: "int \<times> ptr"
  let ?good = "\<lambda>r. resp_ok SINGLELINE (Some ''+CPIN:'') r \<and> (success r > 0 \<longrightarrow> p_intermediates r \<noteq> [])"
  let ?P = "\<lambda>status t. sim_num status \<le> 5 \<and> ready B n t \<and> quiet s t"
  have answered: "safe B (k r) t ?P"
    if h: "handed_out ?good q (fst r) (snd r) u t" and q: "live q u" "no_cme_success u"
      and t: "ready B n t" "quiet s t" for r q u t
  proof (cases "fst r = 0")
    case True
    then obtain a x where "snd r = Ptr a" "heap t a = Some x" "final_from u x"
      "success x > 0 \<longrightarrow> p_intermediates x \<noteq> []"
      using h by (auto simp: handed_out_def)
    then show ?thesis
      using True q t by (simp add: k_def sim_answer_safe)
  next
    case False
    then have "live (snd r) t"
      using h q by (auto simp: handed_out_def live_def)
    then show ?thesis
      using False t sim_done_safe [of "snd r" t B n s SIM_NOT_READY]
      by (auto simp: k_def intro: safe_mono)
  qed
  have "safe B (bindp (send_singleline ''AT+CPIN?'' ''+CPIN:'' Null)
      (\<lambda>r1. bindp (if fst r1 \<noteq> 0 then send_singleline ''AT+CPIN?'' ''+CPIN:'' (snd r1) else ret r1) k)) s ?P"
  proof (rule safe_bind [OF ril.singleline.send_triple [OF rd]])
    fix r1 t
    assume t: "ready B (Suc n) t \<and> frame_ok s t \<and> quiet s t \<and> handed_out ?good Null (fst r1) (snd r1) s t"
    then have nt: "no_cme_success t"
      using n by (auto simp: no_cme_success_def frame_ok_def)
    show "safe B (bindp (if fst r1 \<noteq> 0 then send_singleline ''AT+CPIN?'' ''+CPIN:'' (snd r1) else ret r1) k) t ?P"
    proof (cases "fst r1 = 0")
      case True
      then show ?thesis
        using answered [of Null r1 s t] t n ready_mono [of B "Suc n" t n] by (simp add: live_def)
    next
      case False
      then have l: "live (snd r1) t"
        using t by (auto simp: handed_out_def live_def)
      have "safe B (bindp (send_singleline ''AT+CPIN?'' ''+CPIN:'' (snd r1)) k) t ?P"
      proof (rule safe_bind [OF ril.singleline.send_triple])
        show "ready B (Suc n) t" using t by simp
        fix r v
        assume "ready B n v \<and> frame_ok t v \<and> quiet t v \<and> handed_out ?good (snd r1) (fst r) (snd r) t v"
        then show "safe B (k r) v ?P"
          using t l nt by (intro answered [of "snd r1" r t v]) (auto intro: quiet_trans)
      qed
      then show ?thesis using False by simp
    qed
  qed
  then show ?thesis
    using False unfolding getSIMStatus_def k_def by simp
qed

text \<open>The card handed to the framework.\<close>

definition card_for :: "nat \<Rightarrow> SIM_Status \<Rightarrow> RIL_CardStatus_v6" where
  "card_for maxApps x =
     (if x = SIM_ABSENT then
        \<lparr>card_state = RIL_CARDSTATE_ABSENT, universal_pin_state = RIL_PINSTATE_UNKNOWN,
         gsm_umts_subscription_app_index = -1, cdma_subscription_app_index = -1,
         num_applications = 0, applications = replicate maxApps (app_status_array ! 0),
         ims_subscription_app_index = -1\<rparr>
      else
        \<lparr>card_state = RIL_CARDSTATE_PRESENT, universal_pin_state = RIL_PINSTATE_UNKNOWN,
         gsm_umts_subscription_app_index = 0, cdma_subscription_app_index = 1,
         num_applications = 3,
         applications = [app_rows RIL_APPTYPE_SIM ! sim_num x, app_rows RIL_APPTYPE_RUIM ! sim_num x,
             app_rows RIL_APPTYPE_ISIM ! sim_num x] @ replicate (maxApps - 3) (app_status_array ! 0),
         ims_subscription_app_index = 2\<rparr>)"

lemma app_rows_length: "length (app_rows ty) = 6"
  by (simp add: app_rows_def)

lemma app_table_at:
  "k \<le> 5 \<Longrightarrow> app_status_array ! k = app_rows RIL_APPTYPE_SIM ! k"
  "k \<le> 5 \<Longrightarrow> app_status_array ! (k + 6) = app_rows RIL_APPTYPE_RUIM ! k"
  "k \<le> 5 \<Longrightarrow> app_status_array ! (k + 12) = app_rows RIL_APPTYPE_ISIM ! k"
  by (simp_all add: app_status_array_def app_rows_length nth_append)

lemma fill_card_V12:
  assumes "sim_num x \<le> 5" and "3 \<le> maxApps"
  shows "fill_card_V12 maxApps x = ret (card_for maxApps x)"
proof (cases "x = SIM_ABSENT")
  case True
  then show ?thesis by (simp add: fill_card_V12_def card_for_def)
next
  case False
  have m: "maxApps = Suc (Suc (Suc (maxApps - 3)))"
    using assms(2) by simp
  have len: "length app_status_array = 18"
    unfolding app_status_array_def length_append app_rows_length by simp
  have at: "app_status_at app_status_array k = ret (app_status_array ! k)" if "k < 18" for k
    using that by (simp add: app_status_at_def len)
  have set: "set_application i a cs = ret (cs\<lparr>applications := (applications cs)[i := a]\<rparr>)"
    if "i < length (applications cs)" for i a and cs :: RIL_CardStatus_v6
    using that by (simp add: set_application_def)
  have l: "(replicate maxApps z)[0 := a, Suc 0 := b, 2 := c] = [a, b, c] @ replicate (maxApps - 3) z"
    for a b c z :: RIL_AppStatus
    by (subst m) (simp add: numeral_2_eq_2)
  have n: "sim_num x < 18" "sim_num x + 6 < 18" "sim_num x + 12 < 18"
    using assms(1) by simp_all
  show ?thesis
    using False assms
    by (simp add: fill_card_V12_def Let_def at [OF n(1)] at [OF n(2)] at [OF n(3)] set card_for_def l
        app_table_at)
qed

lemma getCardStatusV12_safe:
  assumes "ready B (Suc (Suc n)) s" and "no_cme_success s" and "3 \<le> maxApps"
  shows "safe B (getCardStatusV12 maxApps) s (\<lambda>cs t. ready B n t \<and> quiet s t \<and>
    (\<exists>x. sim_num x \<le> 5 \<and> cs = card_for maxApps x))"
  unfolding getCardStatusV12_def
  by (rule safe_bind [OF getSIMStatus_safe [OF assms(1,2)]])
    (use assms(3) in \<open>auto simp: fill_card_V12\<close>)

subsection \<open>What the answers of the modem mean\<close>

text \<open>A result of \<open>AT+CPIN?\<close> that is not in quotes and has no second field.\<close>

definition plain_word :: "string \<Rightarrow> bool" where
  "plain_word w \<longleftrightarrow> w \<noteq> [] \<and> \<not> isspace (hd w) \<and> hd w \<noteq> CHR 0x22 \<and> CHR '','' \<notin> set w"

lemma tok_str_word: "plain_word w \<Longrightarrow> tok_str (Some (CHR '' '' # w)) = Some (w, None)"
  by (simp add: plain_word_def tok_or_goto_def at_tok_nextstr_def nextTok_blank nextTok_plain_end isspace_def)

lemma parse_cpin_word: "plain_word w \<Longrightarrow> parse_cpin (''+CPIN: '' @ w) = Some w"
  using tok_str_word [of w] by (simp add: parse_cpin_def tok_start_def at_tok_start_def strchr_def)

lemma cpin_line: "strStartsWith (''+CPIN: '' @ w) ''+CPIN:''" "\<not> isFinalResponse (''+CPIN: '' @ w)"
  by (simp_all add: isFinalResponse_def isFinalResponseSuccess_def isFinalResponseError_def
      s_finalResponsesSuccess_def s_finalResponsesError_def strStartsWith_prefix)

lemma idle_freed:
  assumes "idle t" and "heap t = (heap s)(a \<mapsto> r)" and "heap s a = None"
  shows "idle (t\<lparr>heap := heap s\<rparr>)"
proof -
  have "heap s b = None" if "brk t \<le> b" for b
    using assms that by (cases "b = a") (auto simp: idle_def heap_wf_def dest: spec [of _ b])
  then show ?thesis
    using assms(1) by (simp add: idle_def heap_wf_def)
qed

text \<open>The response stays allocated after \<open>PH-NET PIN\<close>, and only then.\<close>

lemma sim_status_answered:
  assumes "idle s" and "open_channel s" and "sState s \<notin> {RADIO_STATE_OFF, RADIO_STATE_UNAVAILABLE}"
    and "env s = [Line (''+CPIN: '' @ w), Line f, Wake] # rest" and "isFinalResponseSuccess f" and "plain_word w"
  shows "\<exists>t. getSIMStatus s = Done (cpin_status w) t \<and> chan.more t = chan.more s \<and> idle t \<and> env t = rest \<and>
    (heap t = heap s \<longleftrightarrow> w \<noteq> ''PH-NET PIN'')"
proof -
  define i where "i = ''+CPIN: '' @ w"
  let ?r = "\<lparr>success = 1, finalResponse = Some f, p_intermediates = [i]\<rparr>"
  note line = assms(4) [folded i_def] cpin_line [of w, folded i_def] parse_cpin_word [OF assms(6), folded i_def]
  obtain t where t: "send_singleline ''AT+CPIN?'' ''+CPIN:'' Null s = Done (0, Ptr (brk s)) t"
    "heap t = (heap s)(brk s \<mapsto> ?r)" "chan.more t = chan.more s" "idle t" "env t = rest"
    using singleline_answered_run [OF assms(1,2) line(1-3) assms(5), of ril_cb "''AT+CPIN?''" Null] by auto
  have h: "heap t (brk s) = Some ?r" by (simp add: t(2))
  have free: "heap s (brk s) = None" using assms(1) by (simp add: idle_def heap_wf_def)
  then have "(heap s)(brk s := None) = heap s" by (simp add: fun_upd_idem)
  moreover have "cpin_status w = SIM_NETWORK_PERSONALIZATION \<longleftrightarrow> w = ''PH-NET PIN''"
    by (simp add: cpin_status_def)
  moreover have "(heap s)(brk s \<mapsto> ?r) \<noteq> heap s"
    using free by (metis fun_upd_same option.distinct(1))
  moreover have "idle (t\<lparr>heap := heap s\<rparr>)"
    by (rule idle_freed [OF t(4,2) free])
  ultimately show ?thesis
    using t assms(3) line(4)
    by (auto simp: CME_SUCCESS_def CME_SIM_NOT_INSERTED_def cpin_status_def getSIMStatus_def bindp_apply t(1) sim_answer_def at_get_cme_error_def
       or_goto_def sim_done_def at_response_free_def deref_def h outcome_simps first_line_def)
qed

lemma card_answered:
  assumes "idle s" and "open_channel s" and "sState s \<notin> {RADIO_STATE_OFF, RADIO_STATE_UNAVAILABLE}"
    and "env s = [Line (''+CPIN: '' @ w), Line f, Wake] # rest" and "isFinalResponseSuccess f" and "plain_word w"
    and "3 \<le> maxApps"
  shows "\<exists>t. getCardStatusV12 maxApps s = Done (card_for maxApps (cpin_status w)) t \<and>
    chan.more t = chan.more s \<and> idle t \<and> env t = rest \<and> (heap t = heap s \<longleftrightarrow> w \<noteq> ''PH-NET PIN'')"
proof -
  have "sim_num (cpin_status w) \<le> 5" by (simp add: cpin_status_def)
  then show ?thesis
    using sim_status_answered [OF assms(1-6)] assms(7)
    by (auto simp: getCardStatusV12_def bindp_apply fill_card_V12 ret_apply)
qed

lemma cme_of_code: "int32 k \<Longrightarrow> cme_of_line (''+CME ERROR: '' @ print_d k) = k"
proof -
  assume "int32 k"
  have "tok_int (Some (print_d k)) = Some (k, None)"
    using \<open>int32 k\<close> print_d_plain [of k] 
    by (simp add: tok_or_goto_def at_tok_nextint_def at_tok_nextint_base_def nextTok_plain_end
        scan_number_print_d strtol_val_int32)
  then show ?thesis
    by (simp add: cme_of_line_def strStartsWith_prefix tok_start_def at_tok_start_def strchr_def
      tok_int_blank isspace_def)
qed

lemma card_refused:
  assumes "idle s" and "open_channel s" and "sState s \<notin> {RADIO_STATE_OFF, RADIO_STATE_UNAVAILABLE}"
    and "env s = [Line (''+CME ERROR: '' @ print_d k), Wake] # rest" and "int32 k" and "3 \<le> maxApps"
  shows "if k = 0 then \<exists>t. getCardStatusV12 maxApps s = Fault NullDeref t
    else \<exists>t. getCardStatusV12 maxApps s = Done (card_for maxApps (if k = 10 then SIM_ABSENT else SIM_NOT_READY)) t \<and>
      chan.more t = chan.more s \<and> idle t \<and> env t = rest \<and> heap t = heap s"
proof -
  define l where "l = ''+CME ERROR: '' @ print_d k"
  let ?r = "\<lparr>success = 0, finalResponse = Some l, p_intermediates = []\<rparr>"
  have cme: "cme_of_line l = k"
    by (simp add: l_def cme_of_code [OF assms(5), simplified])
  have "isFinalResponseError l"
    by (simp add: l_def isFinalResponseError_def s_finalResponsesError_def strStartsWith_prefix)
  then obtain t where t: "send_singleline ''AT+CPIN?'' ''+CPIN:'' Null s = Done (0, Ptr (brk s)) t"
    "heap t = (heap s)(brk s \<mapsto> ?r)" "chan.more t = chan.more s" "idle t" "env t = rest"
    using singleline_refused_run [OF assms(1,2) assms(4) [folded l_def], of ril_cb "''AT+CPIN?''" "''+CPIN:''" Null] by auto
  have h: "heap t (brk s) = Some ?r" by (simp add: t(2))
  have free: "heap s (brk s) = None" using assms(1) by (simp add: idle_def heap_wf_def)
  then have same: "(heap s)(brk s := None) = heap s" by (simp add: fun_upd_idem)
  have "idle (t\<lparr>heap := heap s\<rparr>)"
    by (rule idle_freed [OF t(4,2) free])
  then show ?thesis
    using t same assms(3,6)
    by (simp add: getCardStatusV12_def getSIMStatus_def bindp_apply t(1) sim_answer_def at_get_cme_error_def
       cme CME_SUCCESS_def CME_SIM_NOT_INSERTED_def fill_card_V12
       sim_done_def at_response_free_def deref_def h outcome_simps first_line_def)
qed

text \<open>
  Polling for the SIM.  In this configuration it runs only while the radio is unavailable, and
  then \<open>getSIMStatus\<close> does not ask the modem: it reschedules itself.
\<close>

lemma pollSIMState_run:
  "pollSIMState s = Done () (if sState s = RADIO_STATE_UNAVAILABLE
     then s\<lparr>rlog := rlog s @ [RequestTimedCallback Callback_pollSIMState 1000000]\<rparr> else s)"
  by (simp add: pollSIMState_def getSIMStatus_def sim_done_def at_response_free_def out_defs outcome_simps)

lemma setRadioState_run:
  "setRadioState new s = Done ()
     (let new = (if s_closed s then RADIO_STATE_UNAVAILABLE else new)
      in if new = sState s then s
         else s\<lparr>sState := new, rlog := rlog s @
           [OnUnsolicitedResponse RIL_UNSOL_RESPONSE_RADIO_STATE_CHANGED Nothing,
            OnUnsolicitedResponse RIL_UNSOL_RESPONSE_SIM_STATUS_CHANGED Nothing]\<rparr>)"
  by (simp add: setRadioState_def setRadioState_apply onRadioPowerOn_def pollSIMState_run Let_def)

lemma setRadioState_then:
  assumes "holds p s u" and "ready B n u" and "quiet s u"
  shows "safe B (seqp (setRadioState new) (free_complete t e d p)) u
    (\<lambda>_ v. serves B n t s v \<and> sState v = (if s_closed u then RADIO_STATE_UNAVAILABLE else new))"
proof -
  let ?new = "if s_closed u then RADIO_STATE_UNAVAILABLE else new"
  define v where "v = (if ?new = sState u then u
         else u\<lparr>sState := ?new, rlog := rlog u @
           [OnUnsolicitedResponse RIL_UNSOL_RESPONSE_RADIO_STATE_CHANGED Nothing,
            OnUnsolicitedResponse RIL_UNSOL_RESPONSE_SIM_STATUS_CHANGED Nothing]\<rparr>)"
  have run: "setRadioState new u = Done () v"
    by (simp add: setRadioState_run v_def Let_def)
  have v: "holds p s v" "ready B n v" "completed t v = completed t s" "sState v = ?new"
    using assms quiet_completed [OF assms(3), of t] by (auto simp: v_def holds_def completed_def)
  show ?thesis
    unfolding safe_seq_Done [where m = "setRadioState new", OF run]
    using v holds_ready [OF v(1,2)]
    by (simp add: free_complete_def RIL_onRequestComplete_def act_def safe_free [OF v(1)]
        serves_def completed_def)
qed

lemma isRadioOn_safe:
  assumes "ready B (Suc n) s"
  shows "safe B isRadioOn s (\<lambda>x t. x \<in> {-1, 0, 1} \<and> ready B n t \<and> quiet s t \<and> heap t = heap s)"
  unfolding isRadioOn_def
proof (rule safe_send [OF ril.singleline.sender_axioms assms], goal_cases)
  case (1 e p t)
  then show ?case
    by (simp add: safe_free [OF 1(2)] holds_ready)
next
  case (2 a x t)
  have h: "heap t a = Some x"
    using 2 by simp
  have b: "b \<in> {0, 1}" if "parse_cfun l = Some b" for l b
    using that by (auto simp: parse_cfun_def tok_or_goto_def at_tok_nextbool_def
        split: bind_splits prod.splits if_splits)
  show ?case
  proof (cases "success x = 0")
    case True
    then show ?thesis
      using 2 by (simp add: safe_rejected [OF h] safe_free [OF 2(5)] holds_ready)
  next
    case False
    then obtain l ls where "p_intermediates x = l # ls"
      using 2(3) by (cases "p_intermediates x") (auto simp: resp_ok_def split: option.splits if_splits)
    then show ?thesis
      using 2 False b
      by (auto simp: safe_rejected [OF h] held_simps(2) [OF h] safe_free [OF 2(5)]
          holds_ready split: option.split)
  qed
qed

subsection \<open>Handlers\<close>

text \<open>
  Turning the radio on or off: the request is answered, nothing leaks, and the radio state is
  the one asked for exactly when the answer is a success (unless the channel is lost).
\<close>

definition power_post :: "bool \<Rightarrow> nat \<Rightarrow> RIL_Token \<Rightarrow> RIL_RadioState \<Rightarrow> ril \<Rightarrow> ril \<Rightarrow> bool" where
  "power_post B n t new s v \<longleftrightarrow> serves B n t s v \<and>
     (\<exists>e. last (rlog v) = OnRequestComplete t e Nothing \<and>
        (e = RIL_E_SUCCESS \<and> sState v \<in> {new, RADIO_STATE_UNAVAILABLE} \<or>
         e = RIL_E_GENERIC_FAILURE \<and> sState v \<in> {sState s, RADIO_STATE_UNAVAILABLE}))"

lemma free_complete_last:
  assumes "holds p s u"
  shows "free_complete t e d p u = Done () (u\<lparr>heap := heap s, rlog := rlog u @ [OnRequestComplete t e d]\<rparr>)"
  by (simp add: free_complete_def seqp_apply holds_free [OF assms] RIL_onRequestComplete_def act_def modp_apply)

lemma power_failed:
  assumes "holds p s u" and "ready B n u" and "quiet s u"
  shows "safe B (free_complete t RIL_E_GENERIC_FAILURE Nothing p) u (\<lambda>_. power_post B n t new s)"
  using free_complete_serves [OF assms, of t RIL_E_GENERIC_FAILURE Nothing] assms(3)
  by (auto simp: safe_def free_complete_last [OF assms(1)] power_post_def quiet_def)

lemma power_done:
  assumes "holds p s u" and "ready B n u" and "quiet s u"
  shows "safe B (seqp (setRadioState new) (free_complete t RIL_E_SUCCESS Nothing p)) u
    (\<lambda>_. power_post B n t new s)"
proof -
  obtain v where v: "setRadioState new u = Done () v" and "heap v = heap u"
    by (simp add: setRadioState_run Let_def)
  then have "holds p s v"
    using assms(1) by (simp add: holds_def)
  then show ?thesis
    using setRadioState_then [OF assms, of new t RIL_E_SUCCESS Nothing]
    by (auto simp: safe_def seqp_apply v free_complete_last power_post_def split: if_splits)
qed

lemma power_off_safe:
  "ready B (Suc n) s \<Longrightarrow> safe B (power_off t) s (\<lambda>_. power_post B n t RADIO_STATE_OFF s)"
  unfolding power_off_def
  by (rule safe_send [OF ril.command.sender_axioms])
    (auto simp: safe_rejected intro: power_failed power_done)

lemma power_on_safe:
  assumes "ready B (Suc (Suc n)) s"
  shows "safe B (power_on t) s (\<lambda>_. power_post B n t RADIO_STATE_ON s)"
proof -
  have retry: "safe B (bindp isRadioOn (\<lambda>on.
       if on \<noteq> 1 then free_complete t RIL_E_GENERIC_FAILURE Nothing p
       else seqp (setRadioState RADIO_STATE_ON) (free_complete t RIL_E_SUCCESS Nothing p))) u
     (\<lambda>_. power_post B n t RADIO_STATE_ON s)"
    if u: "holds p s u" "ready B (Suc n) u" "quiet s u" for p u
  proof (rule safe_bind [OF isRadioOn_safe [OF u(2)]])
    fix on v
    assume "on \<in> {-1, 0, 1} \<and> ready B n v \<and> quiet u v \<and> heap v = heap u"
    then have "holds p s v" "ready B n v" "quiet s v"
      using u quiet_trans by (auto simp: holds_def)
    then show "safe B (if on \<noteq> 1 then free_complete t RIL_E_GENERIC_FAILURE Nothing p
       else seqp (setRadioState RADIO_STATE_ON) (free_complete t RIL_E_SUCCESS Nothing p)) v
      (\<lambda>_. power_post B n t RADIO_STATE_ON s)"
      by (auto intro: power_failed power_done)
  qed
  show ?thesis
    unfolding power_on_def
    by (rule safe_send [OF ril.command.sender_axioms assms])
      (auto simp: safe_rejected intro: retry intro!: power_done elim: ready_mono)
qed

lemma requestRadioPower_safe:
  assumes "ready B (Suc (Suc n)) s" and "pointer_size \<le> datalen" and "data = Int_data (onOff # xs)"
  shows "safe B (requestRadioPower data datalen t) s (\<lambda>_ v. serves B n t s v \<and>
    (onOff = 0 \<longrightarrow> last (rlog v) = OnRequestComplete t RIL_E_SUCCESS Nothing \<longrightarrow>
       sState v \<in> {RADIO_STATE_OFF, RADIO_STATE_UNAVAILABLE}))"
proof -
  have r0: "ready B n s" and r1: "ready B (Suc n) s"
    using ready_mono [OF assms(1)] by simp_all
  consider (off) "onOff = 0" "sState s \<noteq> RADIO_STATE_OFF"
    | (on) "onOff > 0" "sState s = RADIO_STATE_OFF"
    | (same) "onOff \<noteq> 0 \<or> sState s = RADIO_STATE_OFF" "\<not> (onOff > 0 \<and> sState s = RADIO_STATE_OFF)"
    by blast
  then show ?thesis
  proof cases
    case off
    then have "requestRadioPower data datalen t s = power_off t s"
      using assms(2,3) by (simp add: requestRadioPower_def int_arg_def outcome_simps)
    moreover have "safe B (power_off t) s (\<lambda>_ v. serves B n t s v \<and>
      (onOff = 0 \<longrightarrow> last (rlog v) = OnRequestComplete t RIL_E_SUCCESS Nothing \<longrightarrow>
       sState v \<in> {RADIO_STATE_OFF, RADIO_STATE_UNAVAILABLE}))"
      by (rule safe_mono [OF power_off_safe [OF r1]]) (auto simp: power_post_def)
    ultimately show ?thesis by (simp add: safe_def)
  next
    case on
    then have "requestRadioPower data datalen t s = power_on t s"
      using assms(2,3) by (simp add: requestRadioPower_def int_arg_def outcome_simps)
    moreover have "safe B (power_on t) s (\<lambda>_ v. serves B n t s v \<and>
      (onOff = 0 \<longrightarrow> last (rlog v) = OnRequestComplete t RIL_E_SUCCESS Nothing \<longrightarrow>
       sState v \<in> {RADIO_STATE_OFF, RADIO_STATE_UNAVAILABLE}))"
      by (rule safe_mono [OF power_on_safe [OF assms(1)]]) (use on in \<open>auto simp: power_post_def\<close>)
    ultimately show ?thesis by (simp add: safe_def)
  next
    case same
    have h: "holds Null s s" by (simp add: holds_def)
    have "requestRadioPower data datalen t s = free_complete t RIL_E_SUCCESS Nothing Null s"
      using same assms(2,3) by (auto simp: requestRadioPower_def int_arg_def outcome_simps)
    then show ?thesis
      using same free_complete_serves [OF h r0 quiet_refl, of t RIL_E_SUCCESS Nothing]
      by (auto simp: safe_def free_complete_last [OF h])
  qed
qed

text \<open>Entering a PIN.\<close>

lemma requestEnterSimPin_safe:
  assumes rd: "ready B (Suc n) s"
    and "datalen = pointer_size \<Longrightarrow> \<exists>x xs. data = String_data (x # xs)"
    and "datalen = 2 * pointer_size \<Longrightarrow> \<exists>x y xs. data = String_data (x # y # xs)"
  shows "safe B (requestEnterSimPin data datalen t) s (\<lambda>_. serves B n t s)"
proof -
  have send: "safe B (bindp (send_singleline c ''+CPIN:'' Null) (\<lambda>r. bindp (rejected r) (\<lambda>bad.
      complete_free t (if bad then RIL_E_PASSWORD_INCORRECT else RIL_E_SUCCESS) (Ints [100]) (snd r)))) s
      (\<lambda>_. serves B n t s)" for c
    by (rule safe_send [OF ril.singleline.sender_axioms rd])
      (simp_all add: safe_rejected complete_free_serves)
  have h: "holds Null s s" by (simp add: holds_def)
  consider (one) "datalen = pointer_size" | (two) "datalen = 2 * pointer_size"
    | (bad) "datalen \<noteq> pointer_size" "datalen \<noteq> 2 * pointer_size"
    by blast
  then show ?thesis
  proof cases
    case one
    then obtain x xs where "data = String_data (x # xs)" using assms(2) by blast
    then show ?thesis
      using one send by (simp add: requestEnterSimPin_def string_arg_def)
  next
    case two
    then obtain x y xs where "data = String_data (x # y # xs)" using assms(3) by blast
    then show ?thesis
      using two send by (simp add: requestEnterSimPin_def string_arg_def pointer_size_def)
  next
    case bad
    then show ?thesis
      using complete_free_serves [OF h ready_mono [OF rd] quiet_refl] by (simp add: requestEnterSimPin_def)
  qed
qed

text \<open>The blocks of a long read follow each other without gap or overlap.\<close>

lemma read_blocks_eq:
  "0 \<le> remain \<Longrightarrow> read_blocks pos remain =
     map (\<lambda>i. (pos + 255 * int i, min 255 (remain - 255 * int i))) [0..<max 1 ((nat remain + 254) div 255)]"
proof (induction pos remain rule: read_blocks.induct)
  case (1 pos remain)
  show ?case
  proof (cases "remain \<le> 255")
    case True
    then have "max 1 ((nat remain + 254) div 255) = 1"
      using 1 by auto
    then show ?thesis
      using True 1 by (subst read_blocks.simps) (simp add: READ_BINARY_BLOCK_LEN_def)
  next
    case False
    let ?k = "(nat (remain - 255) + 254) div 255"
    have k: "(nat remain + 254) div 255 = Suc ?k" "max 1 ?k = ?k"
      using False by (auto simp: nat_diff_distrib)
    have "read_blocks (pos + 255) (remain - 255) =
        map (\<lambda>i. (pos + 255 + 255 * int i, min 255 (remain - 255 - 255 * int i))) [0..<?k]"
      using 1 False k by (simp add: READ_BINARY_BLOCK_LEN_def)
    also have "\<dots> = map (\<lambda>i. (pos + 255 * int i, min 255 (remain - 255 * int i))) [1..<Suc ?k]"
      by (rule nth_equalityI) (simp_all add: algebra_simps del: upt_Suc)
    finally show ?thesis
      using False 1 k by (subst read_blocks.simps)
        (simp add: READ_BINARY_BLOCK_LEN_def upt_conv_Cons del: upt_Suc)
  qed
qed

text \<open>Every handler answers its request exactly once, if it returns.\<close>

lemma none_setRadioState: "none t (setRadioState new)"
  by (auto simp: none_def intro!: addsI) (auto simp: setRadioState_run Let_def completed_def split: if_splits)

lemma none_isRadioOn: "none t isRadioOn"
  unfolding isRadioOn_def by (intro none_rules)

lemma none_getSIMStatus: "none t getSIMStatus"
  unfolding getSIMStatus_def sim_done_def sim_answer_def by (intro none_rules)

lemma none_cardV12: "none t (getCardStatusV12 m)"
  unfolding getCardStatusV12_def fill_card_V12_def app_status_at_def set_application_def Let_def
  by (intro none_rules none_getSIMStatus)

lemma once_requestRadioPower: "once t (requestRadioPower d n t)"
  unfolding requestRadioPower_def power_on_def power_off_def
  by (intro once_rules none_rules none_setRadioState none_isRadioOn)

lemma once_requestEnterSimPin: "once t (requestEnterSimPin d n t)"
  unfolding requestEnterSimPin_def by (intro once_rules none_rules)

lemma none_append_result: "none t (append_result room x)"
  unfolding append_result_def by (intro none_rules none_modp) (simp add: completed_def)

lemma once_read_failed: "once t (read_failed t p)"
  unfolding read_failed_def by (intro once_rules none_modp) (simp add: completed_def)

lemma once_read_loop: "once t (read_loop a t blocks p sr)"
proof (induction blocks arbitrary: p sr)
  case Nil
  then show ?case by (simp, intro once_rules none_rules)
next
  case (Cons b blocks)
  then show ?case
    by (cases b) (simp, intro once_rules none_rules none_append_result once_read_failed)
qed

lemma once_requestReadBinary: "once t (requestReadBinary a t)"
  unfolding requestReadBinary_def
  by (intro once_rules none_modp once_read_loop) (simp add: completed_def)

lemma none_to_gsm_response: "none t (to_gsm_response a sr)"
  unfolding none_def to_gsm_response_def Let_def
  by (rule addsI)
    (auto simp: outcome_simps completed_def split: if_splits option.splits fcp_result.splits)

lemma once_requestSIM_IO: "once t (requestSIM_IO d t)"
  unfolding requestSIM_IO_def Let_def sim_io_arg_def
  by (intro once_rules none_rules once_requestReadBinary none_to_gsm_response)
    (auto intro: none_rules split: rdata.split)

end
