(* ===== verification/RilNet.thy ===== *)
theory RilNet
  imports RilSim
begin

section \<open>reference-ril.c: signal, registration and operator requests\<close>

subsection \<open>Baseband version\<close>

text \<open>
  The buffer \<open>char MVersion[50]\<close>.  \<open>strcpy\<close> does not look at its size: a longer version is
  written behind it, which is the fault below (\<open>version_overrun\<close>).
\<close>

definition MVersion_size :: nat where "MVersion_size = 50"

definition requestBaseBandVersion :: "RIL_Token \<Rightarrow> (ril, unit) prog" where
  "requestBaseBandVersion t = bindp (send_singleline ''AT+CGMR'' ''+CGMR: '' Null) (\<lambda>r.
     if fst r \<noteq> 0 then RIL_onRequestComplete t RIL_E_GENERIC_FAILURE Nothing
     else bindp (first_line (snd r)) (\<lambda>line.
       case at_tok_nextstr (snd (at_tok_start (Some line))) of (_, bandVersion, _) \<Rightarrow>
         (case bandVersion of
            None \<Rightarrow> failp WildPointer
          | Some v \<Rightarrow>
              if MVersion_size \<le> length v then failp OutOfBounds
              else seqp (modp (\<lambda>s. s\<lparr>MVersion := v\<rparr>))
                (complete_free t RIL_E_SUCCESS (Text v) (snd r)))))"

subsection \<open>Signal strength\<close>

definition parse_csq :: "string \<Rightarrow> (int \<times> int) option" where
  "parse_csq line = do {
     cur \<leftarrow> tok_start (Some line);
     (rssi, cur) \<leftarrow> tok_int cur;
     (ber, _) \<leftarrow> tok_int cur;
     Some (rssi, ber)
   }"

text \<open>Six fields, of which the last two, RSRQ and RSRP, remain in \<open>response[8]\<close> and \<open>response[7]\<close>.\<close>

definition parse_cesq :: "string \<Rightarrow> (int \<times> int) option" where
  "parse_cesq line = do {
     cur \<leftarrow> tok_start (Some line);
     (_, cur) \<leftarrow> tok_int cur;
     (_, cur) \<leftarrow> tok_int cur;
     (_, cur) \<leftarrow> tok_int cur;
     (_, cur) \<leftarrow> tok_int cur;
     (rsrq, cur) \<leftarrow> tok_int cur;
     (rsrp, _) \<leftarrow> tok_int cur;
     Some (rsrq, rsrp)
   }"

text \<open>The eleven entries of \<open>response\<close>; \<open>int\<close> arithmetic wraps.\<close>

definition signal_levels :: "int \<times> int \<Rightarrow> int \<times> int \<Rightarrow> int list" where
  "signal_levels csq cesq = (case csq of (rssi, ber) \<Rightarrow> case cesq of (rsrq, rsrp) \<Rightarrow>
     (let dbm = (if rsrp < 100 then int_of_long (100 - rsrp) else 75);
          ecio = (if rsrp < 100 then int_of_long (dbm + 15) else 125)
      in [rssi, ber, dbm, ecio, dbm, ecio, 0, rsrp, rsrq, 50, 7]))"

definition signal_error :: "RIL_Token \<Rightarrow> ptr \<Rightarrow> (ril, unit) prog" where
  "signal_error t p = complete_free t RIL_E_GENERIC_FAILURE Nothing p"

text \<open>A rejected command is answered before the jump to \<open>error\<close>, which answers too.\<close>

definition signal_rejected :: "RIL_Token \<Rightarrow> ptr \<Rightarrow> (ril, unit) prog" where
  "signal_rejected t p = seqp (RIL_onRequestComplete t RIL_E_GENERIC_FAILURE Nothing) (signal_error t p)"

definition requestSignalStrength :: "RIL_Token \<Rightarrow> (ril, unit) prog" where
  "requestSignalStrength t = bindp (send_singleline ''AT+CSQ'' ''+CSQ:'' Null) (\<lambda>r.
     bindp (rejected r) (\<lambda>bad.
       if bad then signal_rejected t (snd r)
       else bindp (first_line (snd r)) (\<lambda>line.
         or_goto (parse_csq line) (signal_error t (snd r)) (\<lambda>csq.
           seqp (at_response_free (snd r))
           (bindp (send_singleline ''AT+CESQ'' ''+CESQ:'' Null) (\<lambda>r.
             bindp (rejected r) (\<lambda>bad.
               if bad then signal_rejected t (snd r)
               else bindp (first_line (snd r)) (\<lambda>line.
                 or_goto (parse_cesq line) (signal_error t (snd r)) (\<lambda>cesq.
                   complete_free t RIL_E_SUCCESS (Ints (signal_levels csq cesq)) (snd r))))))))))"

subsection \<open>Registration\<close>

text \<open>
  \<open>airm2m_at_cops\<close>: the caller's array, filled as far as the line goes.
\<close>

definition parse_cops :: "string \<Rightarrow> int list" where
  "parse_cops line = (case do { cur \<leftarrow> tok_start (Some line); tok_int cur } of
      None \<Rightarrow> [0, 0, 0, 0]
    | Some (mode, cur) \<Rightarrow>
        if \<not> at_tok_hasmore cur then [mode, 0, 0, 0]
        else (case tok_int cur of
            None \<Rightarrow> [mode, 0, 0, 0]
          | Some (format, cur) \<Rightarrow>
              if \<not> at_tok_hasmore cur then [mode, format, 0, 0]
              else (case tok_str cur of
                  None \<Rightarrow> [mode, format, 0, 0]
                | Some (oper, cur) \<Rightarrow>
                    if \<not> at_tok_hasmore cur then [mode, format, atoi oper, 0]
                    else (case tok_int cur of
                        None \<Rightarrow> [mode, format, atoi oper, 0]
                      | Some (tech, _) \<Rightarrow> [mode, format, atoi oper, tech]))))"

definition airm2m_at_cops :: "(ril, int list) prog" where
  "airm2m_at_cops = bindp (send_singleline ''AT+COPS=3,2;+COPS?'' ''+COPS:'' Null) (\<lambda>r.
     bindp (if fst r < 0 \<or> snd r = Null then ret True else rejected r) (\<lambda>bad.
       if bad then seqp (at_response_free (snd r)) (ret [0, 0, 0, 0])
       else bindp (first_line (snd r)) (\<lambda>line.
         seqp (at_response_free (snd r)) (ret (parse_cops line)))))"

text \<open>
  \<open>+CREG: n, stat [, lac, cid [, networkType]]\<close>, or the unsolicited form without \<open>n\<close>: the
  number of commas decides.  The result is \<open>stat\<close>, \<open>lac\<close> and \<open>cid\<close>.
\<close>

definition parse_creg :: "string \<Rightarrow> (int \<times> int \<times> int) option" where
  "parse_creg line = do {
     cur \<leftarrow> tok_start (Some line);
     let commas = length (filter (\<lambda>c. c = CHR '','') (case cur of None \<Rightarrow> [] | Some x \<Rightarrow> x));
     if commas = 0 then do { (stat, _) \<leftarrow> tok_int cur; Some (stat, -1, -1) }
     else if commas = 1 then do { (_, cur) \<leftarrow> tok_int cur; (stat, _) \<leftarrow> tok_int cur; Some (stat, -1, -1) }
     else if commas = 2 then do {
       (stat, cur) \<leftarrow> tok_int cur; (lac, cur) \<leftarrow> tok_hexint cur; (cid, _) \<leftarrow> tok_hexint cur;
       Some (stat, lac, cid) }
     else if commas = 3 \<or> commas = 4 then do {
       (_, cur) \<leftarrow> tok_int cur; (stat, cur) \<leftarrow> tok_int cur; (lac, cur) \<leftarrow> tok_hexint cur;
       (cid, _) \<leftarrow> tok_hexint cur; Some (stat, lac, cid) }
     else None
   }"

datatype RIL_RadioTechnology =
    RADIO_TECH_GSM | RADIO_TECH_EDGE | RADIO_TECH_HSDPA | RADIO_TECH_HSUPA | RADIO_TECH_HSPA
  | RADIO_TECH_TD_SCDMA | RADIO_TECH_LTE

definition parse_sysinfo :: "string \<Rightarrow> (int \<times> int) option" where
  "parse_sysinfo line = do {
     cur \<leftarrow> tok_start (Some line);
     (_, cur) \<leftarrow> tok_int cur;
     (_, cur) \<leftarrow> tok_int cur;
     (_, cur) \<leftarrow> tok_int cur;
     (sysMode, cur) \<leftarrow> tok_int cur;
     (_, cur) \<leftarrow> tok_int cur;
     (sysSubmode, _) \<leftarrow> tok_int cur;
     Some (sysMode, sysSubmode)
   }"

text \<open>
  The technology, \<open>Inr\<close>, that replaces \<open>response[3]\<close> or, \<open>Inl True\<close>, its old value is
  kept; \<open>Inl False\<close>: it is not reported (\<open>count = 3\<close>).
\<close>

definition sysinfo_tech :: "int \<times> int \<Rightarrow> bool + RIL_RadioTechnology" where
  "sysinfo_tech m = (case m of (sysMode, sysSubmode) \<Rightarrow>
     if sysMode = 3 then (if sysSubmode = 3 then Inr RADIO_TECH_EDGE else Inr RADIO_TECH_GSM)
     else if sysMode = 4 then
       (if sysSubmode = 4 then Inr RADIO_TECH_HSDPA
        else if sysSubmode = 5 then Inr RADIO_TECH_HSUPA
        else if sysSubmode = 6 then Inr RADIO_TECH_HSPA
        else Inl True)
     else if sysMode = 5 then Inr RADIO_TECH_TD_SCDMA
     else if sysMode = 17 then Inr RADIO_TECH_LTE
     else Inl False)"

text \<open>\<open>tech\<close> is the numbering of \<open>RIL_RadioTechnology\<close> in \<open>ril.h\<close>.\<close>

definition registration_strings ::
  "(RIL_RadioTechnology \<Rightarrow> int) \<Rightarrow> int \<times> int \<times> int \<Rightarrow> int \<Rightarrow> bool + RIL_RadioTechnology \<Rightarrow> string option list" where
  "registration_strings tech reg act3 what = (case reg of (stat, lac, cid) \<Rightarrow>
     [Some (print_d stat), Some (print_x lac), Some (print_x cid)] @
     (case what of
        Inl keep \<Rightarrow> if keep then [Some (print_d act3)] else []
      | Inr t \<Rightarrow> [Some (print_d (tech t))]))"

definition registration_error :: "RIL_Token \<Rightarrow> ptr \<Rightarrow> (ril, unit) prog" where
  "registration_error t p = complete_free t RIL_E_GENERIC_FAILURE Nothing p"

text \<open>
  After \<open>at_response_free\<close> the variable \<open>p_response\<close> still holds the old address when
  \<open>AT^SYSINFO\<close> is sent.
\<close>

definition requestRegistrationState ::
  "(RIL_RadioTechnology \<Rightarrow> int) \<Rightarrow> request \<Rightarrow> RIL_Token \<Rightarrow> (ril, unit) prog" where
  "requestRegistrationState tech req t =
     (if req \<noteq> RIL_REQUEST_VOICE_REGISTRATION_STATE \<and> req \<noteq> RIL_REQUEST_DATA_REGISTRATION_STATE
      then failp AssertFailed
      else bindp (if req = RIL_REQUEST_DATA_REGISTRATION_STATE then airm2m_at_cops else ret [0, 0, 0, 0]) (\<lambda>cops.
        let eutran = req = RIL_REQUEST_DATA_REGISTRATION_STATE \<and> cops ! 3 = 7
        in bindp (if eutran then send_singleline ''AT+CEREG?'' ''+CEREG:'' Null
                  else send_singleline ''AT+CREG?'' ''+CREG:'' Null) (\<lambda>r.
           if fst r \<noteq> 0 then registration_error t (snd r)
           else bindp (first_line (snd r)) (\<lambda>line.
             or_goto (parse_creg line) (registration_error t (snd r)) (\<lambda>reg.
               if req = RIL_REQUEST_VOICE_REGISTRATION_STATE
               then complete_free t RIL_E_SUCCESS (Texts (registration_strings tech reg 0 (Inl False))) (snd r)
               else seqp (at_response_free (snd r))
                 (bindp (send_singleline ''AT^SYSINFO'' ''^SYSINFO:'' (snd r)) (\<lambda>r.
                   if fst r \<noteq> 0 then registration_error t (snd r)
                   else bindp (first_line (snd r)) (\<lambda>line.
                     or_goto (parse_sysinfo line) (registration_error t (snd r)) (\<lambda>m.
                       complete_free t RIL_E_SUCCESS
                         (Texts (registration_strings tech reg (cops ! 3) (sysinfo_tech m))) (snd r))))))))))"

subsection \<open>Operator and network selection\<close>

text \<open>What one \<open>+COPS\<close> line puts into \<open>response[i]\<close>; \<open>None\<close>: \<open>goto error\<close>.\<close>

definition parse_operator :: "string \<Rightarrow> string option option" where
  "parse_operator line = do {
     cur \<leftarrow> tok_start (Some line);
     (_, cur) \<leftarrow> tok_int cur;
     if \<not> at_tok_hasmore cur then Some None
     else do {
       (_, cur) \<leftarrow> tok_int cur;
       if \<not> at_tok_hasmore cur then Some None
       else do { (name, _) \<leftarrow> tok_str cur; Some (Some name) }
     }
   }"

text \<open>The loop over the lines; \<open>response\<close> has three entries.\<close>

fun operator_loop :: "string list \<Rightarrow> nat \<Rightarrow> string option list \<Rightarrow> (ril, (nat \<times> string option list) option) prog" where
  "operator_loop [] i response = ret (Some (i, response))"
| "operator_loop (line # ls) i response = (case parse_operator line of
      None \<Rightarrow> ret None
    | Some name \<Rightarrow> if i < length response then operator_loop ls (Suc i) (response[i := name])
                   else failp OutOfBounds)"

definition requestOperator :: "RIL_Token \<Rightarrow> (ril, unit) prog" where
  "requestOperator t =
     bindp (send_multiline ''AT+COPS=3,0;+COPS?;+COPS=3,1;+COPS?;+COPS=3,2;+COPS?'' ''+COPS:'' Null) (\<lambda>r.
     if fst r \<noteq> 0 then complete_free t RIL_E_GENERIC_FAILURE Nothing (snd r)
     else bindp (deref (snd r)) (\<lambda>x.
       bindp (operator_loop (p_intermediates x) 0 [None, None, None]) (\<lambda>res.
         case res of
           None \<Rightarrow> complete_free t RIL_E_GENERIC_FAILURE Nothing (snd r)
         | Some (i, response) \<Rightarrow>
             if i \<noteq> 3 then complete_free t RIL_E_GENERIC_FAILURE Nothing (snd r)
             else complete_free t RIL_E_SUCCESS (Texts response) (snd r))))"

definition parse_selection :: "string \<Rightarrow> int option" where
  "parse_selection line = do { cur \<leftarrow> tok_start (Some line); (mode, _) \<leftarrow> tok_int cur; Some mode }"

definition requestQueryNetworkSelectionMode :: "RIL_Token \<Rightarrow> (ril, unit) prog" where
  "requestQueryNetworkSelectionMode t = bindp (send_singleline ''AT+COPS?'' ''+COPS:'' Null) (\<lambda>r.
     bindp (rejected r) (\<lambda>bad.
       if bad then complete_free t RIL_E_SUCCESS (Ints [0]) (snd r)
       else bindp (first_line (snd r)) (\<lambda>line.
         or_goto (parse_selection line) (free_complete t RIL_E_GENERIC_FAILURE Nothing (snd r)) (\<lambda>mode.
           complete_free t RIL_E_SUCCESS (Ints [mode]) (snd r)))))"

text \<open>Only the assertion and the early answer of \<open>requestSetPreferredNetworkType\<close> are compiled in.\<close>

definition requestSetPreferredNetworkType :: "rdata \<Rightarrow> nat \<Rightarrow> RIL_Token \<Rightarrow> (ril, unit) prog" where
  "requestSetPreferredNetworkType data datalen t = bindp (int_arg data 0) (\<lambda>_.
     if datalen < pointer_size then failp AssertFailed
     else if t \<noteq> None then RIL_onRequestComplete t RIL_E_SUCCESS Nothing
     else ret ())"

subsection \<open>What these functions do\<close>

text \<open>
  Every handler but the signal strength answers its request exactly once, if it returns; the
  preferred network type is answered only for a token that is not NULL.
\<close>

lemma once_requestBaseBandVersion: "once t (requestBaseBandVersion t)"
  unfolding requestBaseBandVersion_def
  by (intro once_rules none_rules none_modp) (simp add: completed_other)

lemma none_airm2m: "none t airm2m_at_cops"
  unfolding airm2m_at_cops_def by (intro none_rules)

lemma once_requestRegistrationState: "once t (requestRegistrationState tech req t)"
  unfolding requestRegistrationState_def registration_error_def Let_def
  by (intro once_rules none_rules none_airm2m)

lemma none_operator_loop: "none t (operator_loop ls i r)"
  by (induction ls i r rule: operator_loop.induct) (auto intro: none_rules split: option.split)

lemma once_requestOperator: "once t (requestOperator t)"
  unfolding requestOperator_def by (intro once_rules none_rules none_operator_loop)

lemma once_requestQueryNetworkSelectionMode: "once t (requestQueryNetworkSelectionMode t)"
  unfolding requestQueryNetworkSelectionMode_def by (intro once_rules none_rules)

lemma once_requestSetPreferredNetworkType: "once (Some t) (requestSetPreferredNetworkType d n (Some t))"
  unfolding requestSetPreferredNetworkType_def by (intro once_rules none_rules) simp

text \<open>
  Three of these functions look at the intermediate responses without asking whether the
  modem accepted the command: an error answer makes them follow a NULL pointer.
\<close>

lemma first_line_refused:
  "heap t a = Some \<lparr>success = 0, finalResponse = Some l, p_intermediates = []\<rparr> \<Longrightarrow>
   first_line (Ptr a) t = Fault NullDeref t"
  by (simp add: first_line_def deref_def outcome_simps)

lemma first_line_held:
  "heap t a = Some x \<Longrightarrow> p_intermediates x = l # ls \<Longrightarrow> first_line (Ptr a) t = Done l t"
  by (simp add: first_line_def deref_def outcome_simps)

lemma baseband_refused:
  assumes "idle s" and "open_channel s" and "env s = [Line l, Wake] # rest" and "isFinalResponseError l"
  shows "\<exists>t. requestBaseBandVersion tk s = Fault NullDeref t"
proof -
  obtain t where "send_singleline ''AT+CGMR'' ''+CGMR: '' Null s = Done (0, Ptr (brk s)) t"
    "heap t (brk s) = Some \<lparr>success = 0, finalResponse = Some l, p_intermediates = []\<rparr>"
    using singleline_refused_run [OF assms, of ril_cb "''AT+CGMR''" "''+CGMR: ''" Null] by auto
  then show ?thesis
    by (simp add: requestBaseBandVersion_def bindp_apply first_line_refused)
qed

lemma voice_registration_refused:
  assumes "idle s" and "open_channel s" and "env s = [Line l, Wake] # rest" and "isFinalResponseError l"
  shows "\<exists>t. requestRegistrationState tech RIL_REQUEST_VOICE_REGISTRATION_STATE tk s = Fault NullDeref t"
proof -
  obtain t where "send_singleline ''AT+CREG?'' ''+CREG:'' Null s = Done (0, Ptr (brk s)) t"
    "heap t (brk s) = Some \<lparr>success = 0, finalResponse = Some l, p_intermediates = []\<rparr>"
    using singleline_refused_run [OF assms, of ril_cb "''AT+CREG?''" "''+CREG:''" Null] by auto
  then show ?thesis
    by (simp add: requestRegistrationState_def bindp_apply ret_apply first_line_refused)
qed

text \<open>A version of 50 characters or more is copied behind its buffer.\<close>

lemma version_overrun:
  assumes "idle s" and "open_channel s" and "env s = [Line (''+CGMR: '' @ v), Line f, Wake] # rest"
    and "isFinalResponseSuccess f" and "plain_word v" and "50 \<le> length v"
  shows "\<exists>t. requestBaseBandVersion tk s = Fault OutOfBounds t"
proof -
  define i where "i = ''+CGMR: '' @ v"
  have i: "strStartsWith i ''+CGMR: ''" "\<not> isFinalResponse i"
    by (simp_all add: i_def isFinalResponse_def isFinalResponseSuccess_def isFinalResponseError_def
        s_finalResponsesSuccess_def s_finalResponsesError_def strStartsWith_prefix)
  let ?r = "\<lparr>success = 1, finalResponse = Some f, p_intermediates = [i]\<rparr>"
  obtain t where t: "send_singleline ''AT+CGMR'' ''+CGMR: '' Null s = Done (0, Ptr (brk s)) t"
    "heap t = (heap s)(brk s \<mapsto> ?r)"
    using singleline_answered_run [OF assms(1,2) assms(3) [folded i_def] i assms(4), of ril_cb "''AT+CGMR''" Null]
    by auto
  have line: "first_line (Ptr (brk s)) t = Done i t"
    by (rule first_line_held [of _ _ ?r]) (simp_all add: t(2))
  have "snd (at_tok_start (Some i)) = Some (CHR '' '' # v)"
    by (simp add: i_def at_tok_start_def strchr_def)
  moreover have "at_tok_nextstr (Some (CHR '' '' # v)) = (0, Some v, None)"
    using assms(5) by (simp add: plain_word_def at_tok_nextstr_def nextTok_blank nextTok_plain_end isspace_def)
  ultimately show ?thesis
    using assms(6) by (simp add: requestBaseBandVersion_def bindp_apply t(1) line failp_def MVersion_size_def)
qed

text \<open>When the modem does report its registration, the framework gets it, and nothing leaks.\<close>

lemma voice_registration_answered:
  assumes "idle s" and "open_channel s" and "env s = [Line i, Line f, Wake] # rest"
    and "strStartsWith i ''+CREG:''" and "\<not> isFinalResponse i" and "isFinalResponseSuccess f"
    and reg: "parse_creg i = Some (stat, lac, cid)"
  shows "\<exists>t. requestRegistrationState tech RIL_REQUEST_VOICE_REGISTRATION_STATE tk s = Done () t \<and>
    heap t = heap s \<and> rlog t = rlog s @ [OnRequestComplete tk RIL_E_SUCCESS
      (Texts [Some (print_d stat), Some (print_x lac), Some (print_x cid)])]"
proof -
  let ?r = "\<lparr>success = 1, finalResponse = Some f, p_intermediates = [i]\<rparr>"
  obtain t where t: "send_singleline ''AT+CREG?'' ''+CREG:'' Null s = Done (0, Ptr (brk s)) t"
    "heap t = (heap s)(brk s \<mapsto> ?r)" "chan.more t = chan.more s"
    using singleline_answered_run [OF assms(1-6), of ril_cb "''AT+CREG?''" Null] by auto
  have "(heap s)(brk s := None) = heap s"
    using assms(1) by (simp add: idle_def heap_wf_def fun_upd_idem)
  moreover have "rlog t = rlog s"
    using t(3) by (cases s; cases t) simp
  moreover have "first_line (Ptr (brk s)) t = Done i t"
    by (rule first_line_held [of _ _ ?r]) (simp_all add: t(2))
  ultimately show ?thesis
    using t(2) by (simp add: requestRegistrationState_def bindp_apply ret_apply t(1) or_goto_def reg
        registration_strings_def complete_free_def RIL_onRequestComplete_def act_def
        outcome_simps at_response_free_def)
qed

subsection \<open>Registration reports\<close>

text \<open>
  The forms of a registration report, and its hexadecimal fields, in quotes or not: digits whose
  number fits 32 bits.
\<close>

definition hex_value :: "string \<Rightarrow> nat" where
  "hex_value ds = foldl (\<lambda>n c. 16 * n + the (digit_val 16 c)) 0 ds"

definition hex_text :: "nat \<Rightarrow> string \<Rightarrow> bool" where
  "hex_text n t \<longleftrightarrow> (\<exists>ds. ds \<noteq> [] \<and> list_all (\<lambda>c. digit_val 16 c \<noteq> None) ds \<and> hex_value ds = n \<and>
     n < 4294967296 \<and> (t = ds \<or> t = quoted ds))"

definition creg_report :: "int option \<Rightarrow> int \<Rightarrow> (string \<times> string) option \<Rightarrow> int option \<Rightarrow> string" where
  "creg_report n stat place tech = ''+CREG: '' @
     (case n of None \<Rightarrow> [] | Some k \<Rightarrow> print_d k @ '','') @ print_d stat @
     (case place of None \<Rightarrow> [] | Some (lac, cid) \<Rightarrow> '','' @ lac @ '','' @ cid) @
     (case tech of None \<Rightarrow> [] | Some k \<Rightarrow> '','' @ print_d k)"

lemma scan_hex_digits:
  "list_all (\<lambda>c. digit_val 16 c \<noteq> None) ds \<Longrightarrow>
   scan_digits 16 acc ds = (foldl (\<lambda>n c. 16 * n + the (digit_val 16 c)) acc ds, [])"
  by (induction ds arbitrary: acc) (auto simp: mult.commute)

lemma hex_digits_plain:
  assumes "ds \<noteq> []" and "list_all (\<lambda>c. digit_val 16 c \<noteq> None) ds"
  shows "\<not> isspace (hd ds)" "hd ds \<noteq> CHR 0x22" "CHR '','' \<notin> set ds" "CHR 0x22 \<notin> set ds"
    "scan_number 16 ds = Some (False, hex_value ds, [])"
proof -
  have h: "digit_val 16 (hd ds) \<noteq> None"
    using assms by (cases ds) auto
  show "\<not> isspace (hd ds)" using h isspace_not_digit [of _ 16] by metis
  moreover show "hd ds \<noteq> CHR 0x22" using h digit_val_specials(4) by metis
  moreover show "CHR '','' \<notin> set ds" by (rule not_digit_in [OF assms(2)]) simp
  moreover show "CHR 0x22 \<notin> set ds" by (rule not_digit_in [OF assms(2)]) simp
  moreover have "CHR ''x'' \<notin> set ds" "CHR ''X'' \<notin> set ds"
    by (rule not_digit_in [OF assms(2)], simp)+
  then have "strip_0x ds = ds"
    by (auto simp: strip_0x_def split: list.splits)
  moreover have "starts_digit 16 ds" using h assms(1) by (cases ds) (auto simp: starts_digit_def)
  ultimately show "scan_number 16 ds = Some (False, hex_value ds, [])"
    using strip_sign_digit [OF h] scan_hex_digits [OF assms(2), of 0]
    by (simp add: scan_number_def dropWhile_isspace hex_value_def)
qed

lemma hex_text_read:
  assumes "hex_text n t"
  shows "tok_hexint (Some (t @ CHR '','' # r)) = Some (int_of_long (int n), Some r)"
    "\<exists>c. tok_hexint (Some t) = Some (int_of_long (int n), c)"
    "filter (\<lambda>c. c = CHR '','') t = []"
proof -
  obtain ds where ds: "ds \<noteq> []" "list_all (\<lambda>c. digit_val 16 c \<noteq> None) ds" "hex_value ds = n"
      "n < 4294967296" "t = ds \<or> t = quoted ds"
    using assms by (auto simp: hex_text_def)
  note p = hex_digits_plain [OF ds(1,2)]
  have val: "strtoul_val False n = int n"
    using ds(4) by (simp add: strtoul_val_def ULONG_MAX_def)
  show "tok_hexint (Some (t @ CHR '','' # r)) = Some (int_of_long (int n), Some r)"
    using ds(1,3,5) p val nextTok_quoted [OF p(4), of "CHR '','' # r"]
    by (auto simp: quoted_def tok_or_goto_def at_tok_nexthexint_def at_tok_nextint_base_def
        nextTok_plain_comma)
  show "\<exists>c. tok_hexint (Some t) = Some (int_of_long (int n), c)"
    using ds(1,3,5) p val nextTok_quoted [OF p(4), of "[]"]
    by (auto simp: quoted_def tok_or_goto_def at_tok_nexthexint_def at_tok_nextint_base_def
        nextTok_plain_end)
  show "filter (\<lambda>c. c = CHR '','') t = []"
    using ds(5) p(3) by (auto simp: quoted_def filter_empty_conv)
qed

lemma print_x_long [simp]: "print_x (int_of_long i) = print_x i"
  by (simp add: print_x_def int_of_long_def mod_simps)

lemma print_d_no_comma [simp]: "filter (\<lambda>c. c = CHR '','') (print_d i) = []"
  using print_d_plain(4) [of i] by (auto simp: filter_empty_conv)

text \<open>
  What is read of a report: with a place, the access technology is there only if the number \<open>n\<close>
  is.
\<close>

definition place_ok :: "int option \<Rightarrow> (string \<times> string) option \<Rightarrow> int option \<Rightarrow> int \<Rightarrow> int \<Rightarrow> bool" where
  "place_ok n place tech lac cid \<longleftrightarrow> (case place of
      None \<Rightarrow> tech = None \<and> lac = -1 \<and> cid = -1
    | Some (l, c) \<Rightarrow> hex_text (nat lac) l \<and> hex_text (nat cid) c \<and> 0 \<le> lac \<and> 0 \<le> cid \<and> (n = None \<longrightarrow> tech = None))"

lemma parse_creg_report:
  assumes "\<forall>k \<in> set_option n. int32 k" and "int32 stat" and "place_ok n place tech lac cid"
  shows "\<exists>l c. parse_creg (creg_report n stat place tech) = Some (stat, l, c) \<and>
    print_x l = print_x lac \<and> print_x c = print_x cid"
proof -
  let ?r = "(case n of None \<Rightarrow> [] | Some k \<Rightarrow> print_d k @ '','') @ print_d stat @
     (case place of None \<Rightarrow> [] | Some (lac, cid) \<Rightarrow> '','' @ lac @ '','' @ cid) @
     (case tech of None \<Rightarrow> [] | Some k \<Rightarrow> '','' @ print_d k)"
  have start: "tok_start (Some (creg_report n stat place tech)) = Some (Some (CHR '' '' # ?r))"
    by (simp add: creg_report_def tok_start_def at_tok_start_def strchr_def)
  have blank: "tok_int (Some (CHR '' '' # x)) = tok_int (Some x)" for x
    by (rule tok_int_blank) (simp add: isspace_def)
  note d = dec_field.before_comma [OF assms(2)] dec_field.at_end [OF assms(2)]
  have k: "tok_int (Some (print_d k @ CHR '','' # r)) = Some (k, Some r)" if "n = Some k" for k r
    using that assms(1) by (simp add: dec_field.before_comma)
  show ?thesis
  proof (cases place)
    case None
    then show ?thesis
      using assms(3) d k start by (cases n) (auto simp: parse_creg_def blank place_ok_def Let_def)
  next
    case (Some p)
    obtain l c where p: "p = (l, c)" by (cases p)
    then have h: "hex_text (nat lac) l" "hex_text (nat cid) c" "0 \<le> lac" "0 \<le> cid" "n = None \<longrightarrow> tech = None"
      using assms(3) Some by (simp_all add: place_ok_def)
    note r = hex_text_read [OF h(1)] hex_text_read [OF h(2)]
    obtain x where x: "tok_hexint (Some c) = Some (int_of_long (int (nat cid)), x)" using r(5) by blast
    show ?thesis
      using Some p h(3-5) d k r x start
      by (cases n; cases tech) (auto simp: parse_creg_def blank Let_def)
  qed
qed

lemma creg_report_line:
  "strStartsWith (creg_report n stat place tech) ''+CREG:''" "\<not> isFinalResponse (creg_report n stat place tech)"
  by (simp_all add: creg_report_def isFinalResponse_def isFinalResponseSuccess_def isFinalResponseError_def
      s_finalResponsesSuccess_def s_finalResponsesError_def strStartsWith_prefix)

lemma voice_registration_reported:
  assumes "idle s" and "open_channel s"
    and "env s = [Line (creg_report n stat place tech), Line f, Wake] # rest" and "isFinalResponseSuccess f"
    and "\<forall>k \<in> set_option n. int32 k" and "int32 stat" and "place_ok n place tech lac cid"
  shows "\<exists>t. requestRegistrationState tc RIL_REQUEST_VOICE_REGISTRATION_STATE tk s = Done () t \<and>
    heap t = heap s \<and> rlog t = rlog s @ [OnRequestComplete tk RIL_E_SUCCESS
      (Texts [Some (print_d stat), Some (print_x lac), Some (print_x cid)])]"
proof -
  obtain l c where "parse_creg (creg_report n stat place tech) = Some (stat, l, c)"
      "print_x l = print_x lac" "print_x c = print_x cid"
    using parse_creg_report [OF assms(5-7)] by blast
  then show ?thesis
    using voice_registration_answered [OF assms(1-3) creg_report_line assms(4), of stat l c tc tk] by simp
qed

text \<open>
  The data registration frees the answer to \<open>AT+CREG?\<close> and keeps its address.  When the modem
  goes away before \<open>AT^SYSINFO\<close> is sent, the error path frees it again.
\<close>

lemma cops_refused:
  assumes "idle s" and "open_channel s" and "env s = [Line l, Wake] # rest" and "isFinalResponseError l"
  shows "\<exists>t. airm2m_at_cops s = Done [0, 0, 0, 0] t \<and> idle t \<and> open_channel t \<and> env t = rest"
proof -
  obtain t where t: "send_singleline ''AT+COPS=3,2;+COPS?'' ''+COPS:'' Null s = Done (0, Ptr (brk s)) t"
    "heap t = (heap s)(brk s \<mapsto> \<lparr>success = 0, finalResponse = Some l, p_intermediates = []\<rparr>)"
    "idle t" "open_channel t" "env t = rest"
    using singleline_refused_run [OF assms, of ril_cb "''AT+COPS=3,2;+COPS?''" "''+COPS:''" Null] by auto
  then show ?thesis
    by (auto simp: airm2m_at_cops_def bindp_apply rejected_def resp_success_def deref_def
        at_response_free_def outcome_simps idle_def heap_wf_def open_channel_def)
qed

lemma closed_run_ril:
  "onClosed ril_cb = Some onATReaderClosed"
  "\<exists>s'. onATReaderClosed s = Done () s' \<and> same_cmd s s' \<and> s_readerClosed s'"
  using closed_state_frame [of s]
  by (auto simp: ril_cb_def onATReaderClosed_apply closed_state_def Let_def)

lemma data_registration_double_free:
  assumes "idle s" and "open_channel s"
    and env: "env s = [Line l, Wake] # [Line i, Line f, Wake, Closed] # rest"
    and "isFinalResponseError l" and "strStartsWith i ''+CREG:''" and "\<not> isFinalResponse i"
    and "isFinalResponseSuccess f" and reg: "parse_creg i \<noteq> None"
  shows "\<exists>t. requestRegistrationState tech RIL_REQUEST_DATA_REGISTRATION_STATE tk s = Fault DoubleFree t"
proof -
  let ?r = "\<lparr>success = 1, finalResponse = Some f, p_intermediates = [i]\<rparr>"
  obtain u where u: "airm2m_at_cops s = Done [0, 0, 0, 0] u" "idle u" "open_channel u"
    "env u = [Line i, Line f, Wake, Closed] # rest"
    using cops_refused [OF assms(1,2) env assms(4)] by auto
  obtain v where v: "send_singleline ''AT+CREG?'' ''+CREG:'' Null u = Done (0, Ptr (brk u)) v"
    "heap v = (heap u)(brk u \<mapsto> ?r)" "idle v" "s_readerClosed v" "\<not> self_reader v" "rx v = []"
    using singleline_then_closed_run [OF u(2-4) assms(5-7) closed_run_ril, of "''AT+CREG?''" Null] by auto
  define w where "w = v\<lparr>heap := (heap v)(brk u := None)\<rparr>"
  have w: "at_response_free (Ptr (brk u)) v = Done () w"
    by (simp add: at_response_free_def v(2) w_def)
  have "first_line (Ptr (brk u)) v = Done i v"
    by (rule first_line_held [of _ _ ?r]) (simp_all add: v(2))
  moreover have wi: "idle w" "s_readerClosed w" "\<not> self_reader w" "rx w = []" "heap w (brk u) = None"
    using v by (auto simp: w_def idle_def heap_wf_def)
  obtain z where z: "send_singleline ''AT^SYSINFO'' ''^SYSINFO:'' (Ptr (brk u)) w =
      Done (AT_ERROR_CHANNEL_CLOSED, Ptr (brk u)) z" "heap z = heap w"
    using singleline_closed_run [OF wi(1-4), of ril_cb "''AT^SYSINFO''" "''^SYSINFO:''" "Ptr (brk u)"] by auto
  moreover have "\<exists>t. registration_error tk (Ptr (brk u)) z = Fault DoubleFree t"
    using wi(5) z(2) by (simp add: registration_error_def complete_free_def RIL_onRequestComplete_def
        act_def seqp_apply modp_apply at_response_free_def)
  moreover have "AT_ERROR_CHANNEL_CLOSED \<noteq> 0"
    by (simp add: at_errors)
  ultimately show ?thesis
    using reg by (auto simp: requestRegistrationState_def bindp_apply seqp_apply u(1) v(1) w or_goto_def)
qed

text \<open>The operator names: three lines fill the answer, a fourth valid one overruns it.\<close>

lemma operator_loop_three:
  "operator_loop [l0, l1, l2] 0 [None, None, None] s =
     (case (parse_operator l0, parse_operator l1, parse_operator l2) of
        (Some n0, Some n1, Some n2) \<Rightarrow> Done (Some (3, [n0, n1, n2])) s
      | _ \<Rightarrow> Done None s)"
  by (simp add: outcome_simps split: option.split)

lemma operator_loop_overrun:
  assumes "\<forall>l \<in> set (take 4 ls). parse_operator l \<noteq> None" and "4 \<le> length ls"
  shows "operator_loop ls 0 [None, None, None] s = Fault OutOfBounds s"
proof -
  obtain a b c d rest where "ls = a # b # c # d # rest"
    using assms(2) by (auto simp: numeral_eq_Suc Suc_le_length_iff)
  then show ?thesis
    using assms(1) by (auto simp: outcome_simps split: option.split)
qed

lemma requestQueryNetworkSelectionMode_safe:
  assumes "ready B (Suc n) s"
  shows "safe B (requestQueryNetworkSelectionMode t) s (\<lambda>_. serves B n t s)"
  unfolding requestQueryNetworkSelectionMode_def
proof (rule safe_send [OF ril.singleline.sender_axioms assms], goal_cases)
  case (1 e p u)
  then show ?case by (simp add: complete_free_serves)
next
  case (2 a x u)
  have h: "heap u a = Some x"
    using 2 by simp
  obtain l ls where "success x \<noteq> 0 \<Longrightarrow> p_intermediates x = l # ls"
    using 2(3) by (cases "p_intermediates x") (auto simp: resp_ok_def split: option.splits if_splits)
  then show ?case
    using 2 by (cases "success x = 0")
      (auto simp: safe_rejected [OF h] held_simps(2) [OF h] or_goto_def
        intro: complete_free_serves free_complete_serves split: option.split)
qed

end
