(* ===== verification/RilCalls.thy ===== *)
theory RilCalls
  imports RilSim
begin

section \<open>reference-ril.c: calls and short messages\<close>

subsection \<open>The call list\<close>

definition clccStateToRILState :: "int \<Rightarrow> RIL_CallState option" where
  "clccStateToRILState state =
     (if state = 0 then Some RIL_CALL_ACTIVE else if state = 1 then Some RIL_CALL_HOLDING
      else if state = 2 then Some RIL_CALL_DIALING else if state = 3 then Some RIL_CALL_ALERTING
      else if state = 4 then Some RIL_CALL_INCOMING else if state = 5 then Some RIL_CALL_WAITING
      else None)"

text \<open>A \<open>RIL_Call\<close> after \<open>memset(p_calls, 0, ...)\<close>.\<close>

definition zero_call :: RIL_Call where
  "zero_call = \<lparr>call_index = 0, isMT = 0, call_state = RIL_CALL_ACTIVE, isVoice = False, isMpty = 0,
     call_number = None, toa = 0\<rparr>"

text \<open>A store through an out parameter, if there was one.\<close>

definition stored :: "('a \<Rightarrow> 'b \<Rightarrow> 'b) \<Rightarrow> 'a option \<Rightarrow> 'b \<Rightarrow> 'b" where
  "stored f x c = (case x of None \<Rightarrow> c | Some y \<Rightarrow> f y c)"

text \<open>
  \<open>callFromCLCCLine\<close> fills the structure as it goes: on error the fields read so far stay
  set.  The result is whether it succeeded, and the structure.
\<close>

definition clcc_number :: "cursor \<Rightarrow> RIL_Call \<Rightarrow> bool \<times> RIL_Call" where
  "clcc_number line c =
     (if \<not> at_tok_hasmore line then (True, c)
      else case at_tok_nextstr line of (err, number, line) \<Rightarrow>
        if err < 0 then (True, c)
        else
          let number = (case number of
                None \<Rightarrow> None
              | Some x \<Rightarrow> if strspn x ''+0123456789'' = 0 then None else Some x);
              c = c\<lparr>call_number := number\<rparr>
          in case at_tok_nextint line of (err, t, _) \<Rightarrow>
            (\<not> err < 0, stored (\<lambda>t c. c\<lparr>toa := t\<rparr>) t c))"

definition callFromCLCCLine :: "string \<Rightarrow> RIL_Call \<Rightarrow> bool \<times> RIL_Call" where
  "callFromCLCCLine line c =
     (case at_tok_start (Some line) of (err, line) \<Rightarrow> if err < 0 then (False, c) else
      case at_tok_nextint line of (err, x, line) \<Rightarrow>
      let c = stored (\<lambda>x c. c\<lparr>call_index := x\<rparr>) x c in if err < 0 then (False, c) else
      case at_tok_nextbool line of (err, x, line) \<Rightarrow>
      let c = stored (\<lambda>x c. c\<lparr>isMT := x\<rparr>) x c in if err < 0 then (False, c) else
      case at_tok_nextint line of (err, state, line) \<Rightarrow> if err < 0 then (False, c) else
      case clccStateToRILState (the state) of
        None \<Rightarrow> (False, c)
      | Some st \<Rightarrow>
          let c = c\<lparr>call_state := st\<rparr> in
          case at_tok_nextint line of (err, mode, line) \<Rightarrow> if err < 0 then (False, c) else
          let c = c\<lparr>isVoice := (mode = Some 0)\<rparr> in
          case at_tok_nextbool line of (err, x, line) \<Rightarrow>
          let c = stored (\<lambda>x c. c\<lparr>isMpty := x\<rparr>) x c in if err < 0 then (False, c) else
          clcc_number line c)"

text \<open>
  The loop over the lines.  A line that fails leaves its fields in the entry that the next
  line fills.  The result is the valid calls and \<open>needRepoll\<close>.
\<close>

fun clcc_loop :: "string list \<Rightarrow> RIL_Call \<Rightarrow> RIL_Call list \<times> bool" where
  "clcc_loop [] entry = ([], False)"
| "clcc_loop (l # ls) entry = (case callFromCLCCLine l entry of (ok, c) \<Rightarrow>
     if \<not> ok then clcc_loop ls c
     else (let (calls, repoll) = clcc_loop ls zero_call
           in (c # calls, repoll \<or> call_state c \<noteq> RIL_CALL_ACTIVE \<and> call_state c \<noteq> RIL_CALL_HOLDING)))"

definition requestGetCurrentCalls :: "RIL_Token \<Rightarrow> (ril, unit) prog" where
  "requestGetCurrentCalls t = bindp (send_multiline ''AT+CLCC'' ''+CLCC:'' Wild) (\<lambda>r.
     bindp (rejected0 r) (\<lambda>bad.
       if bad then RIL_onRequestComplete t RIL_E_GENERIC_FAILURE Nothing
       else bindp (deref (snd r)) (\<lambda>x.
         let (calls, needRepoll) = clcc_loop (p_intermediates x) zero_call
         in seqp (complete_free t RIL_E_SUCCESS (Call_list calls) (snd r))
           (if needRepoll then RIL_requestTimedCallback Callback_sendCallStateChanged 500000 else ret ()))))"

definition sendCallStateChanged :: "(ril, unit) prog" where
  "sendCallStateChanged = RIL_onUnsolicitedResponse RIL_UNSOL_RESPONSE_CALL_STATE_CHANGED Nothing"

subsection \<open>Call control\<close>

definition requestDial :: "rdata \<Rightarrow> RIL_Token \<Rightarrow> (ril, unit) prog" where
  "requestDial data t = (case data of
      Dial_data address clir \<Rightarrow>
        seqp (send_ignored (''ATD'' @ address @
            (if clir = 1 then ''I'' else if clir = 2 then ''i'' else []) @ '';''))
          (RIL_onRequestComplete t RIL_E_SUCCESS Nothing)
    | No_data \<Rightarrow> failp NullDeref
    | _ \<Rightarrow> failp WildPointer)"

definition requestHangup :: "rdata \<Rightarrow> RIL_Token \<Rightarrow> (ril, unit) prog" where
  "requestHangup data t = bindp (int_arg data 0) (\<lambda>l.
     seqp (send_ignored (''AT+CHLD=1'' @ print_d l)) (RIL_onRequestComplete t RIL_E_SUCCESS Nothing))"

text \<open>A supplementary service command whose outcome the framework finds out later.\<close>

definition call_command :: "string \<Rightarrow> RIL_Token \<Rightarrow> (ril, unit) prog" where
  "call_command c t = seqp (send_ignored c) (RIL_onRequestComplete t RIL_E_SUCCESS Nothing)"

definition separate_connection :: "rdata \<Rightarrow> RIL_Token \<Rightarrow> (ril, unit) prog" where
  "separate_connection data t = bindp (int_arg data 0) (\<lambda>party.
     if party > 0 \<and> party < 10 then call_command (''AT+CHLD=2'' @ print_d party) t
     else RIL_onRequestComplete t RIL_E_GENERIC_FAILURE Nothing)"

definition send_dtmf :: "rdata \<Rightarrow> RIL_Token \<Rightarrow> (ril, unit) prog" where
  "send_dtmf data t = (case data of
      Char_data s \<Rightarrow> call_command (''AT+VTS='' @ take 1 s) t
    | No_data \<Rightarrow> failp NullDeref
    | _ \<Rightarrow> failp WildPointer)"

subsection \<open>Short messages\<close>

definition requestSendSMS :: "rdata \<Rightarrow> RIL_Token \<Rightarrow> (ril, unit) prog" where
  "requestSendSMS data t = bindp (string_arg data 0) (\<lambda>smsc.
     bindp (string_arg data 1) (\<lambda>x. bindp (non_null x) (\<lambda>pdu.
     bindp (send_sms (''AT+CMGS='' @ print_d (int (length pdu div 2)))
        ((case smsc of None \<Rightarrow> ''00'' | Some y \<Rightarrow> y) @ pdu) ''+CMGS:'' Null) (\<lambda>r.
     bindp (rejected0 r) (\<lambda>bad.
       if bad then complete_free t RIL_E_GENERIC_FAILURE Nothing (snd r)
       else complete_free t RIL_E_SUCCESS Sms_response (snd r))))))"

definition requestWriteSmsToSim :: "rdata \<Rightarrow> RIL_Token \<Rightarrow> (ril, unit) prog" where
  "requestWriteSmsToSim data t = (case data of
      Sms_write_data status pdu \<Rightarrow>
        bindp (send_sms (''AT+CMGW='' @ print_d (int (length pdu div 2)) @ '','' @ print_d status)
          pdu ''+CMGW:'' Null) (\<lambda>r.
        bindp (rejected0 r) (\<lambda>bad.
          if bad then complete_free t RIL_E_GENERIC_FAILURE Nothing (snd r)
          else complete_free t RIL_E_SUCCESS Nothing (snd r)))
    | No_data \<Rightarrow> failp NullDeref
    | _ \<Rightarrow> failp WildPointer)"

definition delete_sms :: "rdata \<Rightarrow> RIL_Token \<Rightarrow> (ril, unit) prog" where
  "delete_sms data t = bindp (int_arg data 0) (\<lambda>i.
     bindp (send_command (''AT+CMGD='' @ print_d i) Null) (\<lambda>r.
     bindp (rejected r) (\<lambda>bad.
       if bad then complete_free t RIL_E_GENERIC_FAILURE Nothing (snd r)
       else complete_free t RIL_E_SUCCESS Nothing (snd r))))"

text \<open>After the success answer control runs on into \<open>error\<close>.\<close>

definition requestSMSAcknowledge :: "rdata \<Rightarrow> RIL_Token \<Rightarrow> (ril, unit) prog" where
  "requestSMSAcknowledge data t = bindp (int_arg data 0) (\<lambda>ackSuccess.
     if ackSuccess = 1 \<or> ackSuccess = 0 then
       seqp (send_ignored (if ackSuccess = 1 then ''AT+CNMA=1'' else ''AT+CNMA=2''))
       (seqp (RIL_onRequestComplete t RIL_E_SUCCESS Nothing)
         (RIL_onRequestComplete t RIL_E_GENERIC_FAILURE Nothing))
     else RIL_onRequestComplete t RIL_E_GENERIC_FAILURE Nothing)"

subsection \<open>What these functions do\<close>

text \<open>Every handler but the SMS acknowledgement answers its request exactly once.\<close>

lemma once_requestGetCurrentCalls: "once t (requestGetCurrentCalls t)"
  unfolding requestGetCurrentCalls_def Let_def by (intro once_rules none_rules)

lemma once_call_command: "once t (call_command c t)"
  unfolding call_command_def by (intro once_rules none_rules)

lemma once_requestDial: "once t (requestDial d t)"
  unfolding requestDial_def by (auto split: rdata.split intro: once_rules none_rules)

lemma once_requestHangup: "once t (requestHangup d t)"
  unfolding requestHangup_def by (intro once_rules none_rules)

lemma once_separate_connection: "once t (separate_connection d t)"
  unfolding separate_connection_def by (intro once_rules none_rules once_call_command)

lemma once_send_dtmf: "once t (send_dtmf d t)"
  unfolding send_dtmf_def by (auto split: rdata.split intro: once_failp once_call_command)

lemma once_requestSendSMS: "once t (requestSendSMS d t)"
  unfolding requestSendSMS_def by (intro once_rules none_rules)

lemma once_requestWriteSmsToSim: "once t (requestWriteSmsToSim d t)"
  unfolding requestWriteSmsToSim_def by (auto split: rdata.split intro!: once_rules none_rules)

lemma once_delete_sms: "once t (delete_sms d t)"
  unfolding delete_sms_def by (intro once_rules none_rules)

text \<open>The acknowledgement is answered twice when it is sent.\<close>

lemma twice_requestSMSAcknowledge:
  assumes "ready B (Suc n) s" and "a \<in> {0, 1}"
  shows "safe B (requestSMSAcknowledge (Int_data [a]) t) s (\<lambda>_ u. completed t u = completed t s + 2)"
proof -
  have "safe B (seqp (send_ignored c) (seqp (RIL_onRequestComplete t e d) (RIL_onRequestComplete t e' d'))) s
      (\<lambda>_ u. completed t u = completed t s + 2)" for c e d e' d'
  proof (rule safe_ignored [OF assms(1)])
    fix u
    assume "quiet s u"
    then have "completed t u = completed t s"
      by (rule quiet_completed)
    then show "safe B (seqp (RIL_onRequestComplete t e d) (RIL_onRequestComplete t e' d')) u
        (\<lambda>_ v. completed t v = completed t s + 2)"
      by (simp add: RIL_onRequestComplete_def act_def completed_def)
  qed
  then show ?thesis
    using assms(2) by (auto simp: requestSMSAcknowledge_def int_arg_def)
qed

text \<open>
  Call control is safe: in a state in which commands are answered the request is completed,
  and nothing leaks.
\<close>

lemma call_command_safe:
  assumes "ready B (Suc n) s"
  shows "safe B (call_command c t) s (\<lambda>_. serves B n t s)"
  unfolding call_command_def by (rule safe_ignored [OF assms]) (rule complete_serves)

lemma requestDial_safe:
  assumes "ready B (Suc n) s"
  shows "safe B (requestDial (Dial_data a clir) t) s (\<lambda>_. serves B n t s)"
  unfolding requestDial_def rdata.case by (rule safe_ignored [OF assms]) (rule complete_serves)

lemma requestHangup_safe:
  assumes "ready B (Suc n) s"
  shows "safe B (requestHangup (Int_data (l # ls)) t) s (\<lambda>_. serves B n t s)"
  unfolding requestHangup_def int_arg_def
  by (simp, rule safe_ignored [OF assms]) (rule complete_serves)

lemma separate_connection_safe:
  assumes "ready B (Suc n) s"
  shows "safe B (separate_connection (Int_data (l # ls)) t) s (\<lambda>_. serves B n t s)"
  using call_command_safe [OF assms] complete_serves [OF refl ready_mono [OF assms] quiet_refl]
  by (simp add: separate_connection_def int_arg_def)

text \<open>A command whose success decides the answer.\<close>

lemma sms_safe:
  assumes "sender send good quiet" and "ready B (Suc n) s"
  shows "safe B (bindp (send Null) (\<lambda>r. bindp (rejected0 r) (\<lambda>bad.
       if bad then complete_free t e d (snd r) else complete_free t e' d' (snd r)))) s (\<lambda>_. serves B n t s)"
  by (rule safe_send [OF assms]) (auto simp: safe_rejected intro: complete_free_serves)

lemma requestSendSMS_safe:
  assumes "ready B (Suc n) s"
  shows "safe B (requestSendSMS (String_data [smsc, Some pdu]) t) s (\<lambda>_. serves B n t s)"
  unfolding requestSendSMS_def string_arg_def non_null_def
  by (simp, rule sms_safe [OF ril.sms.sender_axioms assms])

lemma requestWriteSmsToSim_safe:
  assumes "ready B (Suc n) s"
  shows "safe B (requestWriteSmsToSim (Sms_write_data st pdu) t) s (\<lambda>_. serves B n t s)"
  unfolding requestWriteSmsToSim_def by (simp, rule sms_safe [OF ril.sms.sender_axioms assms])

lemma delete_sms_safe:
  assumes "ready B (Suc n) s"
  shows "safe B (delete_sms (Int_data (i # is)) t) s (\<lambda>_. serves B n t s)"
  unfolding delete_sms_def int_arg_def
  by (simp, rule safe_send [OF ril.command.sender_axioms assms]) (auto simp: safe_rejected intro: complete_free_serves)

end
