(* ===== verification/RilData.thy ===== *)
theory RilData
  imports RilSim
begin

section \<open>reference-ril.c: data calls\<close>

text \<open>
  Setting up a data call starts the PPP daemon and waits for the address of \<open>ppp0\<close>; the data
  call list is what the modem reports about the context.  The daemon, the interface and the
  clock are the environment: \<open>ppp_polls\<close> says what each look at them finds.
\<close>

subsection \<open>Is the network ready?\<close>

text \<open>The response is not freed on any path.\<close>

definition parse_cereg :: "string \<Rightarrow> int option" where
  "parse_cereg line = do {
     cur \<leftarrow> tok_start (Some line);
     (_, cur) \<leftarrow> tok_int cur;
     (status, _) \<leftarrow> tok_int cur;
     Some status
   }"

definition netwrokDataReady :: "(ril, bool) prog" where
  "netwrokDataReady = bindp (send_singleline ''AT+CEREG?'' ''+CEREG:'' Wild) (\<lambda>r.
     if fst r \<noteq> 0 then ret False
     else bindp (first_line (snd r)) (\<lambda>line.
       case parse_cereg line of None \<Rightarrow> ret False | Some status \<Rightarrow> ret (status = 1 \<or> status = 5)))"

subsection \<open>The data call list\<close>

text \<open>The loop of \<open>IsNewCGCONTRDP\<close>: how often \<open>strstr(out1, ",")\<close> found a comma, at most \<open>n\<close>.\<close>

fun comma_steps :: "nat \<Rightarrow> string \<Rightarrow> nat" where
  "comma_steps 0 out1 = 0"
| "comma_steps (Suc n) out1 = (case dropWhile (\<lambda>c. c \<noteq> CHR '','') out1 of
      [] \<Rightarrow> 0
    | _ # rest \<Rightarrow> Suc (comma_steps n rest))"

definition IsNewCGCONTRDP :: "string \<Rightarrow> bool" where
  "IsNewCGCONTRDP out \<longleftrightarrow> comma_steps 6 out \<ge> 6"

text \<open>\<open>snprintf(chackBear, 20, ...)\<close>\<close>

definition chackBear :: "string \<Rightarrow> int \<Rightarrow> string" where
  "chackBear fmt pdp = take 19 (fmt @ print_d pdp)"

text \<open>The first loop: \<open>response->cid\<close> and \<open>response->active\<close>; \<open>None\<close>: \<open>goto error\<close>.\<close>

fun cgact_loop :: "string list \<Rightarrow> int \<times> int \<Rightarrow> (int \<times> int) option" where
  "cgact_loop [] r = Some r"
| "cgact_loop (line # ls) (cid, active) =
     (case do { cur \<leftarrow> tok_start (Some line); tok_int cur } of
        None \<Rightarrow> None
      | Some (cid, cur) \<Rightarrow>
          if cid \<noteq> 1 then cgact_loop ls (cid, active)
          else (case tok_int cur of None \<Rightarrow> None | Some (active, _) \<Rightarrow> Some (cid, active)))"

text \<open>
  The number after the first \<open>V\<close> of the firmware version, of up to five digits; \<open>None\<close>:
  \<open>memchr\<close> finds no \<open>V\<close> and the loop reads from a NULL pointer.
\<close>

definition version_digits :: "string \<Rightarrow> string" where
  "version_digits v = takeWhile isdigit (take 5 v)"

definition version_number :: "string \<Rightarrow> nat option" where
  "version_number v = (case dropWhile (\<lambda>c. c \<noteq> CHR ''V'') v of
      [] \<Rightarrow> None
    | _ # rest \<Rightarrow> Some (fst (scan_digits 10 0 (version_digits rest))))"

definition dnses_size :: nat where "dnses_size = 51"

text \<open>From firmware 30 on, the mask, the gateway and the name servers follow the address.\<close>

definition addresses_new ::
  "RIL_Data_Call_Response \<Rightarrow> string \<Rightarrow> cursor \<Rightarrow> (ril, RIL_Data_Call_Response option) prog" where
  "addresses_new resp out cur = or_goto (tok_str cur) (ret None) (\<lambda>(_, cur).
     or_goto (tok_str cur) (ret None) (\<lambda>(gw, cur).
     or_goto (tok_str cur) (ret None) (\<lambda>(dns1, cur).
       if dnses_size \<le> length dns1 then failp OutOfBounds
       else or_goto (tok_str cur) (ret None) (\<lambda>(dns2, _).
         let dns = (if dns2 \<noteq> [] then dns1 @ '' '' @ dns2 else dns1)
         in if dnses_size \<le> length dns then failp OutOfBounds
            else ret (Some (resp\<lparr>addresses := out, gateways := gw, dnses := dns\<rparr>))))))"

text \<open>
  Before, the address carries eight characters too many, the gateway is fixed, and the name
  server is asked for with another command, whose response is never freed.
\<close>

definition parse_dns :: "string \<Rightarrow> string option" where
  "parse_dns line = do {
     cur \<leftarrow> tok_start (Some line); (_, cur) \<leftarrow> tok_int cur; (out, _) \<leftarrow> tok_str cur; Some out }"

text \<open>\<open>strrchr(out, ':') + 1\<close>\<close>

definition after_last_colon :: "string \<Rightarrow> string option" where
  "after_last_colon out = (if CHR '':'' \<in> set out
     then Some (rev (takeWhile (\<lambda>c. c \<noteq> CHR '':'') (rev out))) else None)"

definition addresses_old ::
  "RIL_Data_Call_Response \<Rightarrow> string \<Rightarrow> (ril, RIL_Data_Call_Response option) prog" where
  "addresses_old resp out =
     (if length out < 8 then failp OutOfBounds
      else bindp (getp s_default_pdp) (\<lambda>pdp.
        bindp (send_singleline (chackBear ''AT+CGPDNSADDR='' pdp) ''+CGPDNSADDR:'' Wild) (\<lambda>r.
        bindp (rejected r) (\<lambda>bad.
          if bad then ret None
          else bindp (first_line (snd r)) (\<lambda>line.
            or_goto (parse_dns line) (ret None) (\<lambda>dns.
            or_goto (after_last_colon dns) (failp NullDeref) (\<lambda>server.
              ret (Some (resp\<lparr>addresses := take (length out - 8) out, gateways := ''192.168.0.1'',
                dnses := server\<rparr>)))))))))"

text \<open>The body of the second loop, which leaves it after the first line.\<close>

definition contrdp_line ::
  "RIL_Data_Call_Response \<Rightarrow> string \<Rightarrow> (ril, RIL_Data_Call_Response option) prog" where
  "contrdp_line resp line = or_goto
     (do { cur \<leftarrow> tok_start (Some line); (_, cur) \<leftarrow> tok_int cur; (_, cur) \<leftarrow> tok_int cur;
           (_, cur) \<leftarrow> tok_str cur; tok_str cur })
     (ret None)
     (\<lambda>(out, cur). bindp (getp MVersion) (\<lambda>v.
        or_goto (version_number v) (failp NullDeref) (\<lambda>numz.
          let resp = resp\<lparr>dc_status := 0, dc_active := 2, dc_type := ''IP'', dc_ifname := ''ppp0''\<rparr>
          in if numz \<ge> 30 then addresses_new resp out cur else addresses_old resp out)))"

text \<open>\<open>RIL_Token *t\<close>: \<open>None\<close> for NULL.\<close>

definition data_calls_failed :: "RIL_Token option \<Rightarrow> (ril, unit) prog" where
  "data_calls_failed t = (case t of
      Some t \<Rightarrow> RIL_onRequestComplete t RIL_E_GENERIC_FAILURE Nothing
    | None \<Rightarrow> RIL_onUnsolicitedResponse RIL_UNSOL_DATA_CALL_LIST_CHANGED Nothing)"

text \<open>Only a log message is left to the \<open>else\<close> branch: the notification is always sent.\<close>

definition data_calls_report :: "RIL_Token option \<Rightarrow> RIL_Data_Call_Response \<Rightarrow> (ril, unit) prog" where
  "data_calls_report t resp = seqp
     (case t of Some t \<Rightarrow> RIL_onRequestComplete t RIL_E_SUCCESS (Data_call resp) | None \<Rightarrow> ret ())
     (RIL_onUnsolicitedResponse RIL_UNSOL_DATA_CALL_LIST_CHANGED (Data_call resp))"

definition empty_data_call :: RIL_Data_Call_Response where
  "empty_data_call = \<lparr>dc_status = -1, suggestedRetryTime = -1, dc_cid = -1, dc_active = -1, dc_type = ''IP'',
     dc_ifname = [], addresses = [], dnses = [], gateways = [], pcscf = [], mtu = 0\<rparr>"

text \<open>A rejected command is answered without freeing the response.\<close>

definition requestOrSendDataCallList :: "RIL_Token option \<Rightarrow> (ril, unit) prog" where
  "requestOrSendDataCallList t = bindp (send_multiline ''AT+CGACT?'' ''+CGACT:'' Wild) (\<lambda>r.
     bindp (rejected0 r) (\<lambda>bad.
       if bad then data_calls_failed t
       else bindp (deref (snd r)) (\<lambda>x.
         or_goto (cgact_loop (p_intermediates x) (-1, -1))
           (seqp (data_calls_failed t) (at_response_free (snd r))) (\<lambda>(cid, active).
         seqp (at_response_free (snd r))
         (bindp (getp s_default_pdp) (\<lambda>pdp.
         bindp (send_multiline (chackBear ''AT+CGCONTRDP='' pdp) ''+CGCONTRDP:'' (snd r)) (\<lambda>r.
         bindp (rejected0 r) (\<lambda>bad.
           if bad then data_calls_failed t
           else bindp (deref (snd r)) (\<lambda>x.
             let resp = empty_data_call\<lparr>dc_cid := cid, dc_active := active\<rparr> in
             bindp (case p_intermediates x of [] \<Rightarrow> ret (Some resp) | line # _ \<Rightarrow> contrdp_line resp line)
               (\<lambda>res. or_goto res (seqp (data_calls_failed t) (at_response_free (snd r)))
                 (\<lambda>resp. seqp (at_response_free (snd r)) (data_calls_report t resp))))))))))))"

definition requestDataCallList :: "RIL_Token \<Rightarrow> (ril, unit) prog" where
  "requestDataCallList t = requestOrSendDataCallList (Some t)"

definition onDataCallExit :: "(ril, unit) prog" where
  "onDataCallExit = RIL_onUnsolicitedResponse RIL_UNSOL_DATA_CALL_LIST_CHANGED Nothing"

definition onDataCallListChanged :: "(ril, unit) prog" where
  "onDataCallListChanged = RIL_onUnsolicitedResponse RIL_UNSOL_DATA_CALL_LIST_CHANGED Nothing"

subsection \<open>Setting up and tearing down\<close>

definition requestDeactivateDataCall :: "RIL_Token \<Rightarrow> (ril, unit) prog" where
  "requestDeactivateDataCall t = seqp (act Pppd_stop)
     (if t \<noteq> None then RIL_onRequestComplete t RIL_E_SUCCESS Nothing
      else RIL_onUnsolicitedResponse RIL_UNSOL_DATA_CALL_LIST_CHANGED Nothing)"

text \<open>\<open>pppd.c\<close> calls this when the daemon exits; with 1 it gives up.\<close>

definition notifyDataCallProcessExit :: "(ril, int) prog" where
  "notifyDataCallProcessExit = bindp (getp bSetupDataCallCompelete) (\<lambda>complete.
     if complete then
       seqp (RIL_requestTimedCallback Callback_onDataCallExit 0)
       (seqp (modp (\<lambda>s. s\<lparr>bSetupDataCallCompelete := False\<rparr>)) (ret 1))
     else seqp (modp (\<lambda>s. s\<lparr>nSetupDataCallFailTimes := nSetupDataCallFailTimes s + 1\<rparr>))
       (bindp (getp nSetupDataCallFailTimes) (\<lambda>n. ret (if n > 3 then 1 else 0))))"

fun notify_times :: "nat \<Rightarrow> (ril, unit) prog" where
  "notify_times 0 = ret ()"
| "notify_times (Suc n) = bindp notifyDataCallProcessExit (\<lambda>_. notify_times n)"

text \<open>
  The address of \<open>ppp0\<close>.  The buffer has 1024 bytes, an entry \<open>struct ifreq\<close> 40; the search ends
  at the first interface whose flags cannot be read.
\<close>

definition NO_ADDRESS :: string where
  "NO_ADDRESS = ''0.0.0.0''"

definition inet_ntoa :: "nat list \<Rightarrow> string" where
  "inet_ntoa addr = tl (concat (map (\<lambda>b. CHR ''.'' # print_nat 10 b) addr))"

fun scan_ifs :: "netif list \<Rightarrow> string" where
  "scan_ifs [] = NO_ADDRESS"
| "scan_ifs (ifr # ifs) = (case ifr_up ifr of
      None \<Rightarrow> NO_ADDRESS
    | Some up \<Rightarrow> if up \<and> ifr_name ifr = ''ppp0'' then inet_ntoa (ifr_addr ifr) else scan_ifs ifs)"

definition BUF_SIZE :: nat where "BUF_SIZE = 1024"
definition IFREQ_SIZE :: nat where "IFREQ_SIZE = 40"    \<comment> \<open>\<open>sizeof(struct ifreq)\<close>\<close>

definition get_local_ip :: "ppp_poll \<Rightarrow> string" where
  "get_local_ip p = (if \<not> has_socket p then NO_ADDRESS
     else (case ifconf p of
        None \<Rightarrow> NO_ADDRESS
      | Some ifs \<Rightarrow> scan_ifs (take (BUF_SIZE div IFREQ_SIZE) ifs)))"

text \<open>What happens during \<open>sleep(1)\<close>, before the \<open>k\<close>-th look.\<close>

definition asleep :: "nat \<Rightarrow> (ril, unit) prog" where
  "asleep k = bindp (getp (\<lambda>s. ppp_polls s k)) (\<lambda>p.
     seqp (notify_times (exits p)) (if lost_channel p then onATReaderClosed else ret ()))"

text \<open>
  The polling loop, with \<open>n\<close> rounds left of the 50 that \<open>retry\<close> counts; \<open>None\<close>: \<open>goto
  error\<close>, otherwise the content of \<open>ppp_local_ip\<close> after the loop.
\<close>

fun poll_loop :: "nat \<Rightarrow> nat \<Rightarrow> string \<Rightarrow> (ril, string option) prog" where
  "poll_loop 0 k ip = seqp (asleep k) (ret (Some ip))"
| "poll_loop (Suc n) k ip = seqp (asleep k)
     (bindp (getp (\<lambda>s. s_closed s \<or> nSetupDataCallFailTimes s > 3)) (\<lambda>stop.
        if stop then ret (Some ip)
        else bindp (getp (\<lambda>s. ppp_polls s k)) (\<lambda>p.
          if child_gone p \<or> \<not> running p then ret None
          else if get_local_ip p \<noteq> NO_ADDRESS then ret (Some (get_local_ip p))
          else poll_loop n (Suc k) (get_local_ip p))))"

definition setup_failed :: "RIL_Token \<Rightarrow> (ril, unit) prog" where
  "setup_failed t = RIL_onRequestComplete t RIL_E_GENERIC_FAILURE Nothing"

definition optional_arg :: "rdata \<Rightarrow> nat \<Rightarrow> nat \<Rightarrow> (ril, string option) prog" where
  "optional_arg data datalen i =
     (if datalen > i * pointer_size then string_arg data i else ret None)"

definition auth_default :: "string option \<Rightarrow> string" where
  "auth_default auth = (case auth of
      None \<Rightarrow> ''2''
    | Some a \<Rightarrow> if a \<noteq> [] \<and> hd a = CHR ''0'' then ''2'' else a)"

definition CONFIG_DEFAULT_PDP :: int where "CONFIG_DEFAULT_PDP = 1"

text \<open>From \<open>s_default_pdp = CONFIG_DEFAULT_PDP\<close> to \<open>pppd_start\<close>, which returns a process id.\<close>

definition start_ppp ::
  "string \<Rightarrow> string option \<Rightarrow> string option \<Rightarrow> string option \<Rightarrow> string option \<Rightarrow> (ril, int) prog" where
  "start_ppp apn user pass auth pdp_type =
     (let pdp = (if length apn \<le> 1 then 1 else CONFIG_DEFAULT_PDP);
          number = (if length apn \<le> 1 then ''*99#''
                    else take 19 (''*99***'' @ print_d CONFIG_DEFAULT_PDP @ ''#''))
      in seqp (modp (\<lambda>s. s\<lparr>s_default_pdp := pdp\<rparr>))
         (seqp (act (Pppd_start pdp pdp_type apn (case user of None \<Rightarrow> [] | Some u \<Rightarrow> u)
           (case pass of None \<Rightarrow> [] | Some u \<Rightarrow> u) (auth_default auth) number))
         (getp pppd_pid)))"

definition setup_connected :: "RIL_Token \<Rightarrow> string \<Rightarrow> (ril, unit) prog" where
  "setup_connected t ip = seqp (modp (\<lambda>s. s\<lparr>sKeepLocalip := ip\<rparr>))
     (seqp (requestOrSendDataCallList (Some t))
       (modp (\<lambda>s. s\<lparr>bSetupDataCallCompelete := True, nSetupDataCallFailTimes := 0\<rparr>)))"

definition requestSetupDataCall :: "rdata \<Rightarrow> nat \<Rightarrow> RIL_Token \<Rightarrow> (ril, unit) prog" where
  "requestSetupDataCall data datalen t =
     bindp (string_arg data 2) (\<lambda>apn.
     bindp (optional_arg data datalen 3) (\<lambda>user.
     bindp (optional_arg data datalen 4) (\<lambda>pass.
     bindp (optional_arg data datalen 5) (\<lambda>auth.
     bindp (if datalen > 6 * pointer_size then string_arg data 6 else ret (Some ''IP'')) (\<lambda>pdp_type.
     seqp (send_ignored ''AT&D2'')
     (seqp (modp (\<lambda>s. s\<lparr>bSetupDataCallCompelete := False, nSetupDataCallFailTimes := 0\<rparr>))
     (bindp isRadioOn (\<lambda>on.
       if on \<noteq> 1 then setup_failed t
       else bindp netwrokDataReady (\<lambda>netready.
         if \<not> netready then setup_failed t
         else bindp (non_null apn) (\<lambda>apn.
           bindp (start_ppp apn user pass auth pdp_type) (\<lambda>pid.
             if pid < 0 then setup_failed t
             else bindp (poll_loop 50 0 []) (\<lambda>res. or_goto res (setup_failed t) (\<lambda>ip.
               if ip = NO_ADDRESS then setup_failed t else setup_connected t ip)))))))))))))"

subsection \<open>What these functions do\<close>

lemma comma_steps_count:
  "comma_steps n out = min n (length (filter (\<lambda>c. c = CHR '','') out))"
proof (induction n arbitrary: out)
  case (Suc n)
  have "length (filter (\<lambda>c. c = CHR '','') out) = (case dropWhile (\<lambda>c. c \<noteq> CHR '','') out of
      [] \<Rightarrow> 0 | _ # rest \<Rightarrow> Suc (length (filter (\<lambda>c. c = CHR '','') rest)))"
    by (induction out) (simp_all del: dropWhile_eq_Nil_conv)
  then show ?case
    by (cases "dropWhile (\<lambda>c. c \<noteq> CHR '','') out") (simp_all add: Suc.IH del: dropWhile_eq_Nil_conv)
qed simp

lemma IsNewCGCONTRDP_commas: "IsNewCGCONTRDP out \<longleftrightarrow> 6 \<le> length (filter (\<lambda>c. c = CHR '','') out)"
  by (simp add: IsNewCGCONTRDP_def comma_steps_count)

text \<open>Every data call request is answered exactly once, if the code returns.\<close>

lemma none_ready: "none t netwrokDataReady"
  unfolding netwrokDataReady_def by (intro none_rules)

lemma none_addresses: "none t (addresses_new resp out cur)" "none t (addresses_old resp out)"
  unfolding addresses_new_def addresses_old_def Let_def by (intro none_rules)+

lemma none_contrdp_line: "none t (contrdp_line resp line)"
  unfolding contrdp_line_def Let_def by (intro none_rules none_addresses)

lemma none_list: "none t m \<Longrightarrow> (\<And>x ys. none t (f x ys)) \<Longrightarrow> none t (case xs of [] \<Rightarrow> m | x # ys \<Rightarrow> f x ys)"
  by (cases xs) auto

lemma once_data_calls_failed: "once t (data_calls_failed (Some t))"
  unfolding data_calls_failed_def by (simp add: once_complete)

lemma once_data_calls_report: "once t (data_calls_report (Some t) resp)"
  unfolding data_calls_report_def option.case by (intro once_rules none_rules)

lemma once_seq_l: "once t m \<Longrightarrow> none t n \<Longrightarrow> once t (seqp m n)"
  unfolding once_def none_def by (rule adds_seq_l)

lemma once_data_call_list: "once t (requestOrSendDataCallList (Some t))"
  unfolding requestOrSendDataCallList_def Let_def
  by (intro once_rules none_rules none_list none_contrdp_line once_data_calls_report
      once_data_calls_failed once_seq_l [OF once_data_calls_failed])

lemma once_requestDataCallList: "once t (requestDataCallList t)"
  unfolding requestDataCallList_def by (rule once_data_call_list)

lemma none_act: "(\<And>e p. a \<noteq> OnRequestComplete t e p) \<Longrightarrow> none t (act a)"
  unfolding act_def by (rule none_modp) (auto split: ril_act.split)

lemma once_requestDeactivateDataCall: "once (Some t) (requestDeactivateDataCall (Some t))"
  unfolding requestDeactivateDataCall_def by (intro once_seq none_act once_rules) simp_all

lemma none_notify: "none t notifyDataCallProcessExit"
  unfolding notifyDataCallProcessExit_def
  by (intro none_rules none_modp) (simp_all add: completed_def)

lemma none_notify_times: "none t (notify_times n)"
  by (induction n) (auto intro: none_rules none_notify)

lemma none_asleep: "none t (asleep k)"
  unfolding asleep_def
proof (intro none_rules none_notify_times)
  show "none t onATReaderClosed"
    by (auto simp: none_def onATReaderClosed_apply quiet_completed [OF conjunct2 [OF closed_state_frame]]
        intro!: addsI)
qed

lemma none_poll_loop: "none t (poll_loop n k ip)"
  by (induction n k ip rule: poll_loop.induct) (auto intro!: none_rules none_asleep)

lemma none_start_ppp: "none t (start_ppp apn user pass auth ty)"
  unfolding start_ppp_def Let_def
  by (intro none_rules none_act none_modp) (simp_all add: completed_def)

lemma once_setup_connected: "once t (setup_connected t ip)"
  unfolding setup_connected_def
  by (intro once_seq none_modp once_seq_l once_data_call_list) (simp_all add: completed_def)

lemma once_requestSetupDataCall: "once t (requestSetupDataCall d n t)"
  unfolding requestSetupDataCall_def setup_failed_def optional_arg_def
  by (intro once_rules none_rules none_modp none_isRadioOn none_ready none_start_ppp none_poll_loop
      once_setup_connected) (simp_all add: completed_def)

subsection \<open>The address of the data call\<close>

text \<open>At this look the daemon is alive, and an interface \<open>ppp0\<close> that is up has the address.\<close>

definition has_address :: "ppp_poll \<Rightarrow> string \<Rightarrow> bool" where
  "has_address p a \<longleftrightarrow> \<not> child_gone p \<and> running p \<and> has_socket p \<and>
     (\<exists>ifs ifr. ifconf p = Some ifs \<and> ifr \<in> set ifs \<and> ifr_name ifr = ''ppp0'' \<and> ifr_up ifr = Some True \<and>
        a = inet_ntoa (ifr_addr ifr))"

lemma scan_ifs_address:
  "scan_ifs ifs = NO_ADDRESS \<or> (\<exists>ifr \<in> set ifs. ifr_name ifr = ''ppp0'' \<and> ifr_up ifr = Some True \<and>
     scan_ifs ifs = inet_ntoa (ifr_addr ifr))"
  by (induction ifs) (auto split: option.splits)

lemma get_local_ip_address:
  "\<not> child_gone p \<Longrightarrow> running p \<Longrightarrow> get_local_ip p = NO_ADDRESS \<or> has_address p (get_local_ip p)"
  using scan_ifs_address by (auto simp: get_local_ip_def has_address_def split: option.splits) (meson in_set_takeD)

lemma asleep_polls: "keeps (\<lambda>s t. ppp_polls t = ppp_polls s) (asleep k)"
proof -
  have "keeps (\<lambda>s t. ppp_polls t = ppp_polls s) notifyDataCallProcessExit"
    by (rule keepsI) (auto simp: notifyDataCallProcessExit_def RIL_requestTimedCallback_def act_def outcome_simps
        split: if_splits)
  then have "keeps (\<lambda>s t. ppp_polls t = ppp_polls s) (notify_times n)" for n
    by (induction n) (auto intro!: keeps_bind keeps_ret reflpI transpI)
  moreover have "keeps (\<lambda>s t. ppp_polls t = ppp_polls s) onATReaderClosed"
    by (rule keepsI) (auto simp: onATReaderClosed_apply closed_state_def Let_def)
  ultimately show ?thesis
    unfolding asleep_def by (auto intro!: keeps_bind keeps_seq keeps_getp keeps_ret reflpI transpI)
qed

theorem poll_loop_address:
  "poll_loop n k ip s = Done (Some a) t \<Longrightarrow>
   a = ip \<or> a = NO_ADDRESS \<or> (\<exists>j. k \<le> j \<and> j < k + n \<and> has_address (ppp_polls s j) a)"
proof (induction n arbitrary: k ip s)
  case 0
  then show ?case by (auto simp: outcome_simps split: outcome.splits)
next
  case (Suc n)
  then obtain x u where u: "asleep k s = Done x u" by (auto simp: outcome_simps split: outcome.splits)
  then have polls: "ppp_polls u = ppp_polls s" using keepsD [OF asleep_polls] by blast
  let ?p = "ppp_polls s k"
  consider "a = ip" | "get_local_ip ?p \<noteq> NO_ADDRESS" "a = get_local_ip ?p" "\<not> child_gone ?p" "running ?p"
    | "get_local_ip ?p = NO_ADDRESS" "poll_loop n (Suc k) (get_local_ip ?p) u = Done (Some a) t"
    using Suc.prems u by (auto simp: outcome_simps polls split: if_splits)
  then show ?case
  proof cases
    case 2
    then show ?thesis using get_local_ip_address [of ?p] by auto
  next
    case 3
    then show ?thesis using Suc.IH [of "Suc k" "get_local_ip ?p" u] polls by fastforce
  qed simp
qed

text \<open>
  The daemon comes up: no exit is reported, the channel stays open, and the first look that finds
  an address gives it.
\<close>

definition calm :: "ppp_poll \<Rightarrow> bool" where
  "calm p \<longleftrightarrow> exits p = 0 \<and> \<not> lost_channel p \<and> \<not> child_gone p \<and> running p"

theorem poll_loop_finds:
  "\<not> s_closed s \<Longrightarrow> nSetupDataCallFailTimes s \<le> 3 \<Longrightarrow> j < n \<Longrightarrow> \<forall>i \<le> j. calm (ppp_polls s (k + i)) \<Longrightarrow>
   \<forall>i < j. get_local_ip (ppp_polls s (k + i)) = NO_ADDRESS \<Longrightarrow> get_local_ip (ppp_polls s (k + j)) \<noteq> NO_ADDRESS \<Longrightarrow>
   poll_loop n k ip s = Done (Some (get_local_ip (ppp_polls s (k + j)))) s"
proof (induction n arbitrary: j k ip)
  case (Suc n)
  have "calm (ppp_polls s k)" using Suc.prems(4) by (metis add.right_neutral le0)
  then have asleep: "asleep k s = Done () s" by (simp add: asleep_def calm_def outcome_simps)
  show ?case
  proof (cases j)
    case 0
    then show ?thesis
      using Suc.prems \<open>calm (ppp_polls s k)\<close> by (simp add: seqp_apply asleep bindp_apply getp_apply calm_def ret_apply)
  next
    case (Suc i)
    have "get_local_ip (ppp_polls s k) = NO_ADDRESS" using Suc.prems(5) Suc by (metis add.right_neutral zero_less_Suc)
    moreover have "poll_loop n (Suc k) NO_ADDRESS s = Done (Some (get_local_ip (ppp_polls s (Suc k + i)))) s"
    proof (rule Suc.IH)
      show "\<forall>l \<le> i. calm (ppp_polls s (Suc k + l))"
        using Suc.prems(4) Suc by (metis Suc_le_mono add_Suc add_Suc_right)
      show "\<forall>l < i. get_local_ip (ppp_polls s (Suc k + l)) = NO_ADDRESS"
        using Suc.prems(5) Suc by (metis Suc_mono add_Suc add_Suc_right)
    qed (use Suc.prems Suc in simp_all)
    ultimately show ?thesis
      using Suc Suc.prems(1,2) \<open>calm (ppp_polls s k)\<close>
      by (simp add: seqp_apply asleep bindp_apply getp_apply calm_def)
  qed
qed simp

end
