(* ===== verification/RilMain.thy ===== *)
theory RilMain
  imports RilNet RilCalls RilData
begin

section \<open>reference-ril.c: requests from the framework, and start-up\<close>

subsection \<open>Which requests are let through\<close>

definition allowed_unavailable :: "request \<Rightarrow> bool" where
  "allowed_unavailable req \<longleftrightarrow>
     req \<in> {RIL_REQUEST_GET_SIM_STATUS, RIL_REQUEST_SET_PREFERRED_NETWORK_TYPE,
       RIL_REQUEST_BASEBAND_VERSION, RIL_REQUEST_GET_RADIO_CAPABILITY, RIL_REQUEST_GET_IMEI,
       RIL_REQUEST_DEVICE_IDENTITY}"

definition allowed_off :: "request \<Rightarrow> bool" where
  "allowed_off req \<longleftrightarrow> req = RIL_REQUEST_RADIO_POWER \<or> allowed_unavailable req"

subsection \<open>The cases of \<open>onRequest\<close>\<close>

definition answer :: "RIL_Token \<Rightarrow> (ril, unit) prog" where
  "answer t = RIL_onRequestComplete t RIL_E_SUCCESS Nothing"

definition numeric_request :: "string \<Rightarrow> (string \<Rightarrow> payload) \<Rightarrow> RIL_Token \<Rightarrow> (ril, unit) prog" where
  "numeric_request c f t = bindp (send_numeric c Null) (\<lambda>r. bindp (rejected r) (\<lambda>bad.
     if bad then complete_free t RIL_E_GENERIC_FAILURE Nothing (snd r)
     else bindp (first_line (snd r)) (\<lambda>line. complete_free t RIL_E_SUCCESS (f line) (snd r))))"

definition identity_strings :: "string \<Rightarrow> payload" where
  "identity_strings line = Texts [Some line, Some [], Some [], Some []]"

text \<open>The first requests of a new connection do not switch the radio off.\<close>

definition radio_power_request :: "rdata \<Rightarrow> nat \<Rightarrow> RIL_Token \<Rightarrow> (ril, unit) prog" where
  "radio_power_request data datalen t = bindp (getp onRequestCount) (\<lambda>n.
     bindp (if n < 4 then bindp (int_arg data 0) (\<lambda>onOff. ret (onOff = 0)) else ret False) (\<lambda>ignore.
       if ignore then answer t else requestRadioPower data datalen t))"

text \<open>The log messages of \<open>OEM_HOOK_STRINGS\<close> read every string.\<close>

fun read_strings :: "nat \<Rightarrow> rdata \<Rightarrow> (ril, unit) prog" where
  "read_strings 0 data = ret ()"
| "read_strings (Suc n) data = seqp (read_strings n data) (bindp (string_arg data n) (\<lambda>_. ret ()))"

definition radio_access_families :: "string list" where
  "radio_access_families = [''GSM'', ''GPRS'', ''EDGE'', ''UMTS'', ''HSDPA'', ''HSUPA'', ''HSPA'', ''HSPAP'',
     ''TD_SCDMA'', ''LTE'']"

definition currentState :: "(ril, RIL_RadioState) prog" where
  "currentState = getp sState"

definition requestSendUSSD :: "RIL_Token \<Rightarrow> (ril, unit) prog" where
  "requestSendUSSD t = RIL_onRequestComplete t RIL_E_REQUEST_NOT_SUPPORTED Nothing"

fun dispatch ::
  "nat \<Rightarrow> (RIL_RadioTechnology \<Rightarrow> int) \<Rightarrow> request \<Rightarrow> rdata \<Rightarrow> nat \<Rightarrow> RIL_Token \<Rightarrow> (ril, unit) prog" where
  "dispatch maxApps tech RIL_REQUEST_GET_SIM_STATUS d n t =
     bindp (getCardStatusV12 maxApps) (\<lambda>card_status. RIL_onRequestComplete t RIL_E_SUCCESS (Card card_status))"
| "dispatch maxApps tech RIL_REQUEST_GET_CURRENT_CALLS d n t = answer t"
| "dispatch maxApps tech RIL_REQUEST_DIAL d n t = requestDial d t"
| "dispatch maxApps tech RIL_REQUEST_HANGUP d n t = requestHangup d t"
| "dispatch maxApps tech RIL_REQUEST_HANGUP_WAITING_OR_BACKGROUND d n t = call_command ''AT+CHLD=0'' t"
| "dispatch maxApps tech RIL_REQUEST_HANGUP_FOREGROUND_RESUME_BACKGROUND d n t =
     call_command ''AT+CHLD=1'' t"
| "dispatch maxApps tech RIL_REQUEST_SWITCH_WAITING_OR_HOLDING_AND_ACTIVE d n t =
     call_command ''AT+CHLD=2'' t"
| "dispatch maxApps tech RIL_REQUEST_ANSWER d n t = call_command ''ATA'' t"
| "dispatch maxApps tech RIL_REQUEST_CONFERENCE d n t = call_command ''AT+CHLD=3'' t"
| "dispatch maxApps tech RIL_REQUEST_UDUB d n t = call_command ''ATH'' t"
| "dispatch maxApps tech RIL_REQUEST_SEPARATE_CONNECTION d n t = separate_connection d t"
| "dispatch maxApps tech RIL_REQUEST_SIGNAL_STRENGTH d n t = requestSignalStrength t"
| "dispatch maxApps tech RIL_REQUEST_GET_ACTIVITY_INFO d n t = answer t"
| "dispatch maxApps tech RIL_REQUEST_VOICE_REGISTRATION_STATE d n t =
     requestRegistrationState tech RIL_REQUEST_VOICE_REGISTRATION_STATE t"
| "dispatch maxApps tech RIL_REQUEST_DATA_REGISTRATION_STATE d n t =
     requestRegistrationState tech RIL_REQUEST_DATA_REGISTRATION_STATE t"
| "dispatch maxApps tech RIL_REQUEST_OPERATOR d n t = requestOperator t"
| "dispatch maxApps tech RIL_REQUEST_RADIO_POWER d n t = radio_power_request d n t"
| "dispatch maxApps tech RIL_REQUEST_DTMF d n t = send_dtmf d t"
| "dispatch maxApps tech RIL_REQUEST_SEND_SMS d n t = requestSendSMS d t"
| "dispatch maxApps tech RIL_REQUEST_SETUP_DATA_CALL d n t = requestSetupDataCall d n t"
| "dispatch maxApps tech RIL_REQUEST_DEACTIVATE_DATA_CALL d n t = requestDeactivateDataCall t"
| "dispatch maxApps tech RIL_REQUEST_SMS_ACKNOWLEDGE d n t = requestSMSAcknowledge d t"
| "dispatch maxApps tech RIL_REQUEST_GET_IMSI d n t = numeric_request ''AT+CIMI'' Text t"
| "dispatch maxApps tech RIL_REQUEST_GET_IMEI d n t = numeric_request ''AT+CGSN'' Text t"
| "dispatch maxApps tech RIL_REQUEST_DEVICE_IDENTITY d n t = numeric_request ''AT+CGSN'' identity_strings t"
| "dispatch maxApps tech RIL_REQUEST_BASEBAND_VERSION d n t = requestBaseBandVersion t"
| "dispatch maxApps tech RIL_REQUEST_SIM_IO d n t = requestSIM_IO d t"
| "dispatch maxApps tech RIL_REQUEST_SEND_USSD d n t = requestSendUSSD t"
| "dispatch maxApps tech RIL_REQUEST_CANCEL_USSD d n t = numeric_request ''AT+CUSD=2'' Text t"
| "dispatch maxApps tech RIL_REQUEST_SET_NETWORK_SELECTION_AUTOMATIC d n t = answer t"
| "dispatch maxApps tech RIL_REQUEST_DATA_CALL_LIST d n t = requestDataCallList t"
| "dispatch maxApps tech RIL_REQUEST_SET_PREFERRED_NETWORK_TYPE d n t = bindp currentState (\<lambda>state.
     if state \<le> RADIO_STATE_UNAVAILABLE then answer t else requestSetPreferredNetworkType d n t)"
| "dispatch maxApps tech RIL_REQUEST_REPORT_STK_SERVICE_IS_RUNNING d n t = answer t"
| "dispatch maxApps tech RIL_REQUEST_CDMA_SET_SUBSCRIPTION_SOURCE d n t = answer t"
| "dispatch maxApps tech RIL_REQUEST_GET_RADIO_CAPABILITY d n t =
     RIL_onRequestComplete t RIL_E_SUCCESS (Radio_capability radio_access_families)"
| "dispatch maxApps tech RIL_REQUEST_QUERY_NETWORK_SELECTION_MODE d n t = requestQueryNetworkSelectionMode t"
| "dispatch maxApps tech RIL_REQUEST_OEM_HOOK_RAW d n t = RIL_onRequestComplete t RIL_E_SUCCESS (Echo d n)"
| "dispatch maxApps tech RIL_REQUEST_SET_RADIO_CAPABILITY d n t = RIL_onRequestComplete t RIL_E_SUCCESS (Echo d n)"
| "dispatch maxApps tech RIL_REQUEST_OEM_HOOK_STRINGS d n t =
     seqp (read_strings (n div pointer_size) d) (RIL_onRequestComplete t RIL_E_SUCCESS (Echo d n))"
| "dispatch maxApps tech RIL_REQUEST_WRITE_SMS_TO_SIM d n t = requestWriteSmsToSim d t"
| "dispatch maxApps tech RIL_REQUEST_DELETE_SMS_ON_SIM d n t = delete_sms d t"
| "dispatch maxApps tech RIL_REQUEST_ENTER_SIM_PIN d n t = requestEnterSimPin d n t"
| "dispatch maxApps tech RIL_REQUEST_ENTER_SIM_PUK d n t = requestEnterSimPin d n t"
| "dispatch maxApps tech RIL_REQUEST_ENTER_SIM_PIN2 d n t = requestEnterSimPin d n t"
| "dispatch maxApps tech RIL_REQUEST_ENTER_SIM_PUK2 d n t = requestEnterSimPin d n t"
| "dispatch maxApps tech RIL_REQUEST_CHANGE_SIM_PIN d n t = requestEnterSimPin d n t"
| "dispatch maxApps tech RIL_REQUEST_CHANGE_SIM_PIN2 d n t = requestEnterSimPin d n t"
| "dispatch maxApps tech (RIL_REQUEST_OTHER r) d n t =
     RIL_onRequestComplete t RIL_E_REQUEST_NOT_SUPPORTED Nothing"

definition onRequest ::
  "nat \<Rightarrow> (RIL_RadioTechnology \<Rightarrow> int) \<Rightarrow> request \<Rightarrow> rdata \<Rightarrow> nat \<Rightarrow> RIL_Token \<Rightarrow> (ril, unit) prog" where
  "onRequest maxApps tech req data datalen t = bindp (getp sState) (\<lambda>state.
     if state = RADIO_STATE_UNAVAILABLE \<and> \<not> allowed_unavailable req
     then RIL_onRequestComplete t RIL_E_RADIO_NOT_AVAILABLE Nothing
     else seqp (modp (\<lambda>s. s\<lparr>onRequestCount := onRequestCount s + 1\<rparr>))
       (bindp (getp sState) (\<lambda>state.
         if state = RADIO_STATE_OFF \<and> \<not> allowed_off req
         then RIL_onRequestComplete t RIL_E_RADIO_NOT_AVAILABLE Nothing
         else dispatch maxApps tech req data datalen t)))"

subsection \<open>The other entry points\<close>

definition onSupports :: "request \<Rightarrow> int" where "onSupports requestCode = 1"

definition onCancel :: "RIL_Token \<Rightarrow> (ril, unit) prog" where "onCancel t = ret ()"

definition getVersion :: "(ril, string) prog" where
  "getVersion = seqp (modp (\<lambda>s. s\<lparr>onRequestCount := 0\<rparr>)) (ret ''android reference-luat-ril 1.1'')"

subsection \<open>Start-up\<close>

fun send_all :: "string list \<Rightarrow> (ril, unit) prog" where
  "send_all [] = ret ()"
| "send_all (c # cs) = seqp (send_ignored c) (send_all cs)"

definition early_commands :: "string list" where
  "early_commands = [''ATE0'', ''AT*I'', ''ATQ0'', ''ATV1'', ''ATS0=0'', ''AT+CMEE=1'']"

definition late_commands :: "string list" where
  "late_commands = [''AT+CEREG=2'', ''AT+CCWA=1'', ''AT+CMOD=0'', ''AT+CMUT=0'', ''AT+CSSN=0,1'',
     ''AT+COLP=0'', ''AT+CSCS='' @ [CHR 0x22] @ ''HEX'' @ [CHR 0x22], ''AT+CUSD=1'', ''AT+CGEREP=1,0'',
     ''AT+CMGF=0'', ''AT+CSCLK=2'']"

definition initializeCallback :: "(ril, unit) prog" where
  "initializeCallback = bindp (at_handshake ril_cb) (\<lambda>_.
     seqp (send_all early_commands)
     (bindp (send_command ''AT+CREG=2'' Null) (\<lambda>r. bindp (rejected r) (\<lambda>bad.
       seqp (if bad then send_ignored ''AT+CREG=1'' else ret ())
       (seqp (at_response_free (snd r))
       (seqp (send_all late_commands)
       (bindp isRadioOn (\<lambda>on.
         setRadioState (if on > 0 then RADIO_STATE_ON else RADIO_STATE_OFF)))))))))"

text \<open>
  What the main loop does once it has opened the device: \<open>fd\<close> is the descriptor,
  \<open>create_ret\<close> what \<open>pthread_create\<close> returns for the reader thread.  The loop ends when
  \<open>at_open\<close> fails; otherwise it waits for \<open>s_closed\<close> and opens the device again.
\<close>

definition main_connect :: "int \<Rightarrow> int \<Rightarrow> (ril, bool) prog" where
  "main_connect fd create_ret = seqp (modp (\<lambda>s. s\<lparr>s_closed := False\<rparr>))
     (bindp (at_open fd create_ret) (\<lambda>err.
       if err < 0 then ret False
       else seqp (RIL_requestTimedCallback Callback_initializeCallback 0) (ret True)))"

text \<open>
  The static variables before \<open>RIL_Init\<close>; the arguments are what the environment decides, and
  whether the compiler takes plain \<open>char\<close> for signed, which the configuration decides.
\<close>

definition initial_ril ::
  "event list list \<Rightarrow> (nat \<Rightarrow> ppp_poll) \<Rightarrow> int \<Rightarrow> SimEfStatusData \<Rightarrow> bool \<Rightarrow> ril" where
  "initial_ril reactions polls pid stack schar = \<lparr>s_fd = -1, s_type = NO_RESULT, s_responsePrefix = None,
     s_smsPDU = None, sp_response = Null, s_readerClosed = False, self_reader = False,
     heap = (\<lambda>_. None), brk = 0, tx = [], wenv = [], env = reactions, rx = [],
     sState = RADIO_STATE_UNAVAILABLE, s_closed = False, onRequestCount = 0,
     bSetupDataCallCompelete = False, nSetupDataCallFailTimes = 0, s_default_pdp = 1,
     sKeepLocalip = [], MVersion = [], readBinaryResult = None, getResponseResult = [],
     char_signed = schar, fcp_stack = stack, fcp_heap = [], pppd_pid = pid, ppp_polls = polls,
     rlog = []\<rparr>"

subsection \<open>Every request is answered exactly once\<close>

text \<open>
  Two requests are not: the SMS acknowledgement and the signal strength may be answered
  twice.  Two answer only a token that is not NULL.
\<close>

definition answered_once :: "request \<Rightarrow> RIL_Token \<Rightarrow> bool" where
  "answered_once req t \<longleftrightarrow> req \<noteq> RIL_REQUEST_SMS_ACKNOWLEDGE \<and> req \<noteq> RIL_REQUEST_SIGNAL_STRENGTH \<and>
     (t = None \<longrightarrow> req \<noteq> RIL_REQUEST_DEACTIVATE_DATA_CALL \<and> req \<noteq> RIL_REQUEST_SET_PREFERRED_NETWORK_TYPE)"

lemma once_numeric_request: "once t (numeric_request c f t)"
  unfolding numeric_request_def by (intro once_rules none_rules)

lemma once_answer: "once t (answer t)"
  unfolding answer_def by (rule once_complete)

lemma once_radio_power_request: "once t (radio_power_request d n t)"
  unfolding radio_power_request_def by (intro once_rules none_rules once_answer once_requestRadioPower)

lemma none_read_strings: "none t (read_strings n d)"
  by (induction n) (auto intro: none_rules)

lemmas once_handlers =
  once_numeric_request once_answer once_radio_power_request once_requestDial once_requestHangup
  once_call_command once_separate_connection once_requestRegistrationState once_requestOperator
  once_send_dtmf once_requestSendSMS once_requestSetupDataCall once_requestBaseBandVersion
  once_requestSIM_IO once_requestDataCallList once_requestQueryNetworkSelectionMode
  once_requestWriteSmsToSim once_delete_sms once_requestEnterSimPin once_complete

lemma once_dispatch:
  assumes "answered_once req t"
  shows "once t (dispatch maxApps tech req d n t)"
  using assms
  by (cases req; cases t)
    (auto simp: answered_once_def currentState_def requestSendUSSD_def
      intro!: once_handlers once_bind once_seq once_if none_read_strings none_cardV12 none_getp
        once_requestSetPreferredNetworkType once_requestDeactivateDataCall)

lemma once_onRequest:
  assumes "answered_once req t"
  shows "once t (onRequest maxApps tech req d n t)"
  unfolding onRequest_def
  by (intro once_bind once_seq once_if none_getp none_modp once_complete once_dispatch assms)
    (simp add: completed_def)
subsection \<open>Requests that cannot crash\<close>

text \<open>
  The requests whose handlers run into no undefined behaviour whatever the modem answers,
  and the data they need.
\<close>

fun robust :: "request \<Rightarrow> rdata \<Rightarrow> nat \<Rightarrow> bool" where
  "robust RIL_REQUEST_GET_CURRENT_CALLS d n = True"
| "robust RIL_REQUEST_DIAL d n = (\<exists>a c. d = Dial_data a c)"
| "robust RIL_REQUEST_HANGUP d n = (\<exists>x xs. d = Int_data (x # xs))"
| "robust RIL_REQUEST_HANGUP_WAITING_OR_BACKGROUND d n = True"
| "robust RIL_REQUEST_HANGUP_FOREGROUND_RESUME_BACKGROUND d n = True"
| "robust RIL_REQUEST_SWITCH_WAITING_OR_HOLDING_AND_ACTIVE d n = True"
| "robust RIL_REQUEST_ANSWER d n = True"
| "robust RIL_REQUEST_CONFERENCE d n = True"
| "robust RIL_REQUEST_UDUB d n = True"
| "robust RIL_REQUEST_SEPARATE_CONNECTION d n = (\<exists>x xs. d = Int_data (x # xs))"
| "robust RIL_REQUEST_GET_ACTIVITY_INFO d n = True"
| "robust RIL_REQUEST_RADIO_POWER d n = (pointer_size \<le> n \<and> (\<exists>x xs. d = Int_data (x # xs)))"
| "robust RIL_REQUEST_DTMF d n = (\<exists>x. d = Char_data x)"
| "robust RIL_REQUEST_SEND_SMS d n = (\<exists>smsc pdu. d = String_data [smsc, Some pdu])"
| "robust RIL_REQUEST_GET_IMSI d n = True"
| "robust RIL_REQUEST_GET_IMEI d n = True"
| "robust RIL_REQUEST_DEVICE_IDENTITY d n = True"
| "robust RIL_REQUEST_SEND_USSD d n = True"
| "robust RIL_REQUEST_CANCEL_USSD d n = True"
| "robust RIL_REQUEST_SET_NETWORK_SELECTION_AUTOMATIC d n = True"
| "robust RIL_REQUEST_REPORT_STK_SERVICE_IS_RUNNING d n = True"
| "robust RIL_REQUEST_CDMA_SET_SUBSCRIPTION_SOURCE d n = True"
| "robust RIL_REQUEST_GET_RADIO_CAPABILITY d n = True"
| "robust RIL_REQUEST_QUERY_NETWORK_SELECTION_MODE d n = True"
| "robust RIL_REQUEST_OEM_HOOK_RAW d n = True"
| "robust RIL_REQUEST_SET_RADIO_CAPABILITY d n = True"
| "robust RIL_REQUEST_OEM_HOOK_STRINGS d n = (\<exists>xs. d = String_data xs \<and> n div pointer_size \<le> length xs)"
| "robust RIL_REQUEST_WRITE_SMS_TO_SIM d n = (\<exists>st pdu. d = Sms_write_data st pdu)"
| "robust RIL_REQUEST_DELETE_SMS_ON_SIM d n = (\<exists>x xs. d = Int_data (x # xs))"
| "robust RIL_REQUEST_ENTER_SIM_PIN d n = (\<exists>x y xs. d = String_data (x # y # xs))"
| "robust RIL_REQUEST_ENTER_SIM_PUK d n = (\<exists>x y xs. d = String_data (x # y # xs))"
| "robust RIL_REQUEST_ENTER_SIM_PIN2 d n = (\<exists>x y xs. d = String_data (x # y # xs))"
| "robust RIL_REQUEST_ENTER_SIM_PUK2 d n = (\<exists>x y xs. d = String_data (x # y # xs))"
| "robust RIL_REQUEST_CHANGE_SIM_PIN d n = (\<exists>x y xs. d = String_data (x # y # xs))"
| "robust RIL_REQUEST_CHANGE_SIM_PIN2 d n = (\<exists>x y xs. d = String_data (x # y # xs))"
| "robust (RIL_REQUEST_OTHER r) d n = True"
| "robust _ d n = False"

lemma numeric_request_safe:
  assumes "ready B (Suc n) s"
  shows "safe B (numeric_request c f t) s (\<lambda>_. serves B n t s)"
  unfolding numeric_request_def
proof (rule safe_send [OF ril.numeric.sender_axioms assms], goal_cases)
  case (1 e p u)
  then show ?case by (simp add: complete_free_serves)
next
  case (2 a x u)
  have h: "heap u a = Some x"
    using 2 by simp
  obtain l ls where "success x \<noteq> 0 \<Longrightarrow> p_intermediates x = l # ls"
    using 2(3) by (cases "p_intermediates x") (auto simp: resp_ok_def split: option.splits if_splits)
  then show ?case
    using 2 by (cases "success x = 0")
      (auto simp: safe_rejected [OF h] held_simps(2) [OF h] intro: complete_free_serves)
qed

lemma complete_safe: "ready B n s \<Longrightarrow> safe B (RIL_onRequestComplete t e d) s (\<lambda>_. serves B n t s)"
  by (rule complete_serves) simp_all

lemma radio_power_request_safe:
  assumes "ready B (Suc (Suc n)) s" and "pointer_size \<le> datalen"
  shows "safe B (radio_power_request (Int_data (x # xs)) datalen t) s (\<lambda>_. serves B n t s)"
proof -
  have "safe B (requestRadioPower (Int_data (x # xs)) datalen t) s (\<lambda>_. serves B n t s)"
    by (rule safe_mono [OF requestRadioPower_safe [OF assms refl]]) simp
  then show ?thesis
    using complete_safe [OF ready_mono [OF assms(1)], of n]
    by (simp add: radio_power_request_def int_arg_def answer_def)
qed

lemma read_strings_run: "n \<le> length xs \<Longrightarrow> read_strings n (String_data xs) s = Done () s"
  by (induction n) (simp_all add: outcome_simps string_arg_def)

lemma oem_strings_safe:
  assumes "ready B n s" and "k \<le> length xs"
  shows "safe B (seqp (read_strings k (String_data xs)) (RIL_onRequestComplete t e d)) s (\<lambda>_. serves B n t s)"
  by (simp add: safe_seq_Done [where m = "read_strings k (String_data xs)", OF read_strings_run [OF assms(2)]]
      complete_safe [OF assms(1)])

lemmas robust_handlers =
  complete_safe call_command_safe requestDial_safe requestHangup_safe separate_connection_safe
  radio_power_request_safe requestSendSMS_safe numeric_request_safe
  requestQueryNetworkSelectionMode_safe requestWriteSmsToSim_safe delete_sms_safe
  requestEnterSimPin_safe oem_strings_safe

lemma dispatch_safe:
  assumes rd: "ready B (Suc (Suc n)) s" and "robust req d datalen"
  shows "safe B (dispatch maxApps tech req d datalen t) s (\<lambda>_. serves B n t s)"
proof -
  have rds: "ready B n s" "ready B (Suc n) s"
    using ready_mono [OF rd] by simp_all
  show ?thesis
    using assms(2)
    by (cases req)
      (auto simp: answer_def requestSendUSSD_def send_dtmf_def intro!: robust_handlers rds rd)
qed

lemma serves_count [simp]: "serves B n t (s\<lparr>onRequestCount := k\<rparr>) = serves B n t s"
  by (simp add: serves_def fun_eq_iff)

lemma onRequest_robust:
  assumes "ready B (Suc (Suc n)) s" and "robust req d datalen"
  shows "safe B (onRequest maxApps tech req d datalen t) s (\<lambda>_. serves B n t s)"
proof -
  let ?s = "s\<lparr>onRequestCount := onRequestCount s + 1\<rparr>"
  have rd: "ready B (Suc (Suc n)) ?s" "ready B n ?s" "ready B n s"
    using assms(1) ready_mono [OF assms(1)] by simp_all
  show ?thesis
    using dispatch_safe [OF rd(1) assms(2)] complete_safe [OF rd(2)] complete_safe [OF rd(3)]
    by (simp add: onRequest_def)
qed
end
