(* ===== verification/RilSystem.thy ===== *)
theory RilSystem
  imports RilMain
begin

section \<open>reference-ril.c: the running system\<close>

text \<open>
  The threads of the RIL take turns: the event loop of the framework runs requests and timed
  callbacks, the reader delivers lines between commands, the main loop opens the device again
  after it was lost, the thread of \<open>pppd.c\<close> reports the end of the daemon, and the
  surroundings change.  Each of them is a step of the relation \<open>ril_step\<close>; what happens while
  a command waits is part of the command (\<open>env\<close>).  The invariant \<open>system_ok\<close> holds in every
  reachable state.
\<close>

subsection \<open>The invariant\<close>

definition system_ok :: "ril \<Rightarrow> bool" where
  "system_ok s \<longleftrightarrow> idle s \<and> rx s = [] \<and> \<not> self_reader s \<and>
     (s_closed s \<longrightarrow> sState s = RADIO_STATE_UNAVAILABLE) \<and>
     length (MVersion s) < MVersion_size \<and> s_default_pdp s = CONFIG_DEFAULT_PDP \<and>
     0 \<le> nSetupDataCallFailTimes s"

text \<open>
  A program that keeps the invariant and completes no request but those with the token \<open>tk\<close>,
  if it returns.
\<close>

definition maintains :: "RIL_Token \<Rightarrow> ril \<Rightarrow> ril \<Rightarrow> bool" where
  "maintains tk s t \<longleftrightarrow> (system_ok s \<longrightarrow> system_ok t \<and> (\<forall>k. k \<noteq> tk \<longrightarrow> completed k t = completed k s))"

definition upholds :: "RIL_Token \<Rightarrow> (ril, 'a) prog \<Rightarrow> bool" where
  "upholds tk m \<longleftrightarrow> keeps (maintains tk) m"

lemma maintains_props: "transp (maintains tk)" "reflp (maintains tk)"
  by (auto simp: maintains_def intro: transpI reflpI)

lemma upholdsI:
  "(\<And>s x t. m s = Done x t \<Longrightarrow> system_ok s \<Longrightarrow>
      system_ok t \<and> (\<forall>k. k \<noteq> tk \<longrightarrow> completed k t = completed k s)) \<Longrightarrow> upholds tk m"
  by (simp add: upholds_def keeps_def yields_def maintains_def)

lemma upholds_ok: "upholds tk m \<Longrightarrow> m s = Done x t \<Longrightarrow> system_ok s \<Longrightarrow> system_ok t"
  unfolding upholds_def using keepsD [of "maintains tk" m s x t] by (simp add: maintains_def)

lemma upholds_other:
  "upholds tk m \<Longrightarrow> m s = Done x t \<Longrightarrow> system_ok s \<Longrightarrow> k \<noteq> tk \<Longrightarrow> completed k t = completed k s"
  unfolding upholds_def using keepsD [of "maintains tk" m s x t] by (simp add: maintains_def)

lemma upholds_bind: "upholds tk m \<Longrightarrow> (\<And>x. upholds tk (f x)) \<Longrightarrow> upholds tk (bindp m f)"
  unfolding upholds_def by (rule keeps_bind [OF maintains_props(1)])

lemma upholds_seq: "upholds tk m \<Longrightarrow> upholds tk n \<Longrightarrow> upholds tk (seqp m n)"
  unfolding seqp_def by (rule upholds_bind)

lemma upholds_pure: "upholds tk (ret x)" "upholds tk (getp f)" "upholds tk (failp e)"
  by (rule upholdsI, simp add: outcome_simps)+

lemma upholds_modp:
  "(\<And>s. system_ok s \<Longrightarrow> system_ok (f s)) \<Longrightarrow> (\<And>s. rlog (f s) = rlog s) \<Longrightarrow> upholds tk (modp f)"
  by (rule upholdsI) (auto simp: outcome_simps completed_def)

lemma upholds_if: "(b \<Longrightarrow> upholds tk m) \<Longrightarrow> (\<not> b \<Longrightarrow> upholds tk n) \<Longrightarrow> upholds tk (if b then m else n)"
  by simp

lemma upholds_option:
  "upholds tk m \<Longrightarrow> (\<And>x. upholds tk (f x)) \<Longrightarrow> upholds tk (case z of None \<Rightarrow> m | Some x \<Rightarrow> f x)"
  by (cases z) auto

lemma upholds_prod: "(\<And>x y. upholds tk (f x y)) \<Longrightarrow> upholds tk (case z of (x, y) \<Rightarrow> f x y)"
  by (cases z) auto

lemma upholds_list:
  "upholds tk m \<Longrightarrow> (\<And>x ys. upholds tk (f x ys)) \<Longrightarrow> upholds tk (case xs of [] \<Rightarrow> m | x # ys \<Rightarrow> f x ys)"
  by (cases xs) auto

lemma upholds_or_goto: "upholds tk m \<Longrightarrow> (\<And>x. upholds tk (f x)) \<Longrightarrow> upholds tk (or_goto z m f)"
  unfolding or_goto_def by (rule upholds_option)

text \<open>The fields that do not matter.\<close>

lemma system_ok_simps [simp]:
  "system_ok (s\<lparr>rlog := l\<rparr>) = system_ok s"
  "system_ok (s\<lparr>onRequestCount := k\<rparr>) = system_ok s"
  "system_ok (s\<lparr>bSetupDataCallCompelete := b\<rparr>) = system_ok s"
  "system_ok (s\<lparr>sKeepLocalip := x\<rparr>) = system_ok s"
  "system_ok (s\<lparr>readBinaryResult := y\<rparr>) = system_ok s"
  "system_ok (s\<lparr>getResponseResult := x\<rparr>) = system_ok s"
  "system_ok (s\<lparr>env := es\<rparr>) = system_ok s"
  "system_ok (s\<lparr>wenv := ws\<rparr>) = system_ok s"
  "system_ok (s\<lparr>pppd_pid := pid\<rparr>) = system_ok s"
  "system_ok (s\<lparr>ppp_polls := polls\<rparr>) = system_ok s"
  "system_ok (s\<lparr>fcp_stack := st\<rparr>) = system_ok s"
  "system_ok (s\<lparr>fcp_heap := h\<rparr>) = system_ok s"
  by (simp_all add: system_ok_def idle_def heap_wf_def)

text \<open>What changes only the channel, or the client's state by notices, keeps the rest.\<close>

lemma upholds_quiet:
  assumes "\<And>s x t. m s = Done x t \<Longrightarrow> system_ok s \<Longrightarrow>
    quiet s t \<and> idle t \<and> rx t = [] \<and> self_reader t = self_reader s"
  shows "upholds tk m"
proof (rule upholdsI)
  fix s x t
  assume "m s = Done x t" and s: "system_ok s"
  then have t: "quiet s t" "idle t" "rx t = []" "self_reader t = self_reader s"
    using assms by blast+
  then have "system_ok t"
    using s by (auto simp: system_ok_def quiet_def)
  then show "system_ok t \<and> (\<forall>k. k \<noteq> tk \<longrightarrow> completed k t = completed k s)"
    using quiet_completed [OF t(1)] by blast
qed

lemma upholds_same_cmd:
  assumes "\<And>s x t. m s = Done x t \<Longrightarrow> system_ok s \<Longrightarrow> quiet s t \<and> same_cmd s t"
  shows "upholds tk m"
proof (rule upholds_quiet)
  fix s x t
  assume "m s = Done x t" and s: "system_ok s"
  then have t: "quiet s t" "same_cmd s t"
    using assms by blast+
  then show "quiet s t \<and> idle t \<and> rx t = [] \<and> self_reader t = self_reader s"
    using s same_cmd_idle [OF t(2)] by (simp add: system_ok_def same_cmd_def)
qed

subsection \<open>Commands and their responses\<close>

lemma upholds_full: "upholds tk (at_send_command_full ril_cb c ty pre pdu timeout pp)"
proof (rule upholds_quiet)
  fix s r t
  assume d: "at_send_command_full ril_cb c ty pre pdu timeout pp s = Done r t" and "system_ok s"
  then have i: "idle s" "rx s = []"
    by (simp_all add: system_ok_def)
  have "command_spec ty pre pdu (timeout \<noteq> 0) pp r s t"
    using ril.send_command_spec [OF i(1), of c ty pre pdu timeout pp "fst r" "snd r"] d by simp
  then show "quiet s t \<and> idle t \<and> rx t = [] \<and> self_reader t = self_reader s"
    using ril.send_command_rx [OF i(1) d] i(2) keepsD [OF ril.keeps_full d] by (simp add: command_spec_def)
qed

lemma upholds_deref: "upholds tk (deref p)"
  by (rule upholdsI) (auto simp: deref_def split: ptr.splits option.splits)

lemma upholds_free: "upholds tk (at_response_free p)"
  by (rule upholds_quiet)
    (auto simp: at_response_free_def system_ok_def idle_def heap_wf_def quiet_def split: ptr.splits option.splits)

lemma upholds_responses:
  "upholds tk (resp_success p)" "upholds tk (first_line p)" "upholds tk (at_get_cme_error p)"
  unfolding resp_success_def first_line_def at_get_cme_error_def
  by (intro upholds_bind upholds_deref upholds_pure upholds_list upholds_if upholds_option)+

lemma upholds_require: "upholds tk (require_intermediate pp r)"
  unfolding require_intermediate_def
  by (intro upholds_prod upholds_if upholds_bind upholds_seq upholds_deref upholds_free upholds_pure)

lemma upholds_commands:
  "upholds tk (at_send_command ril_cb c pp)"
  "upholds tk (at_send_command_singleline ril_cb c pre pp)"
  "upholds tk (at_send_command_numeric ril_cb c pp)"
  "upholds tk (at_send_command_multiline ril_cb c pre pp)"
  "upholds tk (at_send_command_sms ril_cb c pdu pre pp)"
  unfolding at_send_command_def at_send_command_singleline_def at_send_command_numeric_def
    at_send_command_multiline_def at_send_command_sms_def
  by (intro upholds_full upholds_bind upholds_require)+

lemma upholds_act: "(\<And>k e d. a = OnRequestComplete k e d \<Longrightarrow> k = tk) \<Longrightarrow> upholds tk (act a)"
  by (rule upholdsI) (auto simp: act_def outcome_simps split: ril_act.split)

lemma upholds_answers:
  "upholds tk (RIL_onRequestComplete tk e d)" "upholds tk (RIL_onUnsolicitedResponse u d)"
  "upholds tk (RIL_requestTimedCallback cb n)"
  unfolding RIL_onRequestComplete_def RIL_onUnsolicitedResponse_def RIL_requestTimedCallback_def
  by (rule upholds_act, simp)+

lemma upholds_args: "upholds tk (int_arg d i)" "upholds tk (string_arg d i)" "upholds tk (non_null x)" "upholds tk (sim_io_arg d)"
  unfolding int_arg_def string_arg_def non_null_def sim_io_arg_def
  by (auto intro!: upholds_pure split: rdata.split option.split)

lemma upholds_idioms:
  "upholds tk (rejected r)" "upholds tk (rejected0 r)" "upholds tk (send_ignored c)"
  "upholds tk (complete_free tk e d p)" "upholds tk (free_complete tk e d p)"
  unfolding rejected_def rejected0_def send_ignored_def complete_free_def free_complete_def
  by (intro upholds_if upholds_bind upholds_seq upholds_pure upholds_responses upholds_commands
      upholds_answers upholds_free)+

lemmas upholds_rules =
  upholds_pure upholds_commands upholds_deref upholds_free upholds_responses upholds_answers
  upholds_args upholds_idioms upholds_bind upholds_seq upholds_if upholds_option upholds_prod
  upholds_list upholds_or_goto

subsection \<open>The functions of the RIL\<close>

lemma upholds_closed: "upholds tk onATReaderClosed"
  by (rule upholds_same_cmd) (use closed_state_frame in \<open>auto simp: onATReaderClosed_apply\<close>)

lemma upholds_getSIMStatus: "upholds tk getSIMStatus"
  unfolding getSIMStatus_def sim_answer_def sim_done_def by (intro upholds_rules)

lemma upholds_pollSIMState: "upholds tk pollSIMState"
  unfolding pollSIMState_def onSIMReady_def by (intro upholds_rules upholds_getSIMStatus)

lemma upholds_setRadioState: "upholds tk (setRadioState new)"
proof (rule upholdsI)
  fix s x t
  assume d: "setRadioState new s = Done x t" and s: "system_ok s"
  define now where "now = (if s_closed s then RADIO_STATE_UNAVAILABLE else new)"
  define u where "u = s\<lparr>sState := now, rlog := rlog s @
      [OnUnsolicitedResponse RIL_UNSOL_RESPONSE_RADIO_STATE_CHANGED Nothing,
       OnUnsolicitedResponse RIL_UNSOL_RESPONSE_SIM_STATUS_CHANGED Nothing]\<rparr>"
  have u: "system_ok u"
    using s by (simp add: u_def now_def system_ok_def idle_def heap_wf_def)
  have "setRadioState new s = (if now = sState s then Done () s
      else if now = RADIO_STATE_ON then pollSIMState u else Done () u)"
    by (simp add: setRadioState_def onRadioPowerOn_def setRadioState_apply Let_def now_def u_def)
  then consider "t = s" | "t = u" | "pollSIMState u = Done x t"
    using d by (simp split: if_split_asm)
  then show "system_ok t \<and> (\<forall>k. k \<noteq> tk \<longrightarrow> completed k t = completed k s)"
  proof cases
    case 3
    then have "system_ok t" and "\<forall>k. k \<noteq> tk \<longrightarrow> completed k t = completed k u"
      using u upholds_ok [OF upholds_pollSIMState] upholds_other [OF upholds_pollSIMState] by blast+
    then show ?thesis by (simp add: u_def completed_def)
  qed (use s u in \<open>simp_all add: u_def completed_def\<close>)
qed

lemma upholds_isRadioOn: "upholds tk isRadioOn"
  unfolding isRadioOn_def by (intro upholds_rules)

lemma upholds_requestRadioPower: "upholds tk (requestRadioPower d n tk)"
  unfolding requestRadioPower_def power_off_def power_on_def
  by (intro upholds_rules upholds_setRadioState upholds_isRadioOn)

lemma upholds_card: "upholds tk (getCardStatusV12 maxApps)"
  unfolding getCardStatusV12_def fill_card_V12_def app_status_at_def set_application_def Let_def
  by (intro upholds_rules upholds_getSIMStatus)

lemma upholds_read_loop: "upholds tk (read_loop a tk blocks p sr)"
proof (induction a tk blocks p sr rule: read_loop.induct)
  case (2 a tk pos len blocks p sr)
  have "upholds tk (append_result n x)" for n x
    unfolding append_result_def by (intro upholds_rules upholds_modp) simp_all
  moreover have "upholds tk (read_failed tk q)" for q
    unfolding read_failed_def by (intro upholds_rules upholds_modp) simp_all
  ultimately show ?case
    unfolding read_loop.simps by (intro upholds_rules 2)
qed (simp add: upholds_rules)

lemma upholds_to_gsm: "upholds tk (to_gsm_response a sr)"
proof -
  have "upholds tk (\<lambda>s. case convertUSimFcp 256 (char_signed s) (fcp_heap s) (fcp_stack s) fcp of
      Fcp_text out \<Rightarrow> Done (sr\<lparr>simResponse := Some out\<rparr>) (s\<lparr>getResponseResult := out\<rparr>)
    | Fcp_overread \<Rightarrow> Fault OutOfBounds s
    | Fcp_running \<Rightarrow> Blocked s)" for fcp and sr :: RIL_SIM_IO_Response
    by (rule upholdsI) (auto simp: completed_def split: fcp_result.splits)
  then show ?thesis
    unfolding to_gsm_response_def Let_def by (intro upholds_rules)
qed

lemma upholds_requestSIM_IO: "upholds tk (requestSIM_IO d tk)"
  unfolding requestSIM_IO_def requestReadBinary_def Let_def
  by (intro upholds_rules upholds_read_loop upholds_to_gsm upholds_modp) simp_all

lemma upholds_requestEnterSimPin: "upholds tk (requestEnterSimPin d n tk)"
  unfolding requestEnterSimPin_def by (intro upholds_rules)

lemma upholds_requestBaseBandVersion: "upholds tk (requestBaseBandVersion tk)"
  unfolding requestBaseBandVersion_def
  by (intro upholds_rules upholds_modp) (simp_all add: system_ok_def idle_def heap_wf_def)

lemma upholds_requestSignalStrength: "upholds tk (requestSignalStrength tk)"
  unfolding requestSignalStrength_def signal_rejected_def signal_error_def by (intro upholds_rules)

lemma upholds_requestRegistrationState: "upholds tk (requestRegistrationState tech req tk)"
  unfolding requestRegistrationState_def airm2m_at_cops_def registration_error_def Let_def
  by (intro upholds_rules)

lemma upholds_requestOperator: "upholds tk (requestOperator tk)"
proof -
  have "upholds tk (operator_loop ls i resp)" for ls i resp
    by (induction ls i resp rule: operator_loop.induct) (auto intro!: upholds_rules split: option.split)
  then show ?thesis
    unfolding requestOperator_def by (intro upholds_rules)
qed

lemma upholds_selection:
  "upholds tk (requestQueryNetworkSelectionMode tk)" "upholds tk (requestSetPreferredNetworkType d n tk)"
  unfolding requestQueryNetworkSelectionMode_def requestSetPreferredNetworkType_def
  by (intro upholds_rules)+

lemma upholds_calls:
  "upholds tk (call_command c tk)" "upholds tk (requestDial d tk)" "upholds tk (requestHangup d tk)"
  "upholds tk (separate_connection d tk)" "upholds tk (send_dtmf d tk)"
  unfolding call_command_def requestDial_def requestHangup_def separate_connection_def send_dtmf_def
  by (auto intro!: upholds_rules split: rdata.split)

lemma upholds_sms:
  "upholds tk (requestSendSMS d tk)" "upholds tk (requestWriteSmsToSim d tk)" "upholds tk (delete_sms d tk)"
  "upholds tk (requestSMSAcknowledge d tk)"
  unfolding requestSendSMS_def requestWriteSmsToSim_def delete_sms_def requestSMSAcknowledge_def
  by (auto intro!: upholds_rules split: rdata.split)

lemma upholds_addresses: "upholds tk (addresses_new resp out cur)" "upholds tk (addresses_old resp out)"
  unfolding addresses_new_def addresses_old_def Let_def by (intro upholds_rules)+

lemma upholds_data_calls: "upholds tk (requestOrSendDataCallList (Some tk))"
proof -
  have "upholds tk (data_calls_failed (Some tk))" and "upholds tk (data_calls_report (Some tk) resp)" for resp
    unfolding data_calls_failed_def data_calls_report_def option.case by (intro upholds_rules)+
  then show ?thesis
    unfolding requestOrSendDataCallList_def contrdp_line_def Let_def
    by (intro upholds_rules upholds_addresses)
qed

lemma upholds_notify: "upholds tk notifyDataCallProcessExit"
  unfolding notifyDataCallProcessExit_def
  by (intro upholds_rules upholds_modp) (simp_all add: system_ok_def idle_def heap_wf_def)

lemma upholds_poll_loop: "upholds tk (poll_loop n k ip)"
proof -
  have "upholds tk (notify_times j)" for j
    by (induction j) (auto intro!: upholds_rules upholds_notify)
  then have "upholds tk (asleep k)" for k
    unfolding asleep_def by (intro upholds_rules upholds_closed)
  then show ?thesis
    by (induction n k ip rule: poll_loop.induct) (auto intro!: upholds_rules)
qed

lemma upholds_start_ppp: "upholds tk (start_ppp apn user pass auth ty)"
  unfolding start_ppp_def Let_def
  by (intro upholds_rules upholds_act upholds_modp)
    (simp_all add: system_ok_def idle_def heap_wf_def CONFIG_DEFAULT_PDP_def)

lemma upholds_data:
  "upholds tk (requestSetupDataCall d n tk)" "upholds tk (requestDeactivateDataCall tk)"
  unfolding requestSetupDataCall_def setup_failed_def optional_arg_def netwrokDataReady_def
    setup_connected_def requestDeactivateDataCall_def
  by (intro upholds_rules upholds_act upholds_modp upholds_isRadioOn upholds_start_ppp upholds_poll_loop
      upholds_data_calls; simp add: system_ok_def idle_def heap_wf_def)+

lemma upholds_read_strings: "upholds tk (read_strings n d)"
  by (induction n) (auto intro!: upholds_rules)

lemmas upholds_handlers =
  upholds_card upholds_requestRadioPower upholds_requestSIM_IO upholds_requestEnterSimPin
  upholds_requestBaseBandVersion upholds_requestSignalStrength upholds_requestRegistrationState
  upholds_requestOperator upholds_selection upholds_calls upholds_sms upholds_data_calls upholds_data
  upholds_read_strings

lemma upholds_dispatch: "upholds tk (dispatch maxApps tech req d n tk)"
  by (cases req)
    (auto simp: answer_def numeric_request_def radio_power_request_def currentState_def requestSendUSSD_def
      requestDataCallList_def intro!: upholds_rules upholds_handlers)

lemma upholds_onRequest: "upholds tk (onRequest maxApps tech req d n tk)"
  unfolding onRequest_def by (intro upholds_rules upholds_dispatch upholds_modp) simp_all

text \<open>The handshake takes its responses without the mutex being released in between.\<close>

lemma nolock_idle:
  assumes "at_send_command_full_nolock ril_cb c ty pre pdu timeout pp s = Done r t" and "idle s"
  shows "idle t \<and> self_reader t = self_reader s \<and> quiet s t"
proof -
  have "command_spec ty pre pdu (timeout \<noteq> 0) pp r s t"
    using ril.nolock_command_spec [OF assms(2), of c ty pre pdu timeout pp "fst r" "snd r"] assms(1) by simp
  then show ?thesis
    using keepsD [OF ril.keeps_nolock assms(1)] by (simp add: command_spec_def)
qed

lemma handshake_loop_idle:
  "handshake_loop ril_cb n err s = Done e t \<Longrightarrow> idle s \<Longrightarrow>
   idle t \<and> self_reader t = self_reader s \<and> quiet s t"
proof (induction n arbitrary: err s)
  case (Suc n)
  obtain r u where u: "at_send_command_full_nolock ril_cb ''ATE0'' NO_RESULT None None HANDSHAKE_TIMEOUT_MSEC None s = Done r u"
    and rest: "(case r of (e, _) \<Rightarrow> if e = 0 then ret e else handshake_loop ril_cb n e) u = Done e t"
    using Suc.prems(1) by (auto elim: bindp_DoneE)
  have i: "idle u \<and> self_reader u = self_reader s \<and> quiet s u"
    using u Suc.prems(2) by (rule nolock_idle)
  then show ?case
    using rest Suc.IH [of _ u] by (auto simp: outcome_simps split: prod.splits if_splits intro: quiet_trans)
qed (simp add: outcome_simps)

lemma upholds_handshake: "upholds tk (at_handshake ril_cb)"
proof (rule upholds_quiet)
  fix s x t
  assume d: "at_handshake ril_cb s = Done x t" and s: "system_ok s"
  then obtain e u where u: "handshake_loop ril_cb HANDSHAKE_RETRY_COUNT 0 s = Done e u" "drain ril_cb u = Done () t"
    by (auto simp: at_handshake_def system_ok_def outcome_simps split: outcome.splits)
  have i: "idle u" "self_reader u = self_reader s" "quiet s u"
    using handshake_loop_idle [OF u(1)] s by (simp_all add: system_ok_def)
  have c: "same_cmd (u\<lparr>rx := []\<rparr>) t"
    using i(1) u(2) by (rule ril.drain_idle)
  then have "idle t"
    by (rule same_cmd_idle) (use i(1) in \<open>simp add: idle_def heap_wf_def\<close>)
  moreover have "quiet s t"
    using i(3) keepsD [OF ril.keeps_drain u(2)] by (rule quiet_trans)
  ultimately show "quiet s t \<and> idle t \<and> rx t = [] \<and> self_reader t = self_reader s"
    using c i(2) by (simp add: same_cmd_def)
qed

lemma upholds_initializeCallback: "upholds tk initializeCallback"
proof -
  have "upholds tk (send_all cs)" for cs
    by (induction cs) (auto intro!: upholds_rules)
  then show ?thesis
    unfolding initializeCallback_def
    by (intro upholds_rules upholds_handshake upholds_isRadioOn upholds_setRadioState)
qed

lemma upholds_main_connect: "upholds tk (main_connect fd create_ret)"
proof -
  have "upholds tk (modp (\<lambda>s. s\<lparr>s_closed := False\<rparr>))"
    by (rule upholds_modp) (simp_all add: system_ok_def idle_def heap_wf_def)
  moreover have "upholds tk (at_open fd create_ret)"
    unfolding at_open_def by (intro upholds_rules upholds_modp) (simp_all add: system_ok_def idle_def heap_wf_def)
  ultimately show ?thesis
    unfolding main_connect_def by (intro upholds_rules)
qed

lemma upholds_reader_event: "upholds tk (reader_event ril_cb e)"
proof (rule upholds_same_cmd)
  fix s x t
  assume d: "reader_event ril_cb e s = Done x t" and s: "system_ok s"
  have "same_cmd s t"
    by (rule ril.reader_event_idle [of e]) (use d s in \<open>simp_all add: system_ok_def idle_def\<close>)
  then show "quiet s t \<and> same_cmd s t"
    using keepsD [OF ril.keeps_reader_event d] by simp
qed

subsection \<open>Steps\<close>

fun run_callback :: "timed_callback \<Rightarrow> (ril, unit) prog" where
  "run_callback Callback_pollSIMState = pollSIMState"
| "run_callback Callback_sendCallStateChanged = sendCallStateChanged"
| "run_callback Callback_onDataCallExit = onDataCallExit"
| "run_callback Callback_onDataCallListChanged = onDataCallListChanged"
| "run_callback Callback_initializeCallback = initializeCallback"

lemma upholds_callback: "upholds tk (run_callback cb)"
  by (cases cb) (simp_all add: sendCallStateChanged_def onDataCallExit_def onDataCallListChanged_def
      upholds_pollSIMState upholds_initializeCallback upholds_answers)

text \<open>
  \<open>maxApps\<close> and \<open>tech\<close> are constants of \<open>ril.h\<close>.  The label of a step is the request it
  serves, if any.  A callback runs after it was requested; the main loop opens the device when
  it is not open, or was lost.  A step is atomic and one that returns: a handler that waits for
  the modem for ever, or runs into undefined behaviour, is in no run (the runs are those up to
  it), and the two statements of \<open>onATReaderClosed\<close>, which set \<open>s_closed\<close> and the radio state,
  are not interleaved with the steps of other threads.
\<close>

inductive ril_step ::
  "nat \<Rightarrow> (RIL_RadioTechnology \<Rightarrow> int) \<Rightarrow> (request \<times> RIL_Token) option \<Rightarrow> ril \<Rightarrow> ril \<Rightarrow> bool"
  for maxApps tech where
  request: "onRequest maxApps tech req d n tk s = Done () t \<Longrightarrow> ril_step maxApps tech (Some (req, tk)) s t"
| callback: "RequestTimedCallback cb u \<in> set (rlog s) \<Longrightarrow> run_callback cb s = Done () t \<Longrightarrow>
    ril_step maxApps tech None s t"
| reader: "reader_event ril_cb e s = Done () t \<Longrightarrow> ril_step maxApps tech None s t"
| connect: "s_closed s \<or> s_fd s = -1 \<Longrightarrow> main_connect fd create_ret s = Done b t \<Longrightarrow>
    ril_step maxApps tech None s t"
| version: "getVersion s = Done v t \<Longrightarrow> ril_step maxApps tech None s t"
| daemon_exit: "notifyDataCallProcessExit s = Done x t \<Longrightarrow> ril_step maxApps tech None s t"
| surroundings: "ril_step maxApps tech None s
    (s\<lparr>env := es, wenv := ws, pppd_pid := pid, ppp_polls := polls, fcp_stack := st, fcp_heap := h\<rparr>)"

inductive_cases ril_stepE: "ril_step maxApps tech l s t"

text \<open>The state after a run, with the requests it has served, the latest first.\<close>

inductive ril_run :: "nat \<Rightarrow> (RIL_RadioTechnology \<Rightarrow> int) \<Rightarrow> (request \<times> RIL_Token) list \<Rightarrow> ril \<Rightarrow> bool"
  for maxApps tech where
  start: "ril_run maxApps tech [] (initial_ril es polls pid st schar)"
| serve: "ril_run maxApps tech rs s \<Longrightarrow> ril_step maxApps tech (Some r) s t \<Longrightarrow> ril_run maxApps tech (r # rs) t"
| other: "ril_run maxApps tech rs s \<Longrightarrow> ril_step maxApps tech None s t \<Longrightarrow> ril_run maxApps tech rs t"

definition reachable :: "nat \<Rightarrow> (RIL_RadioTechnology \<Rightarrow> int) \<Rightarrow> ril \<Rightarrow> bool" where
  "reachable maxApps tech s \<longleftrightarrow> (\<exists>rs. ril_run maxApps tech rs s)"

subsection \<open>The invariant in every reachable state\<close>

lemma upholds_getVersion: "upholds tk getVersion"
  unfolding getVersion_def by (intro upholds_rules upholds_modp) simp_all

lemmas upholds_steps =
  upholds_callback upholds_reader_event upholds_main_connect upholds_getVersion upholds_notify

lemma step_system_ok: "ril_step maxApps tech l s t \<Longrightarrow> system_ok s \<Longrightarrow> system_ok t"
  by (erule ril_stepE) (auto dest: upholds_ok [OF upholds_onRequest] upholds_steps [THEN upholds_ok])

lemma initial_system_ok: "system_ok (initial_ril es polls pid st schar)"
  by (simp add: system_ok_def initial_ril_def idle_def heap_wf_def MVersion_size_def CONFIG_DEFAULT_PDP_def)

lemma run_system_ok: "ril_run maxApps tech rs s \<Longrightarrow> system_ok s"
  by (induction rule: ril_run.induct) (auto intro: initial_system_ok step_system_ok)

lemma reachable_system_ok: "reachable maxApps tech s \<Longrightarrow> system_ok s"
  by (auto simp: reachable_def dest: run_system_ok)

subsection \<open>Every request of a run is answered once\<close>

text \<open>What maintains the invariant for every token completes nothing.\<close>

lemma upholds_none:
  assumes "\<And>tk. upholds tk m" and "m s = Done x t" and "system_ok s"
  shows "completed k t = completed k s"
proof (rule upholds_other [OF assms(1,2,3)])
  show "k \<noteq> (case k of None \<Rightarrow> Some 0 | Some n \<Rightarrow> None)"
    by (simp split: option.split)
qed

lemma other_step_completed:
  assumes "ril_step maxApps tech None s t" and "system_ok s"
  shows "completed k t = completed k s"
  using assms(1)
  by (rule ril_stepE)
    (auto dest: upholds_steps [THEN upholds_none, OF _ assms(2)] simp: completed_def)

lemma request_step_completed:
  assumes "ril_step maxApps tech (Some (req, tk)) s t" and "system_ok s" and "answered_once req tk"
  shows "completed k t = completed k s + (if k = tk then 1 else 0)"
proof -
  obtain d n where d: "onRequest maxApps tech req d n tk s = Done () t"
    using assms(1) by (auto elim: ril_stepE)
  show ?thesis
    using upholds_other [OF upholds_onRequest d assms(2)]
      once_onRequest [OF assms(3), unfolded once_def, THEN addsD, OF d]
    by (cases "k = tk") simp_all
qed

lemma run_completed:
  assumes "ril_run maxApps tech rs s" and "\<forall>(req, tk) \<in> set rs. answered_once req tk"
  shows "completed k s = length (filter (\<lambda>(_, tk). tk = k) rs)"
  using assms
proof (induction rule: ril_run.induct)
  case (start es polls pid st)
  then show ?case by (simp add: completed_def initial_ril_def)
next
  case (serve rs s r t)
  then show ?case
    using request_step_completed [of maxApps tech "fst r" "snd r" s t k] run_system_ok [OF serve.hyps(1)]
    by (cases r) auto
next
  case (other rs s t)
  then show ?case
    using other_step_completed run_system_ok [OF other.hyps(1)] by simp
qed

end
