(* ===== verification/UsbFind.thy ===== *)
theory UsbFind
  imports CLib "HOL-Library.Sublist"
begin

section \<open>usb\_find.c: which serial device belongs to the modem\<close>

text \<open>
  \<open>FindUsbDevice\<close> looks through \<open>/sys/bus/usb/devices\<close> for the modem, then for one of its
  interfaces, then for the name of the serial device of that interface.  The part of \<open>/sys\<close>
  it reads is the record \<open>sysfs\<close>.  The array with the name that is returned is a local variable
  of \<open>FindUsbDevice\<close>: the pointer its callers get is dangling.  The search itself, \<open>FindUsbDevice\<close>,
  returns the text that was in the array; what a caller reads through the pointer is
  \<open>find_usb_name\<close>, where \<open>stale_name\<close>, which is part of the surroundings, says what the dead
  memory holds by then.  A directory stream that was not opened is a NULL pointer for \<open>readdir\<close>.
\<close>

record sysfs =
  usb_devices :: "(string \<times> bool) list option"          \<comment> \<open>names, and whether they are links\<close>
  attribute :: "string \<Rightarrow> string \<Rightarrow> string option"   \<comment> \<open>the files \<open>idVendor\<close> and \<open>idProduct\<close>\<close>
  listing :: "string \<Rightarrow> string list option"              \<comment> \<open>what is in a directory\<close>
  stale_name :: "string \<Rightarrow> string"                       \<comment> \<open>the array with a name, after the return\<close>

definition USB_DEVICE_PATH :: string where "USB_DEVICE_PATH = ''/sys/bus/usb/devices''"
definition MAX_PATH :: nat where "MAX_PATH = 256"
definition USBID_LEN :: nat where "USBID_LEN = 4"

definition vendor_ids :: "int list" where "vendor_ids = [0x1286, 0x1782, 0x2ecc, 0x19d1]"
definition product_ids :: "int list" where "product_ids = [0x4e3d, 0x4e00, 0xa000, 0x0001]"

definition AIRM2M_USB_DEVICE_DIAG_INTERFACE_ID :: int where "AIRM2M_USB_DEVICE_DIAG_INTERFACE_ID = 4"
definition AIRM2M_USB_DEVICE_AT_INTERFACE_ID :: int where "AIRM2M_USB_DEVICE_AT_INTERFACE_ID = 2"
definition AIRM2M_USB_DEVICE_PPP_INTERFACE_ID :: int where "AIRM2M_USB_DEVICE_PPP_INTERFACE_ID = 6"

text \<open>A text that is printed into an array of the given size, with its NUL.\<close>

definition sprintf_into :: "nat \<Rightarrow> string \<Rightarrow> ('s, string) prog" where
  "sprintf_into n t = (if n \<le> length t then failp OutOfBounds else ret t)"

subsection \<open>The code\<close>

text \<open>
  \<open>read\<close> into an array that keeps what it held beyond the bytes read, and \<open>sscanf\<close> with
  \<open>%x\<close>, which leaves the variable alone when there is no number.
\<close>

definition read_into :: "string \<Rightarrow> string \<Rightarrow> string" where
  "read_into old content = (let new = take USBID_LEN content in new @ drop (length new) old)"

definition scan_hex :: "string \<Rightarrow> int \<Rightarrow> int" where
  "scan_hex buf old = (case scan_number 16 (takeWhile (\<lambda>c. c \<noteq> CHR 0x00) buf) of
      None \<Rightarrow> old
    | Some (neg, n, _) \<Rightarrow> strtoul_val neg n mod 4294967296)"

record usb_ids =
  idVendor :: string
  vendor_id :: int
  idProduct :: string
  product_id :: int

text \<open>The first loop; \<open>None\<close>: no device was found.\<close>

fun first_stage :: "sysfs \<Rightarrow> usb_ids \<Rightarrow> (string \<times> bool) list \<Rightarrow> ('s, string option) prog" where
  "first_stage fs v [] = ret None"
| "first_stage fs v ((d_name, link) # es) =
     bindp (sprintf_into MAX_PATH (USB_DEVICE_PATH @ ''/'' @ d_name)) (\<lambda>_.
       if \<not> link then first_stage fs v es
       else bindp (sprintf_into MAX_PATH (USB_DEVICE_PATH @ ''/'' @ d_name @ ''/idVendor'')) (\<lambda>_.
         case attribute fs d_name ''idVendor'' of
           None \<Rightarrow> first_stage fs v es
         | Some content \<Rightarrow>
             let buf = read_into (idVendor v) content;
                 v = v\<lparr>idVendor := buf, vendor_id := scan_hex buf (vendor_id v)\<rparr>
             in if vendor_id v \<notin> set vendor_ids then first_stage fs v es
                else bindp (sprintf_into MAX_PATH (USB_DEVICE_PATH @ ''/'' @ d_name @ ''/idProduct'')) (\<lambda>_.
                  case attribute fs d_name ''idProduct'' of
                    None \<Rightarrow> first_stage fs v es
                  | Some content \<Rightarrow>
                      let buf = read_into (idProduct v) content;
                          v = v\<lparr>idProduct := buf, product_id := scan_hex buf (product_id v)\<rparr>
                      in if product_id v \<notin> set product_ids then first_stage fs v es
                         else ret (Some d_name))))"

fun second_stage :: "string \<Rightarrow> (string \<times> bool) list \<Rightarrow> ('s, bool) prog" where
  "second_stage usb_device_prefix [] = ret False"
| "second_stage usb_device_prefix ((d_name, link) # es) =
     bindp (sprintf_into MAX_PATH (USB_DEVICE_PATH @ ''/'' @ d_name)) (\<lambda>_.
       if link \<and> d_name = usb_device_prefix then ret True
       else second_stage usb_device_prefix es)"

definition is_tty :: "string \<Rightarrow> bool" where
  "is_tty d_name \<longleftrightarrow> prefix ''ttyUSB'' d_name \<or> prefix ''ttyACM'' d_name"

fun find_tty :: "string \<Rightarrow> string list \<Rightarrow> ('s, string option) prog" where
  "find_tty dir [] = ret None"
| "find_tty dir (d_name # es) = bindp (sprintf_into MAX_PATH (dir @ ''/'' @ d_name)) (\<lambda>_.
     if is_tty d_name then ret (Some d_name) else find_tty dir es)"

text \<open>\<open>opendir\<close> and the loop over the directory.\<close>

definition tty_in :: "sysfs \<Rightarrow> string \<Rightarrow> ('s, string option) prog" where
  "tty_in fs dir = (case listing fs dir of None \<Rightarrow> failp NullDeref | Some es \<Rightarrow> find_tty dir es)"

definition FindUsbDevice :: "sysfs \<Rightarrow> usb_ids \<Rightarrow> int \<Rightarrow> ('s, string option) prog" where
  "FindUsbDevice fs v device_interface_id = (case usb_devices fs of
      None \<Rightarrow> ret None
    | Some es \<Rightarrow> bindp (first_stage fs v es) (\<lambda>found. case found of
        None \<Rightarrow> ret None
      | Some d_name \<Rightarrow>
          bindp (sprintf_into MAX_PATH (d_name @ '':1.'' @ print_d device_interface_id)) (\<lambda>interface.
          bindp (second_stage interface es) (\<lambda>found.
            if \<not> found \<or> interface = [] then ret None
            else bindp (sprintf_into MAX_PATH (USB_DEVICE_PATH @ ''/'' @ interface)) (\<lambda>dir.
              bindp (tty_in fs dir) (\<lambda>tty. case tty of
                Some t \<Rightarrow> ret (Some t)
              | None \<Rightarrow> bindp (sprintf_into MAX_PATH (dir @ ''/tty'')) (\<lambda>dir. tty_in fs dir)))))))"

text \<open>The result as its callers use it: they print what the pointer into the dead array shows.\<close>

definition find_usb_name :: "sysfs \<Rightarrow> usb_ids \<Rightarrow> int \<Rightarrow> ('s, string option) prog" where
  "find_usb_name fs v device_interface_id =
     bindp (FindUsbDevice fs v device_interface_id) (\<lambda>d. ret (map_option (stale_name fs) d))"

subsection \<open>What it finds\<close>

text \<open>The identifier in an attribute file: four hexadecimal digits, and more text.\<close>

definition hex4 :: "string \<Rightarrow> bool" where
  "hex4 content \<longleftrightarrow> (\<exists>a b c d r. content = a # b # c # d # r \<and>
     (\<forall>x \<in> {a, b, c, d}. digit_val 16 x \<noteq> None))"

definition hex4_val :: "string \<Rightarrow> int" where
  "hex4_val content = int (fst (scan_digits 16 0 (take 4 content)))"

definition well_formed :: "sysfs \<Rightarrow> (string \<times> bool) list \<Rightarrow> bool" where
  "well_formed fs es \<longleftrightarrow> (\<forall>(d, link) \<in> set es. length d \<le> 200 \<and>
     (\<forall>f content. attribute fs d f = Some content \<longrightarrow> hex4 content))"

text \<open>The device the search is meant to find.\<close>

definition is_modem :: "sysfs \<Rightarrow> string \<times> bool \<Rightarrow> bool" where
  "is_modem fs e \<longleftrightarrow> snd e \<and> (case (attribute fs (fst e) ''idVendor'', attribute fs (fst e) ''idProduct'') of
      (Some x, Some y) \<Rightarrow> hex4_val x \<in> set vendor_ids \<and> hex4_val y \<in> set product_ids
    | _ \<Rightarrow> False)"

lemma sprintf_fits: "length t < n \<Longrightarrow> sprintf_into n t s = Done t s"
  by (simp add: sprintf_into_def outcome_simps)


lemma hex_digit_kinds:
  assumes "digit_val 16 x \<noteq> None"
  shows "\<not> isspace x" and "x \<noteq> CHR ''-''" and "x \<noteq> CHR ''+''" and "x \<noteq> CHR ''x''" and "x \<noteq> CHR ''X''"
    and "x \<noteq> CHR 0x00"
proof -
  have "digit_val 16 (CHR '' '') = None" "digit_val 16 (CHR 0x09) = None" "digit_val 16 (CHR 0x0A) = None"
    "digit_val 16 (CHR 0x0B) = None" "digit_val 16 (CHR 0x0C) = None" "digit_val 16 (CHR 0x0D) = None"
    "digit_val 16 (CHR ''-'') = None" "digit_val 16 (CHR ''+'') = None" "digit_val 16 (CHR ''x'') = None"
    "digit_val 16 (CHR ''X'') = None" "digit_val 16 (CHR 0x00) = None"
    by code_simp+
  with assms show "\<not> isspace x" and "x \<noteq> CHR ''-''" and "x \<noteq> CHR ''+''" and "x \<noteq> CHR ''x''"
    and "x \<noteq> CHR ''X''" and "x \<noteq> CHR 0x00"
    by (auto simp: isspace_def)
qed

lemma digit_val_bound: "digit_val b x = Some d \<Longrightarrow> d < b"
  by (auto simp: digit_val_def Let_def split: if_splits)

lemma scan_hex4:
  assumes "hex4 content" and "length old = 5" and "old ! 4 = CHR 0x00"
  shows "scan_hex (read_into old content) v = hex4_val content"
    and "length (read_into old content) = 5" and "read_into old content ! 4 = CHR 0x00"
proof -
  obtain a b c d r where content: "content = a # b # c # d # r"
    and digits: "digit_val 16 a \<noteq> None" "digit_val 16 b \<noteq> None" "digit_val 16 c \<noteq> None" "digit_val 16 d \<noteq> None"
    using assms(1) by (auto simp: hex4_def)
  obtain o1 o2 o3 o4 where old: "old = [o1, o2, o3, o4, CHR 0x00]"
    using assms(2,3) by (auto simp: length_Suc_conv eval_nat_numeral)
  have buf: "read_into old content = [a, b, c, d, CHR 0x00]"
    by (simp add: read_into_def USBID_LEN_def content old eval_nat_numeral)
  then show "length (read_into old content) = 5" and "read_into old content ! 4 = CHR 0x00"
    by simp_all
  have str: "takeWhile (\<lambda>c. c \<noteq> CHR 0x00) [a, b, c, d, CHR 0x00] = [a, b, c, d]"
    using digits hex_digit_kinds(6) by simp
  obtain na nb nc nd where n: "digit_val 16 a = Some na" "digit_val 16 b = Some nb" "digit_val 16 c = Some nc"
      "digit_val 16 d = Some nd"
    using digits by auto
  have scan: "scan_digits 16 0 [a, b, c, d] = (((na * 16 + nb) * 16 + nc) * 16 + nd, [])"
    using n by simp
  have "strip_0x [a, b, c, d] = [a, b, c, d]"
    using hex_digit_kinds(4,5) [OF digits(2)] by (auto simp: strip_0x_def)
  then have "scan_number 16 [a, b, c, d] = Some (False, ((na * 16 + nb) * 16 + nc) * 16 + nd, [])"
    using hex_digit_kinds(1-3) [OF digits(1)] scan n(1) by (simp add: scan_number_def starts_digit_def)
  moreover have "((na * 16 + nb) * 16 + nc) * 16 + nd < 65536"
    using digit_val_bound [OF n(1)] digit_val_bound [OF n(2)] digit_val_bound [OF n(3)] digit_val_bound [OF n(4)]
    by simp
  ultimately show "scan_hex (read_into old content) v = hex4_val content"
    using scan unfolding scan_hex_def buf str
    by (simp add: hex4_val_def content strtoul_val_def ULONG_MAX_def)
qed

definition ids_ok :: "usb_ids \<Rightarrow> bool" where
  "ids_ok v \<longleftrightarrow> length (idVendor v) = 5 \<and> idVendor v ! 4 = CHR 0x00 \<and>
     length (idProduct v) = 5 \<and> idProduct v ! 4 = CHR 0x00"

lemma path_fits:
  assumes "length d \<le> 200" and "length t \<le> 10"
  shows "sprintf_into MAX_PATH (USB_DEVICE_PATH @ ''/'' @ d @ t) = ret (USB_DEVICE_PATH @ ''/'' @ d @ t)"
  using assms by (auto simp: fun_eq_iff sprintf_into_def MAX_PATH_def USB_DEVICE_PATH_def)

lemma first_stage_find:
  assumes "well_formed fs es" and "ids_ok v"
  shows "first_stage fs v es s = Done (map_option fst (find (is_modem fs) es)) s"
  using assms
proof (induction es arbitrary: v)
  case Nil
  then show ?case by (simp add: outcome_simps)
next
  case (Cons e es)
  obtain d link where e: "e = (d, link)" by (cases e)
  have len: "length d \<le> 200" and hex: "\<And>f x. attribute fs d f = Some x \<Longrightarrow> hex4 x"
    and wf: "well_formed fs es"
    using Cons.prems(1) by (auto simp: well_formed_def e)
  note path = path_fits [OF len, of "[]", simplified] path_fits [OF len, of "''/idVendor''", simplified]
    path_fits [OF len, of "''/idProduct''", simplified]
  note IH = Cons.IH [OF wf]
  show ?case
  proof (cases "link \<and> attribute fs d ''idVendor'' \<noteq> None")
    case False
    then show ?thesis
      using IH [OF Cons.prems(2)]
      by (auto simp: path e is_modem_def)
  next
    case True
    then obtain x where x: "attribute fs d ''idVendor'' = Some x" and link: link by auto
    let ?v = "v\<lparr>idVendor := read_into (idVendor v) x, vendor_id := hex4_val x\<rparr>"
    have v: "ids_ok ?v"
      using Cons.prems(2) scan_hex4 [OF hex [OF x]] by (simp add: ids_ok_def)
    have sx: "scan_hex (read_into (idVendor v) x) u = hex4_val x" for u
      using Cons.prems(2) scan_hex4(1) [OF hex [OF x]] by (simp add: ids_ok_def)
    show ?thesis
    proof (cases "hex4_val x \<in> set vendor_ids \<and> attribute fs d ''idProduct'' \<noteq> None")
      case False
      then show ?thesis
        using IH [OF v] x link sx
        by (auto simp: path e is_modem_def Let_def split: option.splits)
    next
      case True
      then obtain y where y: "attribute fs d ''idProduct'' = Some y" and ven: "hex4_val x \<in> set vendor_ids" by auto
      let ?w = "?v\<lparr>idProduct := read_into (idProduct v) y, product_id := hex4_val y\<rparr>"
      have w: "ids_ok ?w"
        using v Cons.prems(2) scan_hex4 [OF hex [OF y]] by (simp add: ids_ok_def)
      have sy: "scan_hex (read_into (idProduct v) y) u = hex4_val y" for u
        using Cons.prems(2) scan_hex4(1) [OF hex [OF y]] by (simp add: ids_ok_def)
      show ?thesis
        using IH [OF w] x y link sx sy ven
        by (auto simp: path e is_modem_def Let_def outcome_simps)
    qed
  qed
qed


lemma second_stage_member:
  assumes "\<forall>(d, link) \<in> set es. length d \<le> 200"
  shows "second_stage p es s = Done ((p, True) \<in> set es) s"
  using assms
proof (induction es)
  case (Cons e es)
  obtain d link where e: "e = (d, link)" by (cases e)
  have "length d \<le> 200" using Cons.prems by (simp add: e)
  note path = path_fits [OF this, of "[]", simplified]
  show ?case
    using Cons by (auto simp: path e outcome_simps)
qed (simp add: outcome_simps)

lemma find_tty_find:
  assumes "\<forall>d \<in> set es. length dir + length d + 1 < MAX_PATH"
  shows "find_tty dir es s = Done (find is_tty es) s"
  using assms by (induction es) (auto simp: sprintf_into_def outcome_simps)

definition interface_name :: "string \<Rightarrow> int \<Rightarrow> string" where
  "interface_name d i = d @ '':1.'' @ print_d i"

definition interface_dir :: "string \<Rightarrow> int \<Rightarrow> string" where
  "interface_dir d i = USB_DEVICE_PATH @ ''/'' @ interface_name d i"

lemma print_d_digit: "0 \<le> i \<Longrightarrow> i < 10 \<Longrightarrow> length (print_d i) = 1"
  by (simp add: print_d_def print_nat.simps)

text \<open>The search as a whole, for a modem that is there.\<close>

lemma FindUsbDevice_run:
  assumes "usb_devices fs = Some es" and "well_formed fs es" and "ids_ok v" and "0 \<le> i" and "i < 10"
    and "find (is_modem fs) es = Some (d, link)" and "(interface_name d i, True) \<in> set es"
    and "listing fs (interface_dir d i) = Some xs" and "\<forall>x \<in> set xs. length x \<le> 25"
  shows "FindUsbDevice fs v i s = (case find is_tty xs of
      Some t \<Rightarrow> Done (Some t) s
    | None \<Rightarrow> tty_in fs (interface_dir d i @ ''/tty'') s)"
proof -
  have "(d, link) \<in> set es"
    using assms(6) by (auto simp: find_Some_iff in_set_conv_nth)
  then have d: "length d \<le> 200"
    using assms(2) by (auto simp: well_formed_def)
  have short: "\<forall>(d, link) \<in> set es. length d \<le> 200"
    using assms(2) by (auto simp: well_formed_def)
  have name: "length (interface_name d i) \<le> 204" "interface_name d i \<noteq> []"
    using d print_d_digit [OF assms(4,5)] by (simp_all add: interface_name_def)
  have dir: "length (interface_dir d i) \<le> 225"
    using name by (simp add: interface_dir_def USB_DEVICE_PATH_def)
  have "find_tty (interface_dir d i) xs s = Done (find is_tty xs) s"
    using assms(9) dir by (intro find_tty_find) (fastforce simp: MAX_PATH_def)
  then have tty: "tty_in fs (interface_dir d i) s = Done (find is_tty xs) s"
    by (simp add: tty_in_def assms(8))
  have fits: "sprintf_into MAX_PATH (interface_name d i) s = Done (interface_name d i) s"
    "sprintf_into MAX_PATH (interface_dir d i) s = Done (interface_dir d i) s"
    "sprintf_into MAX_PATH (interface_dir d i @ ''/tty'') s = Done (interface_dir d i @ ''/tty'') s"
    using name dir by (simp_all add: sprintf_fits MAX_PATH_def)
  have path: "USB_DEVICE_PATH @ CHR ''/'' # interface_name d i = interface_dir d i"
    by (simp add: interface_dir_def)
  show ?thesis
    using first_stage_find [OF assms(2,3), of s] second_stage_member [OF short, of "interface_name d i" s]
      assms(1,6,7) name(2) fits tty
    unfolding FindUsbDevice_def interface_name_def [symmetric]
    by (auto simp: outcome_simps path split: option.splits)
qed

lemma FindUsbDevice_absent:
  assumes "usb_devices fs = Some es" and "well_formed fs es" and "ids_ok v" and "find (is_modem fs) es = None"
  shows "FindUsbDevice fs v i s = Done None s"
  using first_stage_find [OF assms(2,3), of s] assms(1,4) by (simp add: FindUsbDevice_def outcome_simps)


subsection \<open>The search does not change anything\<close>

lemma stateless_sprintf: "stateless (sprintf_into n t)"
  unfolding sprintf_into_def by (intro stateless_rules)

lemma stateless_first_stage: "stateless (first_stage fs v es)"
  by (induction es arbitrary: v rule: list.induct)
    (auto simp: Let_def intro!: stateless_rules stateless_sprintf)

lemma stateless_second_stage: "stateless (second_stage p es)"
  by (induction es) (auto intro!: stateless_rules stateless_sprintf)

lemma stateless_tty_in: "stateless (tty_in fs dir)"
proof -
  have "stateless (find_tty dir es)" for es
    by (induction es) (auto intro!: stateless_rules stateless_sprintf)
  then show ?thesis
    unfolding tty_in_def by (intro stateless_rules)
qed

lemma stateless_FindUsbDevice: "stateless (FindUsbDevice fs v i)"
  unfolding FindUsbDevice_def
  by (intro stateless_rules stateless_sprintf stateless_first_stage stateless_second_stage stateless_tty_in)

lemma stateless_find_usb_name: "stateless (find_usb_name fs v i)"
  unfolding find_usb_name_def by (intro stateless_rules stateless_FindUsbDevice)

end
