(* ===== verification/Pppd.thy ===== *)
theory Pppd
  imports UsbFind
begin

section \<open>pppd.c: the PPP daemon\<close>

text \<open>
  \<open>pppd.c\<close> starts the daemon in a thread of its own, restarts it when it exits, and stops it.
  Its static variables are the record \<open>pppd\<close>; \<open>client\<close> is the state of the code behind
  \<open>notifyDataCallProcessExit\<close>, which is a parameter here.  The surroundings are data: what
  \<open>/proc\<close> shows at each look, what the modem port delivers, and how each child process
  ends.  \<open>slept\<close> counts the milliseconds spent sleeping, \<open>acts\<close> is the list of the actions
  on other processes.
\<close>

subsection \<open>State\<close>

definition EINTR :: int where "EINTR = 4"
definition EINVAL :: int where "EINVAL = 22"
definition ENOENT :: int where "ENOENT = 2"
definition ETIMEDOUT :: int where "ETIMEDOUT = 110"

lemmas errnos = EINTR_def EINVAL_def ENOENT_def ETIMEDOUT_def

text \<open>
  \<open>/proc\<close>: whether SELinux is there, and the directory, \<open>None\<close> if it cannot be opened, with
  the target of each \<open>exe\<close> link, empty if it cannot be read.
\<close>

record procfs =
  selinux :: bool
  proc_dir :: "(string \<times> string) list option"

datatype ppp_act =
    Execv "string list"
  | Notified int                 \<comment> \<open>\<open>notifyDataCallProcessExit\<close> and what it returned\<close>
  | Modem_command string
  | Toggle_DTR
  | Kill int int int             \<comment> \<open>process, signal, and milliseconds waited before the last resort\<close>

record 'c pppd =
  pppd_pid :: int
  pppd_quit :: bool
  pppd_thread :: bool
  s_ppp_modemport :: string
  s_ppp_user :: string
  s_ppp_password :: string
  s_ppp_auth_type :: string
  s_ppp_number :: string
  s_pdp_default :: int
  s_pdp_type :: "string option"
  s_apn :: string
  errno :: int
  slept :: nat
  acts :: "ppp_act list"
  looks :: nat                        \<comment> \<open>how often \<open>/proc\<close> was looked at\<close>
  procs :: "nat \<Rightarrow> procfs"
  thread_view :: "nat \<Rightarrow> int \<times> bool"   \<comment> \<open>\<open>pppd_pid\<close> and \<open>pppd_thread\<close> after \<open>n\<close> milliseconds\<close>
  client :: 'c

definition ppp_act :: "ppp_act \<Rightarrow> ('c pppd, unit) prog" where
  "ppp_act a = modp (\<lambda>s. s\<lparr>acts := acts s @ [a]\<rparr>)"

definition usleep_ms :: "nat \<Rightarrow> ('c pppd, unit) prog" where
  "usleep_ms n = modp (\<lambda>s. s\<lparr>slept := slept s + n\<rparr>)"

definition BIN_CHAT :: string where "BIN_CHAT = ''/system/bin/chat''"

text \<open>\<open>%s\<close> of a pointer that may be NULL.\<close>

definition or_null :: "string option \<Rightarrow> string" where
  "or_null x = (case x of None \<Rightarrow> ''(null)'' | Some y \<Rightarrow> y)"

subsection \<open>Is the chat program alive?\<close>

fun all_digits :: "string \<Rightarrow> bool" where
  "all_digits [] = True"
| "all_digits (c # cs) = (if code c < 48 \<or> 57 < code c then False else all_digits cs)"

definition is_digit :: "string option \<Rightarrow> int" where
  "is_digit pdigit = (case pdigit of None \<Rightarrow> 0 | Some s \<Rightarrow> if all_digits s then 1 else 0)"

text \<open>\<open>readlink\<close> stores up to \<open>MAX_PATH\<close> bytes; the code puts a NUL behind them.\<close>

fun scan_procs :: "(string \<times> string) list \<Rightarrow> ('s, int) prog" where
  "scan_procs [] = ret 0"
| "scan_procs ((d_name, exe) # es) =
     (if is_digit (Some d_name) = 0 then scan_procs es
      else bindp (sprintf_into MAX_PATH (''/proc/'' @ d_name @ ''/exe'')) (\<lambda>filename.
        let nmsz = min MAX_PATH (length exe)
        in if nmsz = 0 then scan_procs es
           else if MAX_PATH \<le> nmsz then failp OutOfBounds
           else if prefix BIN_CHAT exe then ret 1
           else scan_procs es))"

definition is_chat_alive :: "('c pppd, int) prog" where
  "is_chat_alive = bindp (getp (\<lambda>s. procs s (looks s))) (\<lambda>p.
     seqp (modp (\<lambda>s. s\<lparr>looks := looks s + 1\<rparr>))
     (if selinux p then ret 0
      else (case proc_dir p of None \<Rightarrow> ret 0 | Some es \<Rightarrow> scan_procs es)))"

subsection \<open>Talking to the modem port\<close>

text \<open>
  What \<open>write\<close> does, and what successive \<open>poll\<close>s of 200 ms find: data, silence (which leaves
  \<open>errno\<close> alone), an error, or an error of \<open>read\<close>.  Data beyond the buffer of 127 bytes is
  found by the next \<open>poll\<close>; an event other than data is not read at all.
\<close>

datatype port_write = Sent | Write_interrupted | Write_failed int

datatype port_poll = Data string | Silence | Other_event | Poll_failed int | Read_failed int

definition errno_or_EINVAL :: "('c pppd, int) prog" where
  "errno_or_EINVAL = getp (\<lambda>s. if errno s \<noteq> 0 then errno s else EINVAL)"

definition poll_size :: "port_poll \<Rightarrow> nat" where
  "poll_size e = (case e of Data d \<Rightarrow> Suc (length d) | _ \<Rightarrow> 1)"

text \<open>\<open>poll\<close> did not report data: the time is counted only where \<open>errno\<close> is \<open>ETIMEDOUT\<close>.\<close>

definition poll_nothing :: "int \<Rightarrow> (int \<Rightarrow> ('c pppd, int) prog) \<Rightarrow> ('c pppd, int) prog" where
  "poll_nothing timeout again = bindp (getp errno) (\<lambda>e.
     if e = ETIMEDOUT then again (timeout - 200)
     else if e \<noteq> EINTR then errno_or_EINVAL
     else again timeout)"

function chat_loop :: "port_poll list \<Rightarrow> string \<Rightarrow> int \<Rightarrow> ('c pppd, int) prog" where
  "chat_loop es expect timeout =
     (if timeout \<le> 0 then errno_or_EINVAL
      else (case es of
         [] \<Rightarrow> (\<lambda>s. Blocked s)
       | Silence # es' \<Rightarrow> poll_nothing timeout (\<lambda>t. chat_loop es' expect t)
       | Other_event # es' \<Rightarrow> chat_loop es' expect timeout
       | Poll_failed e # es' \<Rightarrow>
           seqp (modp (\<lambda>s. s\<lparr>errno := e\<rparr>)) (poll_nothing timeout (\<lambda>t. chat_loop es' expect t))
       | Read_failed e # es' \<Rightarrow> seqp (usleep_ms 100) (seqp (modp (\<lambda>s. s\<lparr>errno := e\<rparr>)) errno_or_EINVAL)
       | Data d # es' \<Rightarrow> seqp (usleep_ms 100)
           (if d = [] then errno_or_EINVAL
            else let buf = take 127 d
              in if sublist expect (takeWhile (\<lambda>c. c \<noteq> CHR 0x00) buf) then ret 0
                 else chat_loop (if length d \<le> 127 then es' else Data (drop 127 d) # es') expect timeout)))"
  by pat_completeness auto

termination
proof (relation "measure (\<lambda>(es, _, _). sum_list (map poll_size es))", goal_cases)
  case (5 es expect timeout e es' d buf)
  then show ?case by (cases d) (auto simp: poll_size_def)
qed (auto simp: poll_size_def)

declare chat_loop.simps [simp del]

fun chat_write :: "port_write list \<Rightarrow> ('c pppd, bool) prog" where
  "chat_write [] = ret True"
| "chat_write (Sent # ws) = ret True"
| "chat_write (Write_interrupted # ws) = chat_write ws"
| "chat_write (Write_failed e # ws) = seqp (modp (\<lambda>s. s\<lparr>errno := e\<rparr>)) (ret False)"

definition chat :: "port_write list \<Rightarrow> port_poll list \<Rightarrow> string \<Rightarrow> string \<Rightarrow> int \<Rightarrow> ('c pppd, int) prog" where
  "chat ws es at expect timeout = seqp (ppp_act (Modem_command at))
     (bindp (chat_write ws) (\<lambda>ok. if ok then chat_loop es expect timeout else errno_or_EINVAL))"

subsection \<open>Sleeping\<close>

function sleep_rounds :: "int \<Rightarrow> ('c pppd, unit) prog" where
  "sleep_rounds msec = bindp (getp pppd_quit) (\<lambda>quit.
     if \<not> quit \<and> msec > 0 then seqp (usleep_ms 200) (sleep_rounds (msec - 200)) else ret ())"
  by pat_completeness auto

termination
  by (relation "measure nat") auto

declare sleep_rounds.simps [simp del]

definition pppd_sleep :: "int \<Rightarrow> ('c pppd, unit) prog" where
  "pppd_sleep sec = sleep_rounds (sec * 1000)"

subsection \<open>The command line of the daemon\<close>

text \<open>
  \<open>RIL_VISION\<close> is defined nowhere, so that the preprocessor takes the second of the two lists.
\<close>

definition fixed_args :: "string list" where
  "fixed_args = [''pppd'', ''115200'', ''nodetach'', ''nolock'', ''debug'', ''dump'', ''nocrtscts'',
     ''modem'', ''hide-password'', ''usepeerdns'', ''noipdefault'', ''novj'', ''novjccomp'', ''noccp'',
     ''defaultroute'', ''ipcp-accept-local'', ''ipcp-accept-remote'', ''ipcp-max-failure'', ''30'']"

definition auth_args :: "string \<Rightarrow> string \<Rightarrow> string \<Rightarrow> string list" where
  "auth_args user password auth =
     (if user \<noteq> [] \<and> password \<noteq> [] \<and> auth \<noteq> []
      then (if hd auth = CHR ''0'' then [''refuse-pap'', ''refuse-chap'']
            else if hd auth = CHR ''1'' then [''refuse-chap'']
            else if hd auth = CHR ''2'' then [''refuse-pap'']
            else [])
        @ [''refuse-eap'', ''refuse-mschap'', ''refuse-mschap-v2'']
      else [])"

definition dial_number :: "string \<Rightarrow> string" where
  "dial_number number =
     [CHR 0x27, CHR 0x27] @ ''/system/bin/chat -s -v ABORT BUSY ABORT '' @
     [CHR 0x22] @ ''NO CARRIER'' @ [CHR 0x22] @ '' ABORT '' @ [CHR 0x22] @ ''NO DIALTONE'' @ [CHR 0x22] @
     '' ABORT ERROR ABORT '' @ [CHR 0x22] @ ''NO ANSWER'' @ [CHR 0x22] @ '' TIMEOUT 40 '' @
     [CHR 0x22, CHR 0x22] @ '' ATD'' @ number @ '' CONNECT'' @ [CHR 0x27, CHR 0x27]"

definition ppp_args :: "string \<Rightarrow> string \<Rightarrow> string \<Rightarrow> string \<Rightarrow> string \<Rightarrow> string list" where
  "ppp_args dev user password auth number = fixed_args @ [dev] @ [''user'', user] @
     [''password'', if user \<noteq> [] \<and> password \<noteq> [] then password else []] @
     auth_args user password auth @ [''connect'', dial_number number]"

text \<open>The array \<open>argv\<close> has 40 entries; the last one used is NULL.\<close>

definition ARGV_SIZE :: nat where "ARGV_SIZE = 40"

definition build_argv :: "string \<Rightarrow> ('c pppd, string list) prog" where
  "build_argv dev = bindp (getp (\<lambda>s. ppp_args dev (s_ppp_user s) (s_ppp_password s) (s_ppp_auth_type s)
       (s_ppp_number s))) (\<lambda>args.
     if ARGV_SIZE \<le> length args then failp OutOfBounds else ret args)"


subsection \<open>Stopping and starting\<close>

definition SIGKILL :: int where "SIGKILL = 9"

text \<open>
  A child process works on a copy of the state: only what it does to other processes is left
  of it, here with the milliseconds it has slept by then.
\<close>

definition forked :: "('c pppd, unit) prog \<Rightarrow> ('c pppd, unit) prog" where
  "forked m s = (case m s of
      Done _ c \<Rightarrow> Done () (s\<lparr>acts := acts c\<rparr>)
    | Blocked c \<Rightarrow> Done () (s\<lparr>acts := acts c\<rparr>)
    | Fault f c \<Rightarrow> Fault f (s\<lparr>acts := acts c\<rparr>))"

definition kill_process :: "int \<Rightarrow> int \<Rightarrow> nat \<Rightarrow> ('c pppd, unit) prog" where
  "kill_process pid signo start = bindp (getp slept) (\<lambda>n. ppp_act (Kill pid signo (int n - int start)))"

text \<open>\<open>alive k\<close>: does the daemon still answer \<open>kill(pid, 0)\<close> after \<open>k\<close> pauses?\<close>

fun await_death :: "nat \<Rightarrow> nat \<Rightarrow> (nat \<Rightarrow> bool) \<Rightarrow> ('c pppd, nat) prog" where
  "await_death 0 k alive = ret k"
| "await_death (Suc n) k alive =
     (if alive k then seqp (pppd_sleep 1) (await_death n (k + 1) alive) else ret k)"

definition killer :: "int \<Rightarrow> (nat \<Rightarrow> bool) \<Rightarrow> ('c pppd, unit) prog" where
  "killer signo alive = bindp (getp pppd_pid) (\<lambda>pid. bindp (getp slept) (\<lambda>start.
     seqp (kill_process pid signo start) (bindp (await_death 10 0 alive) (\<lambda>k.
       if signo \<noteq> SIGKILL \<and> alive k then kill_process pid SIGKILL start else ret ()))))"

fun await_chat :: "nat \<Rightarrow> ('c pppd, unit) prog" where
  "await_chat 0 = ret ()"
| "await_chat (Suc n) = bindp is_chat_alive (\<lambda>a.
     if a = 0 then ret () else seqp (pppd_sleep 1) (await_chat n))"

text \<open>The last wait, 100 ms at a time, for the thread to clear its variables.\<close>

definition other_thread :: "('c pppd, unit) prog" where
  "other_thread = modp (\<lambda>s. s\<lparr>pppd_pid := fst (thread_view s (slept s)), pppd_thread := snd (thread_view s (slept s))\<rparr>)"

fun await_thread :: "nat \<Rightarrow> ('c pppd, unit) prog" where
  "await_thread 0 = ret ()"
| "await_thread (Suc n) = seqp (usleep_ms 100) (seqp other_thread
     (bindp (getp (\<lambda>s. pppd_pid s \<noteq> 0 \<or> pppd_thread s)) (\<lambda>busy. if busy then await_thread n else ret ())))"

definition KILL_ROUNDS :: nat where "KILL_ROUNDS = 150"   \<comment> \<open>15000 ms in steps of 100\<close>

text \<open>\<open>forks\<close>: does \<open>fork\<close> succeed?  If it fails, no process is there to send the signals.\<close>

definition pppd_stop :: "int \<Rightarrow> bool \<Rightarrow> (nat \<Rightarrow> bool) \<Rightarrow> ('c pppd, int) prog" where
  "pppd_stop signo forks alive = bindp is_chat_alive (\<lambda>_.
     seqp (modp (\<lambda>s. s\<lparr>pppd_quit := True\<rparr>))
     (bindp (getp (\<lambda>s. pppd_pid s = 0 \<and> \<not> pppd_thread s)) (\<lambda>idle.
       if idle then ret 0
       else seqp (await_chat 50)
         (bindp (getp pppd_pid) (\<lambda>pid.
           seqp (if pid \<noteq> 0 \<and> forks then forked (killer signo alive) else ret ())
           (seqp (await_thread KILL_ROUNDS) (ret 0)))))))"

definition strncpy_into :: "nat \<Rightarrow> string option \<Rightarrow> string" where
  "strncpy_into n x = (case x of None \<Rightarrow> [] | Some t \<Rightarrow> take (n - 1) t)"

text \<open>
  \<open>executable\<close> is \<open>access(path, X_OK)\<close>, \<open>created\<close> the success of \<open>pthread_create\<close>.
\<close>

definition pppd_start ::
  "bool \<Rightarrow> (nat \<Rightarrow> bool) \<Rightarrow> (string \<Rightarrow> bool) \<Rightarrow> bool \<Rightarrow> int \<Rightarrow> int \<Rightarrow> string option \<Rightarrow> string \<Rightarrow> string option \<Rightarrow>
   string option \<Rightarrow> string option \<Rightarrow> string option \<Rightarrow> string option \<Rightarrow> ('c pppd, int) prog" where
  "pppd_start forks alive executable created own_pid default_pdp pdp_type apn modemport user password auth_type ppp_number =
     seqp (pppd_stop SIGKILL forks alive)
     (seqp (modp (\<lambda>s. s\<lparr>s_ppp_modemport := strncpy_into 32 modemport, s_ppp_user := strncpy_into 128 user,
         s_ppp_password := strncpy_into 128 password, s_ppp_auth_type := strncpy_into 2 auth_type,
         s_ppp_number := strncpy_into 32 ppp_number, s_pdp_default := default_pdp, s_pdp_type := pdp_type,
         s_apn := apn\<rparr>))
     (if \<not> executable ''/system/bin/pppd'' then ret (- ENOENT)
      else if \<not> executable ''/system/bin/chat'' then ret (- ENOENT)
      else if \<not> executable ''/etc/ppp/ip-up'' then ret (- ENOENT)
      else seqp (modp (\<lambda>s. s\<lparr>pppd_quit := False\<rparr>))
        (if created then seqp (modp (\<lambda>s. s\<lparr>pppd_thread := True\<rparr>)) (ret own_pid) else ret (-1))))"

definition pppd_running :: "('c pppd, bool) prog" where
  "pppd_running = getp pppd_thread"

subsection \<open>The daemon thread\<close>

text \<open>
  One round of the thread: whether the port opens, how the modem answers the commands, the
  result of \<open>fork\<close>, and what the other threads do to the shared variables before the round
  (\<open>before\<close>) and while the daemon runs (\<open>during\<close>): \<open>pppd_stop\<close> and \<open>pppd_start\<close> set
  \<open>pppd_quit\<close> and the options, and requests change the state behind the listener.  \<open>s_apn\<close> and
  \<open>s_pdp_type\<close> are pointers into the data of a request that may be over: what they show when
  they are read is up to \<open>before\<close> as well.  The exit status of the daemon is only logged.
\<close>

record 'c ppp_round =
  before :: "'c pppd \<Rightarrow> 'c pppd"
  port_opens :: bool
  at_answer :: "port_write list \<times> port_poll list"
  escape_answer :: "port_write list \<times> port_poll list"
  context_answer :: "port_write list \<times> port_poll list"
  child_pid :: int
  during :: "'c pppd \<Rightarrow> 'c pppd"

definition call_notify :: "('c, int) prog \<Rightarrow> ('c pppd, int) prog" where
  "call_notify notify s = (case notify (client s) of
      Done x c \<Rightarrow> Done x (s\<lparr>client := c, acts := acts s @ [Notified x]\<rparr>)
    | Blocked c \<Rightarrow> Blocked (s\<lparr>client := c\<rparr>)
    | Fault f c \<Rightarrow> Fault f (s\<lparr>client := c\<rparr>))"

text \<open>\<open>notifyDataCallProcessExit() || pppd_quit\<close>\<close>

definition notify_or_quit :: "('c, int) prog \<Rightarrow> 'c ppp_round \<Rightarrow> ('c pppd, bool) prog" where
  "notify_or_quit notify r = seqp (modp (during r)) (bindp (call_notify notify) (\<lambda>x.
     getp (\<lambda>s. x \<noteq> 0 \<or> pppd_quit s)))"

definition leave_data_mode :: "'c ppp_round \<Rightarrow> ('c pppd, unit) prog" where
  "leave_data_mode r = seqp (pppd_sleep 1)
     (seqp (chat (fst (escape_answer r)) (snd (escape_answer r)) ''+++'' ''OK'' 1000)
     (seqp (pppd_sleep 1) (seqp (ppp_act Toggle_DTR)
     (seqp (pppd_sleep 1) (seqp (ppp_act Toggle_DTR) (pppd_sleep 1))))))"

definition newline :: string where "newline = [CHR 0x0A]"
definition carriage_return :: string where "carriage_return = [CHR 0x0D]"
definition quote_char :: string where "quote_char = [CHR 0x22]"

text \<open>
  \<open>cgdcont_cmd\<close> has 256 bytes.  \<open>s_apn\<close> and \<open>s_pdp_type\<close> stand for what the pointers show now.
\<close>

definition define_context :: "'c ppp_round \<Rightarrow> ('c pppd, unit) prog" where
  "define_context r = bindp (getp (\<lambda>s. (s_apn s, s_pdp_type s, s_pdp_default s))) (\<lambda>(apn, ty, pdp).
     if length apn > 1 then
       bindp (sprintf_into 256 (''AT+CGDCONT='' @ print_d pdp @ '','' @ quote_char @ or_null ty @ quote_char @
           '','' @ quote_char @ apn @ quote_char @ carriage_return)) (\<lambda>cmd.
         bindp (chat (fst (context_answer r)) (snd (context_answer r)) cmd ''OK'' 1000) (\<lambda>_. ret ()))
     else ret ())"

text \<open>The child replaces itself by the daemon; the parent waits for it.\<close>

definition run_daemon :: "string \<Rightarrow> 'c ppp_round \<Rightarrow> ('c pppd, unit) prog" where
  "run_daemon dev r = seqp (forked (bindp (build_argv dev) (\<lambda>argv. ppp_act (Execv argv))))
     (seqp (modp (\<lambda>s. s\<lparr>pppd_pid := child_pid r\<rparr>)) (modp (\<lambda>s. s\<lparr>pppd_pid := 0\<rparr>)))"

text \<open>The body of \<open>while (!pppd_quit)\<close>; the result says whether it ends with \<open>break\<close>.\<close>

definition thread_round :: "('c, int) prog \<Rightarrow> string \<Rightarrow> 'c ppp_round \<Rightarrow> ('c pppd, bool) prog" where
  "thread_round notify dev r =
     (if \<not> port_opens r then seqp (pppd_sleep 3) (ret False)
      else bindp (chat (fst (at_answer r)) (snd (at_answer r)) (''AT'' @ newline) ''OK'' 1000) (\<lambda>e.
        if e \<noteq> 0 then seqp (leave_data_mode r) (notify_or_quit notify r)
        else seqp (define_context r)
          (if child_pid r < 0 then ret True
           else seqp (run_daemon dev r) (bindp (notify_or_quit notify r) (\<lambda>stop.
             if stop then ret True else seqp (pppd_sleep 3) (ret False))))))"

fun thread_loop :: "('c, int) prog \<Rightarrow> string \<Rightarrow> 'c ppp_round list \<Rightarrow> ('c pppd, unit) prog" where
  "thread_loop notify dev [] = (\<lambda>s. Blocked s)"
| "thread_loop notify dev (r # rs) = seqp (modp (before r))
     (bindp (getp pppd_quit) (\<lambda>quit.
       if quit then ret ()
       else bindp (thread_round notify dev r) (\<lambda>stop. if stop then ret () else thread_loop notify dev rs)))"

text \<open>\<open>serialdevname\<close> has 32 bytes.\<close>

definition pppd_thread_function ::
  "sysfs \<Rightarrow> usb_ids \<Rightarrow> ('c, int) prog \<Rightarrow> 'c ppp_round list \<Rightarrow> ('c pppd, unit) prog" where
  "pppd_thread_function fs v notify rs =
     bindp (find_usb_name fs v AIRM2M_USB_DEVICE_PPP_INTERFACE_ID) (\<lambda>pppdev.
     bindp (sprintf_into 32 (''/dev/'' @ or_null pppdev)) (\<lambda>dev.
       seqp (thread_loop notify dev rs) (modp (\<lambda>s. s\<lparr>pppd_thread := False\<rparr>))))"

subsection \<open>The command line fits\<close>

lemma ppp_args_length: "length (ppp_args dev user password auth number) \<le> 31"
  by (simp add: ppp_args_def fixed_args_def auth_args_def)

lemma build_argv_run:
  "build_argv dev s = Done (ppp_args dev (s_ppp_user s) (s_ppp_password s) (s_ppp_auth_type s) (s_ppp_number s)) s"
proof -
  have "length (ppp_args dev (s_ppp_user s) (s_ppp_password s) (s_ppp_auth_type s) (s_ppp_number s)) < ARGV_SIZE"
    by (rule le_less_trans [OF ppp_args_length]) (simp add: ARGV_SIZE_def)
  then show ?thesis
    by (simp add: build_argv_def outcome_simps)
qed

subsection \<open>Waiting while stopping\<close>

lemma sleep_quit: "pppd_quit s \<Longrightarrow> pppd_sleep sec s = Done () s"
  by (simp add: pppd_sleep_def sleep_rounds.simps [of "sec * 1000"] outcome_simps)

lemma sleep_full:
  "\<not> pppd_quit s \<Longrightarrow> 0 \<le> msec \<Longrightarrow> msec mod 200 = 0 \<Longrightarrow>
   sleep_rounds msec s = Done () (s\<lparr>slept := slept s + nat msec\<rparr>)"
proof (induction "nat msec" arbitrary: msec s rule: less_induct)
  case less
  show ?case
  proof (cases "msec = 0")
    case True
    then show ?thesis by (simp add: sleep_rounds.simps outcome_simps)
  next
    case False
    then have "200 \<le> msec"
      using less.prems(2,3) by (auto intro: zmod_le_nonneg_dividend dest: mod_pos_pos_trivial [of msec 200])
    then have "sleep_rounds (msec - 200) (s\<lparr>slept := slept s + 200\<rparr>) =
        Done () (s\<lparr>slept := slept s + 200 + nat (msec - 200)\<rparr>)"
      using less.hyps [of "msec - 200" "s\<lparr>slept := slept s + 200\<rparr>"] less.prems by simp
    then show ?thesis
      using \<open>200 \<le> msec\<close> less.prems(1)
      by (subst sleep_rounds.simps) (simp add: outcome_simps usleep_ms_def nat_diff_distrib)
  qed
qed

lemma await_death_quit: "pppd_quit s \<Longrightarrow> \<exists>k. await_death n i alive s = Done k s \<and> i \<le> k"
proof (induction n arbitrary: i)
  case (Suc n)
  then obtain k where "await_death n (i + 1) alive s = Done k s \<and> i + 1 \<le> k" by blast
  then show ?case
    using sleep_quit [OF Suc.prems, of 1] by (cases "alive i") (auto simp: outcome_simps)
qed (simp add: outcome_simps)

lemma scan_procs_state: "case scan_procs es s of Done _ t \<Rightarrow> t = s | Blocked t \<Rightarrow> False | Fault _ t \<Rightarrow> t = s"
  by (induction es rule: scan_procs.induct) (auto simp: sprintf_into_def Let_def outcome_simps)

lemma chat_alive_frame:
  "is_chat_alive s = Done a t \<Longrightarrow> t = s\<lparr>looks := looks s + 1\<rparr>"
  using scan_procs_state [where es = "the (proc_dir (procs s (looks s)))" and s = "s\<lparr>looks := looks s + 1\<rparr>"]
  by (auto simp: is_chat_alive_def outcome_simps split: if_splits option.splits)

lemma await_chat_quit:
  assumes "pppd_quit s" and "await_chat n s = Done () t"
  shows "\<exists>k \<le> n. t = s\<lparr>looks := looks s + k\<rparr>"
  using assms
proof (induction n arbitrary: s)
  case 0
  then show ?case by (auto simp: outcome_simps)
next
  case (Suc n)
  obtain a u where u: "is_chat_alive s = Done a u"
      "(if a = 0 then ret () else seqp (pppd_sleep 1) (await_chat n)) u = Done () t"
    using Suc.prems(2) by (auto elim: bindp_DoneE)
  have s: "u = s\<lparr>looks := looks s + 1\<rparr>"
    by (rule chat_alive_frame [OF u(1)])
  show ?case
  proof (cases "a = 0")
    case True
    then show ?thesis using u(2) s by (auto simp: outcome_simps intro!: exI [of _ 1])
  next
    case False
    have "pppd_sleep 1 u = Done () u"
      by (rule sleep_quit) (simp add: s Suc.prems(1))
    then have "await_chat n u = Done () t"
      using u(2) False by (simp add: outcome_simps)
    then obtain k where "k \<le> n" "t = u\<lparr>looks := looks u + k\<rparr>"
      using Suc.IH [of u] Suc.prems(1) s by auto
    then show ?thesis
      using s by (auto intro!: exI [of _ "k + 1"])
  qed
qed

lemma killer_run:
  assumes "pppd_quit s" and "signo \<noteq> SIGKILL" and "\<forall>k. alive k"
  shows "killer signo alive s = Done () (s\<lparr>acts := acts s @ [Kill (pppd_pid s) signo 0, Kill (pppd_pid s) SIGKILL 0]\<rparr>)"
proof -
  let ?u = "s\<lparr>acts := acts s @ [Kill (pppd_pid s) signo 0]\<rparr>"
  have "pppd_quit ?u" using assms(1) by simp
  from await_death_quit [OF this] obtain k where "await_death 10 0 alive ?u = Done k ?u" by blast
  then show ?thesis
    using assms(2,3) by (simp add: killer_def kill_process_def ppp_act_def outcome_simps)
qed

lemma await_thread_frame:
  "\<exists>t. await_thread n s = Done () t \<and> slept t \<le> slept s + 100 * n \<and> acts t = acts s \<and>
     (n > 0 \<and> slept t < slept s + 100 * n \<longrightarrow> pppd_pid t = 0 \<and> \<not> pppd_thread t)"
proof (induction n arbitrary: s)
  case (Suc n)
  let ?u = "s\<lparr>slept := slept s + 100\<rparr>"
  let ?v = "?u\<lparr>pppd_pid := fst (thread_view ?u (slept ?u)), pppd_thread := snd (thread_view ?u (slept ?u))\<rparr>"
  have run: "await_thread (Suc n) s = (if pppd_pid ?v \<noteq> 0 \<or> pppd_thread ?v then await_thread n ?v else Done () ?v)"
    by (simp add: usleep_ms_def other_thread_def outcome_simps)
  show ?case
  proof (cases "pppd_pid ?v \<noteq> 0 \<or> pppd_thread ?v")
    case True
    obtain t where t: "await_thread n ?v = Done () t" "slept t \<le> slept ?v + 100 * n" "acts t = acts ?v"
        "n > 0 \<and> slept t < slept ?v + 100 * n \<longrightarrow> pppd_pid t = 0 \<and> \<not> pppd_thread t"
      using Suc.IH [of ?v] by blast
    have "n = 0 \<Longrightarrow> slept t = slept ?v"
      using t(1) by (auto simp: outcome_simps)
    then show ?thesis
      using t True run by (cases "n = 0") auto
  next
    case False
    then show ?thesis using run by auto
  qed
qed (simp add: outcome_simps)


text \<open>
  Stopping a running daemon that does not die: the flag that is to end the thread is set first,
  and all pauses of one second end at once where it is set.  The list of the signals that are
  sent is empty where \<open>fork\<close> fails.
\<close>

definition kills_sent :: "bool \<Rightarrow> int \<Rightarrow> int \<Rightarrow> ppp_act list" where
  "kills_sent forks pid signo = (if forks then [Kill pid signo 0, Kill pid SIGKILL 0] else [])"

lemma pppd_stop_kills:
  assumes "pppd_stop signo forks alive s = Done x t" and "pppd_pid s \<noteq> 0" and "signo \<noteq> SIGKILL" and "\<forall>k. alive k"
  shows "acts t = acts s @ kills_sent forks (pppd_pid s) signo \<and> slept t \<le> slept s + 15000"
proof -
  let ?kill = "\<lambda>pid. if pid \<noteq> 0 \<and> forks then forked (killer signo alive) else ret ()"
  obtain a u where u: "is_chat_alive s = Done a u"
    and rest: "seqp (modp (\<lambda>s. s\<lparr>pppd_quit := True\<rparr>))
     (bindp (getp (\<lambda>s. pppd_pid s = 0 \<and> \<not> pppd_thread s)) (\<lambda>idle.
       if idle then ret 0
       else seqp (await_chat 50)
         (bindp (getp pppd_pid) (\<lambda>pid.
           seqp (?kill pid) (seqp (await_thread KILL_ROUNDS) (ret 0)))))) u = Done x t"
    using assms(1) unfolding pppd_stop_def by (auto elim: bindp_DoneE)
  have s: "u = s\<lparr>looks := looks s + 1\<rparr>"
    by (rule chat_alive_frame [OF u])
  define v where "v = u\<lparr>pppd_quit := True\<rparr>"
  have v: "pppd_quit v" "pppd_pid v = pppd_pid s" "acts v = acts s" "slept v = slept s"
    by (simp_all add: v_def s)
  have tail: "seqp (await_chat 50) (bindp (getp pppd_pid) (\<lambda>pid.
       seqp (?kill pid) (seqp (await_thread KILL_ROUNDS) (ret 0)))) v = Done x t"
    using rest assms(2) v(2)
    by (simp add: seqp_apply bindp_apply modp_apply getp_apply v_def [symmetric])
  obtain w where w: "await_chat 50 v = Done () w"
    and last: "bindp (getp pppd_pid) (\<lambda>pid.
       seqp (?kill pid) (seqp (await_thread KILL_ROUNDS) (ret 0))) w = Done x t"
    by (rule seqp_DoneE [OF tail]) simp
  obtain k where k: "w = v\<lparr>looks := looks v + k\<rparr>"
    using await_chat_quit [OF v(1) w] by blast
  define z where "z = w\<lparr>acts := acts s @ kills_sent forks (pppd_pid s) signo\<rparr>"
  have "?kill (pppd_pid w) w = Done () z"
    using killer_run [of w signo alive] assms(2-4) v k
    by (simp add: forked_def z_def kills_sent_def outcome_simps)
  moreover obtain y where "await_thread KILL_ROUNDS z = Done () y" "slept y \<le> slept z + 100 * KILL_ROUNDS" "acts y = acts z"
    using await_thread_frame [of KILL_ROUNDS z] by blast
  ultimately have "t = y" and "acts y = acts z" and "slept y \<le> slept z + 15000"
    using last by (simp_all add: bindp_apply seqp_apply getp_apply ret_apply KILL_ROUNDS_def split: if_splits)
  then show ?thesis
    using v k by (simp add: z_def)
qed

subsection \<open>The time a chat takes\<close>

lemma errno_or_EINVAL_nonzero [simp]: "errno_or_EINVAL s \<noteq> Done 0 t"
  by (auto simp: errno_or_EINVAL_def outcome_simps errnos split: if_splits)

lemma silent_EINTR:
  "errno s = EINTR \<Longrightarrow> 0 < timeout \<Longrightarrow> chat_loop (replicate n Silence) expect timeout s = Blocked s"
  by (induction n) (simp_all add: chat_loop.simps poll_nothing_def outcome_simps errnos)

lemma silent_other:
  "errno s \<noteq> EINTR \<Longrightarrow> errno s \<noteq> ETIMEDOUT \<Longrightarrow> 0 < timeout \<Longrightarrow>
   chat_loop (Silence # es) expect timeout s = Done (if errno s \<noteq> 0 then errno s else EINVAL) s"
  by (simp add: chat_loop.simps poll_nothing_def errno_or_EINVAL_def outcome_simps)

lemma poll_nothing_found:
  "poll_nothing timeout again s = Done 0 t \<Longrightarrow> \<exists>t'. again t' s = Done 0 t"
  by (auto simp: poll_nothing_def outcome_simps split: if_splits)

lemma chat_loop_found:
  assumes "chat_loop es expect timeout s = Done 0 t"
  shows "\<exists>d. Data d \<in> set es \<and> sublist expect d"
  using assms
proof (induction es expect timeout arbitrary: s rule: chat_loop.induct)
  case (1 es expect timeout)
  have pos: "\<not> timeout \<le> 0"
    using "1.prems" by (auto simp: chat_loop.simps [of es])
  obtain e es' where es: "es = e # es'"
    using "1.prems" pos by (cases es) (auto simp: chat_loop.simps [of "[]"])
  note run = "1.prems" [unfolded es chat_loop.simps [of "e # es'"]]
  show ?case
  proof (cases e)
    case (Data d)
    have d: "d \<noteq> []"
      using run pos by (auto simp: Data outcome_simps usleep_ms_def split: if_splits)
    show ?thesis
    proof (cases "sublist expect (takeWhile (\<lambda>c. c \<noteq> CHR 0x00) (take 127 d))")
      case True
      have "prefix (takeWhile (\<lambda>c. c \<noteq> CHR 0x00) (take 127 d)) d"
        by (meson prefix_order.trans take_is_prefix takeWhile_is_prefix)
      then show ?thesis
        using True es Data by (auto intro: sublist_order.order_trans prefix_imp_sublist)
    next
      case False
      then have "chat_loop (if length d \<le> 127 then es' else Data (drop 127 d) # es') expect timeout
          (s\<lparr>slept := slept s + 100\<rparr>) = Done 0 t"
        using run pos d by (simp add: Data outcome_simps usleep_ms_def Let_def)
      from "1.IH"(1) [OF pos es Data d refl False this]
      obtain d' where d': "Data d' \<in> set (if length d \<le> 127 then es' else Data (drop 127 d) # es')" "sublist expect d'"
        by blast
      moreover have "sublist (drop 127 d) d"
        by (simp add: sublist_drop)
      ultimately show ?thesis
        using es Data by (auto split: if_splits intro: sublist_order.order_trans)
    qed
  next
    case Silence
    then have "poll_nothing timeout (\<lambda>t. chat_loop es' expect t) s = Done 0 t"
      using run pos by simp
    then show ?thesis
      using "1.IH"(2) [OF pos es Silence] es by (auto dest!: poll_nothing_found)
  next
    case Other_event
    then show ?thesis
      using "1.IH"(3) [OF pos es Other_event] run pos es by auto
  next
    case (Poll_failed k)
    then have "poll_nothing timeout (\<lambda>t. chat_loop es' expect t) (s\<lparr>errno := k\<rparr>) = Done 0 t"
      using run pos by (simp add: outcome_simps)
    then show ?thesis
      using "1.IH"(4) [OF pos es Poll_failed] es by (auto dest!: poll_nothing_found)
  next
    case (Read_failed k)
    then show ?thesis
      using run pos by (auto simp: outcome_simps usleep_ms_def)
  qed
qed

subsection \<open>How often the daemon is started\<close>

definition is_start :: "ppp_act \<Rightarrow> bool" where
  "is_start a = (case a of Execv _ \<Rightarrow> True | _ \<Rightarrow> False)"

definition starts :: "'c pppd \<Rightarrow> nat" where
  "starts s = length (filter is_start (acts s))"

text \<open>Neither the client nor the number of starts changes, however the program ends.\<close>

definition still :: "('c pppd, 'a) prog \<Rightarrow> bool" where
  "still m \<longleftrightarrow> (\<forall>s. client (outcome_state (m s)) = client s \<and> starts (outcome_state (m s)) = starts s)"

lemma still_bind: "still m \<Longrightarrow> (\<And>x. still (f x)) \<Longrightarrow> still (bindp m f)"
  unfolding still_def
proof (intro allI)
  fix s
  assume m: "\<forall>s. client (outcome_state (m s)) = client s \<and> starts (outcome_state (m s)) = starts s"
    and f: "\<And>x. \<forall>s. client (outcome_state (f x s)) = client s \<and> starts (outcome_state (f x s)) = starts s"
  show "client (outcome_state (bindp m f s)) = client s \<and> starts (outcome_state (bindp m f s)) = starts s"
    using m [rule_format, of s] f by (cases "m s") (auto simp: bindp_def outcome_state_simps)
qed

lemma still_seq: "still m \<Longrightarrow> still n \<Longrightarrow> still (seqp m n)"
  unfolding seqp_def by (rule still_bind)

lemma still_pure: "still (ret x)" "still (getp f)" "still (failp e)" "still Blocked"
  by (simp_all add: still_def outcome_state_simps outcome_simps)

lemma still_modp: "(\<And>s. client (f s) = client s \<and> acts (f s) = acts s) \<Longrightarrow> still (modp f)"
  by (simp add: still_def outcome_state_simps outcome_simps starts_def)

lemma still_if: "(b \<Longrightarrow> still m) \<Longrightarrow> (\<not> b \<Longrightarrow> still n) \<Longrightarrow> still (if b then m else n)"
  by simp

lemma still_act: "\<not> is_start a \<Longrightarrow> still (ppp_act a)"
  by (simp add: still_def ppp_act_def outcome_state_simps outcome_simps starts_def)

lemmas still_rules = still_pure still_bind still_seq still_if

lemma still_poll: "(\<And>t. still (again t)) \<Longrightarrow> still (poll_nothing timeout again)"
  unfolding poll_nothing_def errno_or_EINVAL_def by (intro still_rules)

lemma still_chat_loop: "still (chat_loop es expect timeout)"
proof (induction es expect timeout rule: chat_loop.induct)
  case (1 es expect timeout)
  have e: "still errno_or_EINVAL" "still (usleep_ms n)" for n
    by (simp_all add: errno_or_EINVAL_def usleep_ms_def still_pure still_modp)
  have m: "still (modp (\<lambda>s. s\<lparr>errno := k\<rparr>))" for k
    by (rule still_modp) simp
  show ?case
    unfolding chat_loop.simps [of es] Let_def
    using "1.IH" by (auto split: list.split port_poll.split intro!: still_rules still_poll e m)
qed

lemma still_chat: "still (chat ws es at expect timeout)"
proof -
  have "still (chat_write ws)"
    by (induction ws rule: chat_write.induct) (auto intro!: still_rules still_modp)
  then show ?thesis
    unfolding chat_def errno_or_EINVAL_def
    by (intro still_rules still_act still_chat_loop) (simp_all add: is_start_def)
qed

lemma still_sleep_rounds: "still (sleep_rounds msec)"
proof (induction msec rule: sleep_rounds.induct)
  case (1 msec)
  show ?case
    unfolding sleep_rounds.simps [of msec] usleep_ms_def
    by (intro still_rules still_modp) (use 1 [of False] in simp_all)
qed

lemma still_sleep: "still (pppd_sleep sec)"
  unfolding pppd_sleep_def by (rule still_sleep_rounds)

lemma still_leave_data_mode: "still (leave_data_mode r)"
  unfolding leave_data_mode_def by (intro still_rules still_sleep still_chat still_act) (simp_all add: is_start_def)

lemma still_define_context: "still (define_context r)"
  unfolding define_context_def sprintf_into_def
  by (auto intro!: still_rules still_chat split: prod.split)

lemma run_daemon_run:
  "\<exists>t. run_daemon dev r s = Done () t \<and> client t = client s \<and> starts t = starts s + 1 \<and> pppd_quit t = pppd_quit s"
  by (simp add: run_daemon_def forked_def build_argv_run ppp_act_def outcome_simps starts_def is_start_def)


subsection \<open>The listener of the daemon\<close>

text \<open>
  What the thread relies on: the listener returns and keeps its invariant, and it does not ask
  for another start more often than its patience says, which is bounded.
\<close>

locale exit_listener =
  fixes notify :: "('c, int) prog" and ok :: "'c \<Rightarrow> bool" and patience :: "'c \<Rightarrow> nat" and limit :: nat
  assumes notify_returns: "ok c \<Longrightarrow> \<exists>x c'. notify c = Done x c' \<and> ok c' \<and> (x \<noteq> 0 \<or> patience c' < patience c)"
    and patience_bounded: "ok c \<Longrightarrow> patience c \<le> limit"

text \<open>
  What the other threads may do to the variables: anything that keeps the invariant of the
  listener and is not a start by this thread; and, where \<open>fresh\<close> does not hold, nothing that
  makes the listener more patient.
\<close>

definition meddles :: "('c \<Rightarrow> bool) \<Rightarrow> ('c \<Rightarrow> nat) \<Rightarrow> bool \<Rightarrow> ('c pppd \<Rightarrow> 'c pppd) \<Rightarrow> bool" where
  "meddles ok patience fresh f \<longleftrightarrow> (\<forall>s. starts (f s) = starts s \<and> (ok (client s) \<longrightarrow> ok (client (f s)) \<and>
     (\<not> fresh \<longrightarrow> patience (client (f s)) \<le> patience (client s))))"

text \<open>
  A program that starts the daemon at most once and keeps the invariant, and whose result
  \<open>False\<close>, to go on, has cost patience if it did, where \<open>fresh\<close> does not hold.
\<close>

definition modest :: "('c \<Rightarrow> bool) \<Rightarrow> ('c \<Rightarrow> nat) \<Rightarrow> nat \<Rightarrow> bool \<Rightarrow> ('c pppd, bool) prog \<Rightarrow> bool" where
  "modest ok patience limit fresh m \<longleftrightarrow> (\<forall>s. ok (client s) \<longrightarrow> starts (outcome_state (m s)) \<le> starts s + 1 \<and>
     (\<forall>t. m s = Done False t \<longrightarrow> ok (client t) \<and>
        starts t + patience (client t) \<le> starts s + (if fresh then limit else patience (client s))))"

lemma modest_bind:
  fixes m :: "('c pppd, 'a) prog"
  assumes "still m" and "\<And>x. modest ok p l fr (f x)"
  shows "modest ok p l fr (bindp m f)"
  unfolding modest_def
proof (intro allI impI)
  fix s :: "'c pppd"
  assume s: "ok (client s)"
  have m: "client (outcome_state (m s)) = client s" "starts (outcome_state (m s)) = starts s"
    using assms(1) by (simp_all add: still_def)
  show "starts (outcome_state (bindp m f s)) \<le> starts s + 1 \<and>
     (\<forall>t. bindp m f s = Done False t \<longrightarrow> ok (client t) \<and>
        starts t + p (client t) \<le> starts s + (if fr then l else p (client s)))"
  proof (cases "m s")
    case (Done x u)
    then show ?thesis
      using m s assms(2) [unfolded modest_def, rule_format, of u x]
      by (cases fr) (simp_all add: bindp_apply outcome_state_simps)
  qed (use m in \<open>simp_all add: bindp_apply outcome_state_simps\<close>)
qed

lemma modest_seq: "still m \<Longrightarrow> modest ok p l fr n \<Longrightarrow> modest ok p l fr (seqp m n)"
  unfolding seqp_def by (rule modest_bind)

lemma modest_True: "modest ok p l fr (ret True)"
  by (simp add: modest_def outcome_state_simps ret_def)

lemma modest_if: "(b \<Longrightarrow> modest ok p l fr m) \<Longrightarrow> (\<not> b \<Longrightarrow> modest ok p l fr n) \<Longrightarrow> modest ok p l fr (if b then m else n)"
  by simp

lemma run_daemon_once:
  fixes m :: "('c pppd, bool) prog"
  assumes "\<And>s. ok (client s) \<Longrightarrow> \<exists>b t. m s = Done b t \<and> ok (client t) \<and> starts t = starts s \<and>
      (b \<or> Suc (p (client t)) \<le> (if fr then l else p (client s)))"
  shows "modest ok p l fr (seqp (run_daemon dev r) (bindp m (\<lambda>stop.
     if stop then ret True else seqp (pppd_sleep 3) (ret False))))" (is "modest _ _ _ _ ?m")
  unfolding modest_def
proof (intro allI impI)
  fix s :: "'c pppd"
  assume s: "ok (client s)"
  obtain u where u: "run_daemon dev r s = Done () u" "client u = client s" "starts u = starts s + 1"
    using run_daemon_run [of dev r s] by blast
  obtain b v where v: "m u = Done b v" "ok (client v)" "starts v = starts u"
      "b \<or> Suc (p (client v)) \<le> (if fr then l else p (client u))"
    using assms [of u] s u(2) by auto
  have w: "client (outcome_state (pppd_sleep 3 v)) = client v" "starts (outcome_state (pppd_sleep 3 v)) = starts v"
    using still_sleep [of 3, where ?'a = 'c] by (simp_all add: still_def)
  show "starts (outcome_state (?m s)) \<le> starts s + 1 \<and>
     (\<forall>t. ?m s = Done False t \<longrightarrow> ok (client t) \<and>
        starts t + p (client t) \<le> starts s + (if fr then l else p (client s)))"
    using u v w by (cases b; cases "pppd_sleep 3 v") (auto simp: outcome_simps outcome_state_simps)
qed

context exit_listener
begin

lemma notify_or_quit_run:
  assumes "meddles ok patience fr (during r)" and "ok (client s)"
  shows "\<exists>b t. notify_or_quit notify r s = Done b t \<and> ok (client t) \<and> starts t = starts s \<and>
     (b \<or> Suc (patience (client t)) \<le> (if fr then limit else patience (client s)))"
proof -
  define u where "u = during r s"
  have u: "starts u = starts s" "ok (client u)" "\<not> fr \<Longrightarrow> patience (client u) \<le> patience (client s)"
    using assms by (simp_all add: meddles_def u_def)
  obtain x c where x: "notify (client u) = Done x c" "ok c" "x \<noteq> 0 \<or> patience c < patience (client u)"
    using notify_returns [OF u(2)] by blast
  then have "x \<noteq> 0 \<or> Suc (patience c) \<le> (if fr then limit else patience (client s))"
    using u(3) patience_bounded [OF u(2)] by auto
  then show ?thesis
    using x(1,2) u(1) by (auto simp: notify_or_quit_def call_notify_def outcome_simps starts_def is_start_def u_def)
qed

lemma modest_notify: "meddles ok patience fr (during r) \<Longrightarrow> modest ok patience limit fr (notify_or_quit notify r)"
  unfolding modest_def
proof (intro allI impI)
  fix s :: "'c pppd"
  assume "meddles ok patience fr (during r)" "ok (client s)"
  then obtain b t where "notify_or_quit notify r s = Done b t" "ok (client t)" "starts t = starts s"
      "b \<or> Suc (patience (client t)) \<le> (if fr then limit else patience (client s))"
    using notify_or_quit_run by blast
  then show "starts (outcome_state (notify_or_quit notify r s)) \<le> starts s + 1 \<and>
     (\<forall>t. notify_or_quit notify r s = Done False t \<longrightarrow> ok (client t) \<and>
        starts t + patience (client t) \<le> starts s + (if fr then limit else patience (client s)))"
    by (auto simp: outcome_state_simps)
qed

lemma modest_wait: "modest ok patience limit fr (seqp (pppd_sleep 3) (ret False))"
  by (rule modest_seq [OF still_sleep])
    (auto simp: modest_def outcome_state_simps ret_def patience_bounded)

lemma modest_round:
  assumes "meddles ok patience fr (during r)"
  shows "modest ok patience limit fr (thread_round notify dev r)"
  unfolding thread_round_def
  by (intro modest_if modest_bind modest_seq modest_True modest_notify [OF assms] modest_wait
      run_daemon_once notify_or_quit_run [OF assms] still_sleep still_chat still_leave_data_mode
      still_define_context)

lemma thread_loop_starts:
  assumes "\<forall>r \<in> set rs. meddles ok patience (fresh r) (before r) \<and> meddles ok patience (fresh r) (during r)"
    and "ok (client s)"
  shows "starts (outcome_state (thread_loop notify dev rs s)) \<le>
    starts s + patience (client s) + 1 + (limit + 1) * length (filter fresh rs)"
  using assms
proof (induction rs arbitrary: s)
  case Nil
  then show ?case by (simp add: outcome_state_simps)
next
  case (Cons r rs)
  define u where "u = before r s"
  have u: "starts u = starts s" "ok (client u)" "\<not> fresh r \<Longrightarrow> patience (client u) \<le> patience (client s)"
    using Cons.prems by (simp_all add: meddles_def u_def)
  have step: "modp (before r) s = Done () u"
    by (simp add: modp_def u_def)
  have "modest ok patience limit (fresh r) (thread_round notify dev r)"
    using Cons.prems(1) by (simp add: modest_round)
  then have round: "starts (outcome_state (thread_round notify dev r u)) \<le> starts u + 1"
    "\<And>t. thread_round notify dev r u = Done False t \<Longrightarrow> ok (client t) \<and>
       starts t + patience (client t) \<le> starts u + (if fresh r then limit else patience (client u))"
    using u(2) by (simp_all add: modest_def)
  show ?case
  proof (cases "pppd_quit u")
    case True
    then show ?thesis
      using u by (simp add: seqp_apply bindp_apply getp_apply ret_apply step outcome_state_simps)
  next
    case False
    show ?thesis
    proof (cases "thread_round notify dev r u")
      case (Done stop t)
      show ?thesis
      proof (cases stop)
        case True
        then show ?thesis
          using Done False round(1) u(1)
          by (simp add: seqp_apply bindp_apply getp_apply ret_apply step outcome_state_simps)
      next
        case stop: False
        then have t: "ok (client t)"
            "starts t + patience (client t) \<le> starts u + (if fresh r then limit else patience (client u))"
          using round(2) Done by simp_all
        have "starts (outcome_state (thread_loop notify dev rs t)) \<le>
            starts t + patience (client t) + 1 + (limit + 1) * length (filter fresh rs)"
          using Cons.IH [OF _ t(1)] Cons.prems(1) by simp
        then show ?thesis
          using Done False stop t(2) u
          by (cases "fresh r") (simp_all add: seqp_apply bindp_apply getp_apply step)
      qed
    qed (use False round(1) u in \<open>simp_all add: seqp_apply bindp_apply getp_apply step outcome_state_simps\<close>)
  qed
qed

lemma thread_starts:
  assumes "\<forall>r \<in> set rs. meddles ok patience (fresh r) (before r) \<and> meddles ok patience (fresh r) (during r)"
    and "ok (client s)"
  shows "starts (outcome_state (pppd_thread_function fs v notify rs s)) \<le>
    starts s + (limit + 1) * (1 + length (filter fresh rs))"
proof -
  have find: "stateless (bindp (find_usb_name fs v AIRM2M_USB_DEVICE_PPP_INTERFACE_ID) (\<lambda>pppdev.
      sprintf_into 32 (''/dev/'' @ or_null pppdev)))" (is "stateless ?find")
    by (intro stateless_rules stateless_find_usb_name stateless_sprintf)
  have run: "pppd_thread_function fs v notify rs = bindp ?find (\<lambda>dev.
      seqp (thread_loop notify dev rs) (modp (\<lambda>s. s\<lparr>pppd_thread := False\<rparr>)))"
    by (simp add: pppd_thread_function_def bindp_assoc)
  show ?thesis
  proof (cases "?find s")
    case (Done dev t)
    then have "t = s"
      using statelessD [OF find, of s] by simp
    moreover have "starts (outcome_state (seqp (thread_loop notify dev rs) (modp (\<lambda>s. s\<lparr>pppd_thread := False\<rparr>)) s)) =
        starts (outcome_state (thread_loop notify dev rs s))"
      by (cases "thread_loop notify dev rs s") (simp_all add: outcome_simps starts_def)
    ultimately show ?thesis
      using Done thread_loop_starts [OF assms, of dev] patience_bounded [OF assms(2)]
      by (simp add: run bindp_apply)
  qed (use statelessD [OF find, of s] in \<open>simp_all add: run bindp_apply\<close>)
qed

end

end
