(* ===== verification/RilDaemon.thy ===== *)
theory RilDaemon
  imports RilMain Pppd
begin

section \<open>The RIL as the listener of its PPP daemon\<close>

text \<open>
  \<open>pppd.c\<close> calls \<open>notifyDataCallProcessExit\<close> of \<open>reference-ril.c\<close> whenever the daemon has
  exited.  The RIL gives up at once when the data call had been set up, and after the fourth
  failure while it is being set up.  What it relies on is that the count of the failures is not
  negative; a request to set up a data call, which may run while the thread still does, sets the
  count to 0.
\<close>

definition counting :: "ril \<Rightarrow> bool" where
  "counting s \<longleftrightarrow> 0 \<le> nSetupDataCallFailTimes s"

definition failures_left :: "ril \<Rightarrow> nat" where
  "failures_left s = nat (3 - nSetupDataCallFailTimes s)"

interpretation ril_daemon: exit_listener notifyDataCallProcessExit counting failures_left 3
proof unfold_locales
  fix s :: ril
  assume "counting s"
  then show "\<exists>x t. notifyDataCallProcessExit s = Done x t \<and> counting t \<and>
      (x \<noteq> 0 \<or> failures_left t < failures_left s)"
    by (cases "bSetupDataCallCompelete s")
      (auto simp: notifyDataCallProcessExit_def RIL_requestTimedCallback_def act_def outcome_simps
        counting_def failures_left_def)
qed (simp add: counting_def failures_left_def nat_le_iff)

end
