(* ===== verification/AtReader.thy ===== *)
theory AtReader
  imports AtChannel
begin

section \<open>atchannel.c: the line buffer of the reader thread\<close>

text \<open>
  \<open>readline\<close> cuts the byte stream of the modem into lines.  The static buffer of
  \<open>MAX_AT_RESPONSE + 1\<close> bytes is a list, \<open>s_ATBufferCur\<close>, \<open>p_read\<close> and \<open>p_eol\<close> are indices
  into it; walking off its end is the fault \<open>OutOfBounds\<close>.  The results that \<open>read()\<close>
  will have are the list \<open>input\<close>: a \<open>Got s\<close> longer than the space asked for is read in
  parts.  A \<open>read()\<close> with nothing left to deliver waits for ever.
\<close>

datatype rd = Got string | Interrupted | End_of_file | Read_error

record reader =
  s_ATBuffer :: string
  s_ATBufferCur :: nat
  s_readCount :: int
  input :: "rd list"

definition is_newline :: "char \<Rightarrow> bool" where
  "is_newline c \<longleftrightarrow> c = CHR 0x0D \<or> c = CHR 0x0A"

subsection \<open>The code\<close>

text \<open>
  Both loops over the buffer, on the part of it from the pointer on; \<open>None\<close>: the loop leaves
  the buffer.  \<open>find_newline\<close> yields \<open>Some None\<close> at the terminating NUL.
\<close>

fun skip_newlines :: "string \<Rightarrow> nat option" where
  "skip_newlines [] = None"
| "skip_newlines (c # cs) = (if is_newline c then map_option Suc (skip_newlines cs) else Some 0)"

fun find_newline :: "string \<Rightarrow> nat option option" where
  "find_newline [] = None"
| "find_newline (c # cs) =
     (if c = NUL then Some None
      else if is_newline c then Some (Some 0)
      else map_option (map_option Suc) (find_newline cs))"

definition at_prompt :: "string \<Rightarrow> bool" where
  "at_prompt cur \<longleftrightarrow> take 3 cur = [CHR ''>'', CHR '' '', NUL]"

definition findNextEOL :: "string \<Rightarrow> nat option option" where
  "findNextEOL cur = (if at_prompt cur then Some (Some 2) else find_newline cur)"

text \<open>Skip leading newlines, then look for the end of the line.\<close>

definition seek_line :: "(reader, nat option) prog" where
  "seek_line = bindp (getp (\<lambda>r. drop (s_ATBufferCur r) (s_ATBuffer r))) (\<lambda>cur.
     case skip_newlines cur of
       None \<Rightarrow> failp OutOfBounds
     | Some k \<Rightarrow> seqp (modp (\<lambda>r. r\<lparr>s_ATBufferCur := s_ATBufferCur r + k\<rparr>))
         (case findNextEOL (drop k cur) of
            None \<Rightarrow> failp OutOfBounds
          | Some e \<Rightarrow> bindp (getp s_ATBufferCur) (\<lambda>i. ret (map_option ((+) i) e))))"

text \<open>Before the loop: \<open>p_read\<close> and \<open>p_eol\<close>.  The former is not used when the latter is found.\<close>

definition move_up :: "(reader, nat) prog" where
  "move_up = bindp (getp (\<lambda>r. length (c_string (drop (s_ATBufferCur r) (s_ATBuffer r))))) (\<lambda>len.
     seqp (modp (\<lambda>r. r\<lparr>s_ATBuffer := take (len + 1) (drop (s_ATBufferCur r) (s_ATBuffer r)) @
         drop (len + 1) (s_ATBuffer r), s_ATBufferCur := 0\<rparr>))
     (ret len))"

definition empty_buffer :: "(reader, unit) prog" where
  "empty_buffer = modp (\<lambda>r. r\<lparr>s_ATBufferCur := 0, s_ATBuffer := (s_ATBuffer r)[0 := NUL]\<rparr>)"

definition start_line :: "(reader, nat \<times> nat option) prog" where
  "start_line = bindp (getp id) (\<lambda>r.
     if length (s_ATBuffer r) \<le> s_ATBufferCur r then failp OutOfBounds
     else if s_ATBuffer r ! s_ATBufferCur r = NUL then seqp empty_buffer (ret (0, None))
     else bindp seek_line (\<lambda>p_eol. case p_eol of
         Some i \<Rightarrow> ret (0, Some i)
       | None \<Rightarrow> bindp move_up (\<lambda>p_read. ret (p_read, None))))"

text \<open>What \<open>read()\<close> stored at \<open>p_read\<close>, with the NUL that is put behind it.\<close>

definition store :: "nat \<Rightarrow> string \<Rightarrow> (reader, unit) prog" where
  "store p_read s = bindp (getp (\<lambda>r. length (s_ATBuffer r))) (\<lambda>n.
     if n \<le> p_read + length s then failp OutOfBounds
     else modp (\<lambda>r. r\<lparr>s_ATBuffer := take p_read (s_ATBuffer r) @ s @ NUL #
         drop (p_read + length s + 1) (s_ATBuffer r), s_readCount := s_readCount r + int (length s)\<rparr>))"

definition left_over :: "nat \<Rightarrow> string \<Rightarrow> rd list \<Rightarrow> rd list" where
  "left_over n s es = (if length s \<le> n then es else Got (drop n s) # es)"

definition rd_size :: "rd \<Rightarrow> nat" where
  "rd_size e = (case e of Got s \<Rightarrow> Suc (length s) | _ \<Rightarrow> 1)"

lemma dropWhile_size: "sum_list (map rd_size (dropWhile P es)) \<le> sum_list (map rd_size es)"
  by (induction es) auto

text \<open>
  The loop \<open>while (p_eol == NULL)\<close>; \<open>dropWhile\<close> is the inner loop over \<open>EINTR\<close>.  The result
  is \<open>p_eol\<close>, or \<open>None\<close> for \<open>return NULL\<close>, and what is still to be read.
\<close>

function fill_line :: "rd list \<Rightarrow> nat \<Rightarrow> (reader, nat option \<times> rd list) prog" where
  "fill_line es p_read =
     (let full = (MAX_AT_RESPONSE - p_read = 0);
          p = (if full then 0 else p_read);
          space = MAX_AT_RESPONSE - p
      in seqp (if full then empty_buffer else ret ())
       (case dropWhile (\<lambda>e. e = Interrupted) es of
          [] \<Rightarrow> (\<lambda>r. Blocked r)
        | Got s # es' \<Rightarrow>
            (if s = [] then ret (None, es')
             else seqp (store p (take space s)) (bindp seek_line (\<lambda>p_eol. case p_eol of
                 Some i \<Rightarrow> ret (Some i, left_over space s es')
               | None \<Rightarrow> fill_line (left_over space s es') (p + length (take space s)))))
        | _ # es' \<Rightarrow> ret (None, es')))"
  by pat_completeness auto

termination
proof (relation "measure (\<lambda>(es, p). sum_list (map rd_size es))", goal_cases)
  case (2 es p_read full p space e es' s)
  then have "sum_list (map rd_size (left_over space s es')) < sum_list (map rd_size (Got s # es'))"
    by (cases s) (auto simp: left_over_def rd_size_def MAX_AT_RESPONSE_def split: if_splits)
  moreover have "sum_list (map rd_size (Got s # es')) \<le> sum_list (map rd_size es)"
    using 2 dropWhile_size [of "\<lambda>e. e = Interrupted" es] by simp
  ultimately show ?case by simp
qed simp

declare fill_line.simps [simp del]

definition take_line :: "nat \<Rightarrow> (reader, string) prog" where
  "take_line p_eol = bindp (getp id) (\<lambda>r.
     if length (s_ATBuffer r) \<le> p_eol then failp OutOfBounds
     else let b = (s_ATBuffer r)[p_eol := NUL]
       in seqp (modp (\<lambda>r. r\<lparr>s_ATBuffer := b, s_ATBufferCur := p_eol + 1\<rparr>))
         (ret (c_string (drop (s_ATBufferCur r) b))))"

definition readline :: "(reader, string option) prog" where
  "readline = bindp start_line (\<lambda>(p_read, p_eol).
     bindp (case p_eol of
         Some i \<Rightarrow> ret p_eol
       | None \<Rightarrow> bindp (getp input) (\<lambda>es. bindp (fill_line es p_read) (\<lambda>(e, es').
           seqp (modp (\<lambda>r. r\<lparr>input := es'\<rparr>)) (ret e))))
       (\<lambda>e. case e of None \<Rightarrow> ret None | Some i \<Rightarrow> bindp (take_line i) (\<lambda>l. ret (Some l))))"

text \<open>The lines of \<open>n\<close> successive calls; \<open>readerLoop\<close> stops at the first NULL.\<close>

fun read_lines :: "nat \<Rightarrow> (reader, string list) prog" where
  "read_lines 0 = ret []"
| "read_lines (Suc n) = bindp readline (\<lambda>l. case l of
     None \<Rightarrow> ret []
   | Some l \<Rightarrow> bindp (read_lines n) (\<lambda>ls. ret (l # ls)))"

definition initial_reader :: "rd list \<Rightarrow> reader" where
  "initial_reader es =
     \<lparr>s_ATBuffer = replicate (MAX_AT_RESPONSE + 1) NUL, s_ATBufferCur = 0, s_readCount = 0, input = es\<rparr>"


subsection \<open>The buffer is never left\<close>

definition buffer_ok :: "reader \<Rightarrow> bool" where
  "buffer_ok r \<longleftrightarrow> length (s_ATBuffer r) = Suc MAX_AT_RESPONSE \<and> s_ATBuffer r ! MAX_AT_RESPONSE = NUL"

definition reader_ok :: "reader \<Rightarrow> bool" where
  "reader_ok r \<longleftrightarrow> buffer_ok r \<and> s_ATBufferCur r \<le> MAX_AT_RESPONSE"

lemma reader_ok_NUL:
  assumes "reader_ok r"
  shows "NUL \<in> set (drop (s_ATBufferCur r) (s_ATBuffer r))"
proof -
  have "drop (s_ATBufferCur r) (s_ATBuffer r) ! (MAX_AT_RESPONSE - s_ATBufferCur r) = NUL"
    and "MAX_AT_RESPONSE - s_ATBufferCur r < length (drop (s_ATBufferCur r) (s_ATBuffer r))"
    using assms by (auto simp: reader_ok_def buffer_ok_def)
  then show ?thesis
    by (metis nth_mem)
qed

lemma skip_newlines_NUL:
  "NUL \<in> set xs \<Longrightarrow> \<exists>k. skip_newlines xs = Some k \<and> k < length xs \<and> NUL \<in> set (drop k xs)"
proof (induction xs)
  case (Cons c cs)
  then show ?case
    by (cases "is_newline c") (auto simp: is_newline_def)
qed simp

lemma find_newline_append:
  "NUL \<notin> set q \<Longrightarrow> find_newline (q @ NUL # zs) =
     Some (if \<exists>c \<in> set q. is_newline c then Some (length (takeWhile (\<lambda>c. \<not> is_newline c) q)) else None)"
  by (induction q) auto

lemma findNextEOL_view:
  assumes "NUL \<notin> set q"
  shows "findNextEOL (q @ NUL # zs) = Some (if q = ''> '' then Some 2
    else if \<exists>c \<in> set q. is_newline c then Some (length (takeWhile (\<lambda>c. \<not> is_newline c) q)) else None)"
proof -
  have "take 3 q \<noteq> [CHR ''>'', CHR '' '', NUL]"
    using assms by (metis in_set_takeD list.set_intros)
  then have "at_prompt (q @ NUL # zs) \<longleftrightarrow> q = ''> ''"
    using assms by (auto simp: at_prompt_def take_Cons' neq_Nil_conv Cons_eq_append_conv append_eq_Cons_conv
        split: if_splits)
  then show ?thesis
    by (simp add: findNextEOL_def find_newline_append [OF assms])
qed

lemma seek_line_ok:
  assumes "reader_ok r"
  shows "safe B seek_line r (\<lambda>e t. reader_ok t \<and> s_ATBuffer t = s_ATBuffer r \<and> input t = input r \<and>
    (case e of None \<Rightarrow> True | Some i \<Rightarrow> i < MAX_AT_RESPONSE \<or>
       i = s_ATBufferCur t + 2 \<and> i \<le> MAX_AT_RESPONSE \<and> take 2 (drop (s_ATBufferCur t) (s_ATBuffer t)) = ''> ''))"
proof -
  let ?xs = "drop (s_ATBufferCur r) (s_ATBuffer r)"
  obtain k where k: "skip_newlines ?xs = Some k" "k < length ?xs" "NUL \<in> set (drop k ?xs)"
    using skip_newlines_NUL [OF reader_ok_NUL [OF assms]] by blast
  obtain zs where zs: "drop k ?xs = c_string (drop k ?xs) @ NUL # zs" (is "_ = ?q @ _")
    using c_string_split [OF k(3)] by blast
  have q: "NUL \<notin> set ?q"
    by (auto simp: c_string_def dest: set_takeWhileD)
  have len: "s_ATBufferCur r + k + length ?q \<le> MAX_AT_RESPONSE"
    using arg_cong [OF zs, of length] k(2) assms by (auto simp: reader_ok_def buffer_ok_def)
  have tw: "length (takeWhile (\<lambda>c. \<not> is_newline c) ?q) < length ?q" if "c \<in> set ?q" "is_newline c" for c
    using that by (metis length_takeWhile_le nat_less_le takeWhile_eq_all_conv takeWhile_eq_take take_all_iff le_refl)
  have find: "findNextEOL (drop k ?xs) = Some (if ?q = ''> '' then Some 2
    else if \<exists>c \<in> set ?q. is_newline c then Some (length (takeWhile (\<lambda>c. \<not> is_newline c) ?q)) else None)"
    using findNextEOL_view [OF q, of zs] zs by metis
  have two: "take 2 (drop k ?xs) = ''> ''" if "?q = ''> ''"
    using zs that by (simp add: numeral_2_eq_2)
  have base: "reader_ok (r\<lparr>s_ATBufferCur := s_ATBufferCur r + k\<rparr>)"
    using assms k(2) by (auto simp: reader_ok_def buffer_ok_def)
  show ?thesis
    using base len tw find k(1) two
    by (fastforce simp: seek_line_def drop_drop add.commute)
qed


lemma empty_buffer_ok:
  "buffer_ok r \<Longrightarrow> reader_ok (r\<lparr>s_ATBufferCur := 0, s_ATBuffer := (s_ATBuffer r)[0 := NUL]\<rparr>)"
  by (simp add: reader_ok_def buffer_ok_def nth_list_update)

lemma move_up_ok:
  assumes "reader_ok r"
  shows "safe B move_up r (\<lambda>p t. reader_ok t \<and> input t = input r \<and> p \<le> MAX_AT_RESPONSE)"
proof -
  let ?xs = "drop (s_ATBufferCur r) (s_ATBuffer r)"
  obtain zs where zs: "?xs = c_string ?xs @ NUL # zs"
    using c_string_split [OF reader_ok_NUL [OF assms]] by blast
  have "length (c_string ?xs) + s_ATBufferCur r \<le> MAX_AT_RESPONSE"
    using arg_cong [OF zs, of length] assms by (auto simp: reader_ok_def buffer_ok_def)
  moreover have "length (c_string ?xs) = MAX_AT_RESPONSE \<Longrightarrow> ?xs ! MAX_AT_RESPONSE = NUL"
    using zs by (metis nth_append_length)
  ultimately show ?thesis
    using assms by (auto simp: move_up_def reader_ok_def buffer_ok_def nth_append)
qed

lemma store_ok:
  assumes "reader_ok r" and "p + length s \<le> MAX_AT_RESPONSE"
  shows "safe B (store p s) r (\<lambda>_ t. reader_ok t \<and> input t = input r)"
  using assms by (auto simp: store_def reader_ok_def buffer_ok_def nth_append nth_Cons')

text \<open>An end of line that was found, in the state \<open>t\<close>.\<close>

definition eol_ok :: "nat option \<Rightarrow> reader \<Rightarrow> bool" where
  "eol_ok e t \<longleftrightarrow> reader_ok t \<and> (case e of None \<Rightarrow> True | Some i \<Rightarrow> i < MAX_AT_RESPONSE \<or>
     i = s_ATBufferCur t + 2 \<and> i \<le> MAX_AT_RESPONSE \<and> take 2 (drop (s_ATBufferCur t) (s_ATBuffer t)) = ''> '')"

lemma fill_line_ok:
  assumes "reader_ok r" and "p_read \<le> MAX_AT_RESPONSE"
  shows "safe True (fill_line es p_read) r (\<lambda>(e, _). eol_ok e)"
  using assms
proof (induction es p_read arbitrary: r rule: fill_line.induct)
  case (1 es p_read)
  let ?full = "MAX_AT_RESPONSE - p_read = 0"
  let ?p = "if ?full then 0 else p_read"
  have start: "safe True (if ?full then empty_buffer else ret ()) r (\<lambda>_ t. reader_ok t)"
    using 1(2) empty_buffer_ok [of r] by (simp add: empty_buffer_def reader_ok_def)
  have p: "?p + length (take (MAX_AT_RESPONSE - ?p) s) \<le> MAX_AT_RESPONSE" for s :: string
    using 1(3) by auto
  show ?case
    unfolding fill_line.simps [of es p_read] Let_def
  proof (rule safe_seq [OF start])
    fix x t
    assume t: "reader_ok t"
    consider "dropWhile (\<lambda>e. e = Interrupted) es = []"
      | e es' where "dropWhile (\<lambda>e. e = Interrupted) es = e # es'" "\<nexists>s. e = Got s \<and> s \<noteq> []"
      | s es' where "dropWhile (\<lambda>e. e = Interrupted) es = Got s # es'" "s \<noteq> []"
      by (cases "dropWhile (\<lambda>e. e = Interrupted) es") blast+
    then show "safe True (case dropWhile (\<lambda>e. e = Interrupted) es of
          [] \<Rightarrow> (\<lambda>r. Blocked r)
        | Got s # es' \<Rightarrow>
            (if s = [] then ret (None, es')
             else seqp (store ?p (take (MAX_AT_RESPONSE - ?p) s)) (bindp seek_line (\<lambda>p_eol. case p_eol of
                 Some i \<Rightarrow> ret (Some i, left_over (MAX_AT_RESPONSE - ?p) s es')
               | None \<Rightarrow> fill_line (left_over (MAX_AT_RESPONSE - ?p) s es')
                   (?p + length (take (MAX_AT_RESPONSE - ?p) s)))))
        | _ # es' \<Rightarrow> ret (None, es')) t (\<lambda>(e, _). eol_ok e)"
    proof cases
      case 1
      show ?thesis by (simp only: 1 list.case safe_def outcome.case)
    next
      case 2
      then show ?thesis using t by (auto simp: eol_ok_def split: rd.split)
    next
      case 3
      have IH: "safe True (fill_line (left_over (MAX_AT_RESPONSE - ?p) s es')
          (?p + length (take (MAX_AT_RESPONSE - ?p) s))) u (\<lambda>(e, _). eol_ok e)" if "reader_ok u" for u
        using "1.IH" [OF refl refl refl 3(1) refl 3(2) that p] .
      have "safe True (seqp (store ?p (take (MAX_AT_RESPONSE - ?p) s)) (bindp seek_line (\<lambda>p_eol. case p_eol of
          Some i \<Rightarrow> ret (Some i, left_over (MAX_AT_RESPONSE - ?p) s es')
        | None \<Rightarrow> fill_line (left_over (MAX_AT_RESPONSE - ?p) s es')
            (?p + length (take (MAX_AT_RESPONSE - ?p) s))))) t (\<lambda>(e, _). eol_ok e)"
      proof (rule safe_seq [OF store_ok [OF t p]], elim conjE)
        fix u
        assume "reader_ok u"
        then show "safe True (bindp seek_line (\<lambda>p_eol. case p_eol of
            Some i \<Rightarrow> ret (Some i, left_over (MAX_AT_RESPONSE - ?p) s es')
          | None \<Rightarrow> fill_line (left_over (MAX_AT_RESPONSE - ?p) s es')
              (?p + length (take (MAX_AT_RESPONSE - ?p) s)))) u (\<lambda>(e, _). eol_ok e)"
          by (rule safe_bind [OF seek_line_ok]) (use IH in \<open>auto simp: eol_ok_def split: option.split\<close>)
      qed
      then show ?thesis by (simp only: 3 list.case rd.case if_False)
    qed
  qed
qed

lemma start_line_ok:
  assumes "reader_ok r"
  shows "safe B start_line r (\<lambda>(p, e) t. p \<le> MAX_AT_RESPONSE \<and> eol_ok e t)"
proof -
  have "safe B (bindp seek_line (\<lambda>p_eol. case p_eol of
         Some i \<Rightarrow> ret (0, Some i)
       | None \<Rightarrow> bindp move_up (\<lambda>p_read. ret (p_read, None)))) r (\<lambda>(p, e) t. p \<le> MAX_AT_RESPONSE \<and> eol_ok e t)"
    by (rule safe_bind [OF seek_line_ok [OF assms]])
      (auto simp: eol_ok_def split: option.split intro!: safe_bind [OF move_up_ok])
  then show ?thesis
    using assms empty_buffer_ok [of r]
    by (auto simp: start_line_def empty_buffer_def eol_ok_def reader_ok_def buffer_ok_def)
qed

lemma take_line_ok:
  assumes "eol_ok (Some i) r"
  shows "safe B (take_line i) r (\<lambda>l t. buffer_ok t \<and> s_ATBufferCur t = i + 1 \<and>
    (i < MAX_AT_RESPONSE \<or> l = ''> ''))"
proof -
  have l: "c_string (drop (s_ATBufferCur r) ((s_ATBuffer r)[i := NUL])) = ''> ''"
    if "i = s_ATBufferCur r + 2" "i \<le> MAX_AT_RESPONSE" "take 2 (drop (s_ATBufferCur r) (s_ATBuffer r)) = ''> ''"
  proof -
    let ?ys = "drop (s_ATBufferCur r) (s_ATBuffer r)"
    have "2 < length ?ys"
      using that assms by (simp add: eol_ok_def reader_ok_def buffer_ok_def)
    then have "?ys[2 := NUL] = take 2 ?ys @ NUL # drop (Suc 2) ?ys"
      by (rule upd_conv_take_nth_drop)
    moreover have "drop (s_ATBufferCur r) ((s_ATBuffer r)[i := NUL]) = ?ys[2 := NUL]"
      using that by (simp add: drop_update_swap)
    ultimately show ?thesis using that by (simp add: c_string_def)
  qed
  show ?thesis
    using assms l
    by (auto simp: take_line_def Let_def eol_ok_def reader_ok_def buffer_ok_def nth_list_update)
qed

lemma readline_ok:
  assumes "reader_ok r"
  shows "safe True readline r (\<lambda>x t. buffer_ok t \<and> (reader_ok t \<or> x = Some ''> ''))"
  unfolding readline_def
proof (rule safe_bind [OF start_line_ok [OF assms]], clarify)
  fix p e t
  assume t: "p \<le> MAX_AT_RESPONSE" "eol_ok e t"
  have "safe True (case e of
         Some i \<Rightarrow> ret e
       | None \<Rightarrow> bindp (getp input) (\<lambda>es. bindp (fill_line es p) (\<lambda>(e, es').
           seqp (modp (\<lambda>r. r\<lparr>input := es'\<rparr>)) (ret e)))) t eol_ok"
  proof (cases e)
    case None
    then show ?thesis
      using t fill_line_ok [of t p]
      by (auto simp: eol_ok_def reader_ok_def buffer_ok_def intro!: safe_bind [OF fill_line_ok] split: option.split)
  qed (use t in simp)
  then show "safe True (bindp (case e of
         Some i \<Rightarrow> ret e
       | None \<Rightarrow> bindp (getp input) (\<lambda>es. bindp (fill_line es p) (\<lambda>(e, es').
           seqp (modp (\<lambda>r. r\<lparr>input := es'\<rparr>)) (ret e))))
       (\<lambda>e. case e of None \<Rightarrow> ret None | Some i \<Rightarrow> bindp (take_line i) (\<lambda>l. ret (Some l)))) t
     (\<lambda>x t. buffer_ok t \<and> (reader_ok t \<or> x = Some ''> ''))"
    by (rule safe_bind)
      (auto simp: eol_ok_def reader_ok_def split: option.split intro!: safe_bind [OF take_line_ok])
qed


text \<open>
  Any number of lines: the buffer is not left before the call that follows a prompt, and the
  cursor stays within it but for that of a prompt that was the last.
\<close>

lemma read_lines_ok:
  assumes "reader_ok r"
    and "\<And>k ls t. k < n \<Longrightarrow> read_lines k r = Done ls t \<Longrightarrow> ''> '' \<notin> set ls"
  shows "safe True (read_lines n) r (\<lambda>ls t. buffer_ok t \<and> (reader_ok t \<or> ls \<noteq> [] \<and> last ls = ''> ''))"
  using assms
proof (induction n arbitrary: r)
  case 0
  then show ?case by (simp add: reader_ok_def)
next
  case (Suc n)
  note line = readline_ok [OF Suc.prems(1)]
  show ?case
  proof (cases "readline r")
    case (Done x t)
    then have t: "buffer_ok t" "reader_ok t \<or> x = Some ''> ''"
      using line by (simp_all add: safe_def)
    show ?thesis
    proof (cases x)
      case None
      then show ?thesis using Done t by (simp add: safe_def outcome_simps)
    next
      case (Some l)
      have run: "read_lines (Suc k) r = bindp (read_lines k) (\<lambda>ls. ret (l # ls)) t" for k
        using Done Some by (simp add: outcome_simps)
      show ?thesis
      proof (cases n)
        case 0
        then show ?thesis using t Some run [of 0] by (simp add: safe_def outcome_simps)
      next
        case m: (Suc m)
        have "read_lines 1 r = Done [l] t"
          using run [of 0] by (simp add: outcome_simps)
        then have "l \<noteq> ''> ''"
          using Suc.prems(2) [of 1 "[l]" t] m by auto
        then have ok: "reader_ok t" using t(2) Some by simp
        have "safe True (read_lines n) t (\<lambda>ls t. buffer_ok t \<and> (reader_ok t \<or> ls \<noteq> [] \<and> last ls = ''> ''))"
        proof (rule Suc.IH [OF ok])
          fix k ls u
          assume "k < n" "read_lines k t = Done ls u"
          then show "''> '' \<notin> set ls"
            using Suc.prems(2) [of "Suc k" "l # ls" u] run [of k] by (simp add: outcome_simps)
        qed
        then show ?thesis
          unfolding safe_def run by (cases "read_lines n t") (auto simp: outcome_simps)
      qed
    qed
  qed (use line in \<open>simp_all add: safe_def outcome_simps\<close>)
qed

subsection \<open>Framing\<close>

text \<open>
  The bytes that arrive before the stream ends, and the bytes the caller of \<open>readline\<close> has
  not seen yet: the rest of the buffer, then what is still to be read.
\<close>

fun received :: "rd list \<Rightarrow> string" where
  "received [] = []"
| "received (Got s # es) = (if s = [] then [] else s @ received es)"
| "received (Interrupted # es) = received es"
| "received (End_of_file # es) = []"
| "received (Read_error # es) = []"

definition unread :: "reader \<Rightarrow> string" where
  "unread r = c_string (drop (s_ATBufferCur r) (s_ATBuffer r)) @ received (input r)"

text \<open>A line that \<open>readline\<close> can deliver: it is not empty, and does not start like a prompt.\<close>

definition line_ok :: "string \<Rightarrow> bool" where
  "line_ok l \<longleftrightarrow> l \<noteq> [] \<and> (\<forall>c \<in> set l. \<not> is_newline c) \<and> NUL \<notin> set l \<and> \<not> prefix ''> '' l"

lemma newline_NUL [simp]: "\<not> is_newline NUL"
  by (simp add: is_newline_def)

lemma skip_newlines_append:
  "\<forall>n \<in> set ns. is_newline n \<Longrightarrow> \<not> is_newline c \<Longrightarrow> skip_newlines (ns @ c # xs) = Some (length ns)"
  by (induction ns) auto

lemma seek_line_found:
  assumes "drop (s_ATBufferCur r) (s_ATBuffer r) = ns @ l @ c # m @ NUL # zs"
    and "\<forall>n \<in> set ns. is_newline n" and "line_ok l" and "is_newline c" and "NUL \<notin> set m"
  shows "seek_line r = Done (Some (s_ATBufferCur r + length ns + length l))
    (r\<lparr>s_ATBufferCur := s_ATBufferCur r + length ns\<rparr>)"
proof -
  obtain x xs where x: "l = x # xs" "\<not> is_newline x"
    using assms(3) by (cases l) (auto simp: line_ok_def)
  have "skip_newlines (ns @ l @ c # m @ NUL # zs) = Some (length ns)"
    using skip_newlines_append [OF assms(2) x(2)] x(1) by simp
  moreover have "findNextEOL (l @ c # m @ NUL # zs) = Some (Some (length l))"
  proof -
    have no: "NUL \<notin> set (l @ c # m)" "l @ c # m \<noteq> ''> ''"
      using assms(3-5) by (auto simp: line_ok_def is_newline_def Cons_eq_append_conv append_eq_Cons_conv)
    have "takeWhile (\<lambda>c. \<not> is_newline c) (l @ c # m) = l"
      using assms(3,4) by (simp add: line_ok_def takeWhile_tail)
    then show ?thesis
      using findNextEOL_view [OF no(1), of zs] no(2) assms(4) by auto
  qed
  ultimately show ?thesis
    by (simp add: seek_line_def assms(1) outcome_simps)
qed

lemma seek_line_partial:
  assumes "drop (s_ATBufferCur r) (s_ATBuffer r) = ns @ q @ NUL # zs"
    and "\<forall>n \<in> set ns. is_newline n" and "\<forall>c \<in> set q. \<not> is_newline c" and "NUL \<notin> set q" and "q \<noteq> ''> ''"
  shows "seek_line r = Done None (r\<lparr>s_ATBufferCur := s_ATBufferCur r + length ns\<rparr>)"
proof -
  have "skip_newlines (ns @ q @ NUL # zs) = Some (length ns)"
    using skip_newlines_append [OF assms(2), of "hd (q @ [NUL])" "tl (q @ NUL # zs)"] assms(3)
    by (cases q) auto
  moreover have "findNextEOL (q @ NUL # zs) = Some None"
    using findNextEOL_view [OF assms(4), of zs] assms(3,5) by auto
  ultimately show ?thesis
    by (simp add: seek_line_def assms(1) outcome_simps)
qed

lemma store_run:
  assumes "buffer_ok r" and "drop (s_ATBufferCur r) (s_ATBuffer r) = q @ NUL # zs"
    and "p = s_ATBufferCur r + length q" and "p + length s \<le> MAX_AT_RESPONSE"
  shows "\<exists>t zs'. store p s r = Done () t \<and> buffer_ok t \<and> input t = input r \<and> s_ATBufferCur t = s_ATBufferCur r \<and>
    drop (s_ATBufferCur t) (s_ATBuffer t) = (q @ s) @ NUL # zs'"
proof -
  have ok: "p + length s < length (s_ATBuffer r)"
    using assms by (simp add: buffer_ok_def)
  have "drop (s_ATBufferCur r) (take p (s_ATBuffer r)) = take (length q) (drop (s_ATBufferCur r) (s_ATBuffer r))"
    by (simp add: drop_take assms(3))
  then have q: "drop (s_ATBufferCur r) (take p (s_ATBuffer r)) = q"
    by (simp add: assms(2))
  let ?b = "take p (s_ATBuffer r) @ s @ NUL # drop (p + length s + 1) (s_ATBuffer r)"
  have "buffer_ok (r\<lparr>s_ATBuffer := ?b\<rparr>)"
    using assms by (auto simp: buffer_ok_def nth_append nth_Cons')
  moreover have "drop (s_ATBufferCur r) ?b = (q @ s) @ NUL # drop (p + length s + 1) (s_ATBuffer r)"
    using q ok assms(3) by simp
  ultimately show ?thesis
    using ok by (simp add: store_def outcome_simps buffer_ok_def)
qed

lemma received_next:
  assumes "received es \<noteq> []"
  obtains s es' where "dropWhile (\<lambda>e. e = Interrupted) es = Got s # es'" and "s \<noteq> []"
    and "received es = s @ received es'"
  using assms
  by (induction es arbitrary: thesis rule: received.induct) (auto split: if_splits)

lemma received_left_over:
  "0 < n \<Longrightarrow> s \<noteq> [] \<Longrightarrow> take n s @ received (left_over n s es) = s @ received es"
  by (auto simp: left_over_def)


text \<open>
  The text that is there, as part of newlines and a line: either it holds the whole line, or it
  stops within it.
\<close>

lemma framed_split:
  assumes "d @ e = ns @ l @ c # rest"
  obtains (all) m where "d = ns @ l @ c # m" and "rest = m @ e"
    | (part) ns1 ns2 q where "d = ns1 @ q" and "ns = ns1 @ ns2" and "q @ e = ns2 @ l @ c # rest"
        and "prefix q l" and "q \<noteq> [] \<longrightarrow> ns2 = []"
proof (cases "length d \<le> length ns + length l")
  case True
  let ?ns1 = "take (length d) ns" and ?ns2 = "drop (length d) ns" and ?q = "take (length d - length ns) l"
  have "d = take (length d) (ns @ l @ c # rest)"
    using assms by (metis append_eq_conv_conj)
  then have d: "d = ?ns1 @ ?q"
    using True by simp
  have "?ns1 @ ?q @ e = ?ns1 @ ?ns2 @ l @ c # rest"
    using assms d by (metis append.assoc append_take_drop_id)
  then have "?q @ e = ?ns2 @ l @ c # rest"
    by (simp only: same_append_eq)
  moreover have "prefix ?q l" and "?q \<noteq> [] \<longrightarrow> ?ns2 = []"
    by (simp_all add: take_is_prefix)
  ultimately show ?thesis
    using part [OF d append_take_drop_id [symmetric]] by blast
next
  case False
  then obtain k where k: "length d = length ns + length l + Suc k"
    by (metis add_Suc_right less_imp_Suc_add not_le)
  have "d = take (length d) (ns @ l @ c # rest)"
    using assms by (metis append_eq_conv_conj)
  then have d: "d = ns @ l @ c # take k rest"
    by (simp add: k)
  then have "rest = take k rest @ e"
    using assms by (metis append.assoc append_Cons same_append_eq list.inject)
  with d show ?thesis by (rule all)
qed

lemma drop_view:
  assumes "drop i xs = ys @ zs"
  shows "drop (i + length ys) xs = zs"
proof -
  have "drop (i + length ys) xs = drop (length ys) (drop i xs)"
    by (simp add: add.commute)
  then show ?thesis by (simp add: assms)
qed

lemma fill_line_frames:
  assumes "buffer_ok r" and "drop (s_ATBufferCur r) (s_ATBuffer r) = q @ NUL # zs"
    and "p = s_ATBufferCur r + length q" and "\<forall>c \<in> set q. \<not> is_newline c"
    and "q @ received es = ns @ l @ c # rest"
    and "\<forall>n \<in> set ns. is_newline n" and "line_ok l" and "is_newline c" and "NUL \<notin> set rest"
    and "s_ATBufferCur r + length ns + length l < MAX_AT_RESPONSE"
  shows "\<exists>t es' m zs'. fill_line es p r = Done (Some (s_ATBufferCur t + length l), es') t \<and> buffer_ok t \<and>
    drop (s_ATBufferCur t) (s_ATBuffer t) = l @ c # m @ NUL # zs' \<and> rest = m @ received es'"
  using assms
proof (induction es p arbitrary: r q zs ns rule: fill_line.induct)
  case (1 es p)
  note ok = 1(2) and view = 1(3) and p = 1(4) and no_eol = 1(5) and str = 1(6) and ns = 1(7) and l = 1(8)
    and c = 1(9) and rest = 1(10) and fits = 1(11)
  have short: "length q \<le> length ns + length l"
  proof (rule ccontr)
    assume "\<not> ?thesis"
    then have "q ! (length ns + length l) = c" and "length ns + length l < length q"
      using arg_cong [OF str, of "\<lambda>xs. xs ! (length ns + length l)"] by (simp_all add: nth_append)
    then show False using no_eol c by (metis nth_mem)
  qed
  then have space: "p < MAX_AT_RESPONSE"
    using p fits by simp
  have "received es \<noteq> []"
    using str short by (cases "received es") auto
  then obtain s es1 where es: "dropWhile (\<lambda>e. e = Interrupted) es = Got s # es1" "s \<noteq> []"
      "received es = s @ received es1"
    by (rule received_next)
  let ?n = "MAX_AT_RESPONSE - p"
  let ?t = "take ?n s" and ?es2 = "left_over ?n s es1"
  have rec: "?t @ received ?es2 = received es"
    using received_left_over [of ?n s es1] space es by simp
  have "p + length ?t \<le> MAX_AT_RESPONSE"
    using space by simp
  then obtain u zs' where u: "store p ?t r = Done () u" "buffer_ok u" "s_ATBufferCur u = s_ATBufferCur r"
      "drop (s_ATBufferCur u) (s_ATBuffer u) = (q @ ?t) @ NUL # zs'"
    using store_run [OF ok view p, of ?t] by blast
  have run: "fill_line es p r = bindp seek_line (\<lambda>p_eol. case p_eol of
      Some i \<Rightarrow> ret (Some i, ?es2) | None \<Rightarrow> fill_line ?es2 (p + length ?t)) u"
    using space es(2) u(1) by (subst fill_line.simps) (simp add: Let_def es(1) outcome_simps)
  have "(q @ ?t) @ received ?es2 = ns @ l @ c # rest"
    using str rec by simp
  then show ?case
  proof (cases rule: framed_split)
    case (all m)
    have "NUL \<notin> set m"
      using all(2) rest by simp
    then have "seek_line u = Done (Some (s_ATBufferCur u + length ns + length l))
        (u\<lparr>s_ATBufferCur := s_ATBufferCur u + length ns\<rparr>)"
      using seek_line_found [of u ns l c m zs'] ns l c u(4) all(1) by simp
    moreover have "drop (s_ATBufferCur u + length ns) (s_ATBuffer u) = l @ c # m @ NUL # zs'"
      using u(4) all(1) by (intro drop_view) simp
    ultimately have "fill_line es p r = Done (Some (s_ATBufferCur u + length ns + length l), ?es2)
        (u\<lparr>s_ATBufferCur := s_ATBufferCur u + length ns\<rparr>)"
      and "drop (s_ATBufferCur u + length ns) (s_ATBuffer u) = l @ c # m @ NUL # zs'"
      by (simp_all add: run outcome_simps)
    moreover have "buffer_ok (u\<lparr>s_ATBufferCur := s_ATBufferCur u + length ns\<rparr>)"
      using u(2) by (simp add: buffer_ok_def)
    ultimately show ?thesis
      using all(2) by (intro exI [of _ "u\<lparr>s_ATBufferCur := s_ATBufferCur u + length ns\<rparr>"] exI conjI) simp_all
  next
    case (part ns1 ns2 q1)
    let ?v = "u\<lparr>s_ATBufferCur := s_ATBufferCur u + length ns1\<rparr>"
    have q1: "\<forall>c \<in> set q1. \<not> is_newline c" "NUL \<notin> set q1" "q1 \<noteq> ''> ''"
      using part(4) l by (auto simp: line_ok_def dest: set_mono_prefix)
    have "seek_line u = Done None ?v"
      using seek_line_partial [of u ns1 q1 zs'] u(4) part(1,2) ns q1 by simp
    then have run': "fill_line es p r = fill_line ?es2 (p + length ?t) ?v"
      using run by (simp add: outcome_simps)
    have "drop (s_ATBufferCur ?v) (s_ATBuffer ?v) = q1 @ NUL # zs'"
      using u(4) part(1) by (simp add: drop_view)
    moreover have "p + length ?t = s_ATBufferCur ?v + length q1"
      using arg_cong [OF part(1), of length] p u(3) by simp
    moreover have "buffer_ok ?v" and "\<forall>n \<in> set ns2. is_newline n"
      using u(2) ns part(2) by (simp_all add: buffer_ok_def)
    moreover have "s_ATBufferCur ?v + length ns2 + length l < MAX_AT_RESPONSE"
      using fits u(3) part(2) by simp
    ultimately have "\<exists>t es' m zs'. fill_line ?es2 (p + length ?t) ?v =
        Done (Some (s_ATBufferCur t + length l), es') t \<and> buffer_ok t \<and>
        drop (s_ATBufferCur t) (s_ATBuffer t) = l @ c # m @ NUL # zs' \<and> rest = m @ received es'"
      using "1.IH" [OF refl refl refl es(1) refl es(2), of ?v q1 zs' ns2] part(3) q1(1) l c rest space
      by simp
    then show ?thesis
      unfolding run' .
  qed
qed


lemma take_line_run:
  assumes "buffer_ok t" and "drop (s_ATBufferCur t) (s_ATBuffer t) = l @ c # m @ NUL # zs" and "NUL \<notin> set l"
  shows "\<exists>u. take_line (s_ATBufferCur t + length l) t = Done l u \<and> reader_ok u \<and> input u = input t \<and>
    drop (s_ATBufferCur u) (s_ATBuffer u) = m @ NUL # zs"
proof -
  let ?i = "s_ATBufferCur t + length l"
  let ?b = "(s_ATBuffer t)[?i := NUL]"
  let ?u = "t\<lparr>s_ATBuffer := ?b, s_ATBufferCur := ?i + 1\<rparr>"
  have len: "length (s_ATBuffer t) - s_ATBufferCur t = length l + length m + length zs + 2"
    using arg_cong [OF assms(2), of length] by simp
  then have i: "?i < MAX_AT_RESPONSE"
    using assms(1) by (simp add: buffer_ok_def)
  have b: "drop (s_ATBufferCur t) ?b = (l @ [NUL]) @ m @ NUL # zs"
    using assms(2) by (simp add: drop_update_swap)
  have "take_line ?i t = Done l ?u"
    using i assms(1,3) b by (simp add: take_line_def outcome_simps Let_def buffer_ok_def)
  moreover have "reader_ok ?u"
    using i assms(1) by (simp add: reader_ok_def buffer_ok_def nth_list_update)
  moreover have "drop (s_ATBufferCur ?u) (s_ATBuffer ?u) = m @ NUL # zs"
    using drop_view [OF b] by simp
  ultimately show ?thesis by auto
qed

text \<open>After \<open>start_line\<close>: the line is found, or its beginning is at the start of the buffer.\<close>

lemma start_line_frames:
  assumes "reader_ok r" and "unread r = ns @ l @ c # rest"
    and "\<forall>n \<in> set ns. is_newline n" and "line_ok l" and "is_newline c" and "NUL \<notin> set rest"
  shows "\<exists>p e t. start_line r = Done (p, e) t \<and> buffer_ok t \<and> input t = input r \<and>
    (case e of
       Some i \<Rightarrow> i = s_ATBufferCur t + length l \<and> (\<exists>m zs.
         drop (s_ATBufferCur t) (s_ATBuffer t) = l @ c # m @ NUL # zs \<and> rest = m @ received (input r))
     | None \<Rightarrow> s_ATBufferCur t = 0 \<and> (\<exists>q zs ns'. s_ATBuffer t = q @ NUL # zs \<and> p = length q \<and>
         (\<forall>c \<in> set q. \<not> is_newline c) \<and> q @ received (input r) = ns' @ l @ c # rest \<and>
         (\<forall>n \<in> set ns'. is_newline n) \<and> length ns' \<le> length ns))"
proof -
  let ?xs = "drop (s_ATBufferCur r) (s_ATBuffer r)"
  obtain zs where zs: "?xs = c_string ?xs @ NUL # zs"
    using c_string_split [OF reader_ok_NUL [OF assms(1)]] by blast
  have cur: "s_ATBufferCur r < length (s_ATBuffer r)"
    using assms(1) by (simp add: reader_ok_def buffer_ok_def)
  have hd: "s_ATBuffer r ! s_ATBufferCur r = hd ?xs"
    using cur by (simp add: hd_drop_conv_nth)
  have pend: "c_string ?xs @ received (input r) = ns @ l @ c # rest"
    using assms(2) by (simp add: unread_def)
  show ?thesis
  proof (cases "c_string ?xs = []")
    case True
    then have "start_line r = Done (0, None) (r\<lparr>s_ATBufferCur := 0, s_ATBuffer := (s_ATBuffer r)[0 := NUL]\<rparr>)"
      using cur hd zs by (simp add: start_line_def empty_buffer_def outcome_simps)
    moreover have "(s_ATBuffer r)[0 := NUL] = [] @ NUL # tl (s_ATBuffer r)"
      using cur by (cases "s_ATBuffer r") auto
    moreover have "buffer_ok (r\<lparr>s_ATBufferCur := 0, s_ATBuffer := (s_ATBuffer r)[0 := NUL]\<rparr>)"
      using empty_buffer_ok [of r] assms(1) by (simp add: reader_ok_def)
    ultimately show ?thesis
      using pend True assms(3) by fastforce
  next
    case False
    then have "hd ?xs \<noteq> NUL"
      using zs by (cases ?xs) (auto simp: c_string_def)
    then have run: "start_line r = bindp seek_line (\<lambda>p_eol. case p_eol of
         Some i \<Rightarrow> ret (0, Some i) | None \<Rightarrow> bindp move_up (\<lambda>p_read. ret (p_read, None))) r"
      using cur hd by (simp add: start_line_def outcome_simps)
    from pend show ?thesis
    proof (cases rule: framed_split)
      case (all m)
      have view: "?xs = ns @ l @ c # m @ NUL # zs" and "NUL \<notin> set m"
        using zs all assms(6) by simp_all
      then have "seek_line r = Done (Some (s_ATBufferCur r + length ns + length l))
          (r\<lparr>s_ATBufferCur := s_ATBufferCur r + length ns\<rparr>)"
        using assms(3-5) by (intro seek_line_found)
      moreover have "drop (s_ATBufferCur r + length ns) (s_ATBuffer r) = l @ c # m @ NUL # zs"
        by (rule drop_view [OF view])
      ultimately show ?thesis
        using run assms(1) all(2) by (simp add: outcome_simps reader_ok_def buffer_ok_def)
    next
      case (part ns1 ns2 q)
      let ?v = "r\<lparr>s_ATBufferCur := s_ATBufferCur r + length ns1\<rparr>"
      have view: "?xs = ns1 @ q @ NUL # zs"
        using zs part(1) by simp
      have q: "\<forall>c \<in> set q. \<not> is_newline c" "NUL \<notin> set q" "q \<noteq> ''> ''"
        using part(4) assms(4) by (auto simp: line_ok_def dest: set_mono_prefix)
      have "seek_line r = Done None ?v"
        using view part(2) assms(3) q by (intro seek_line_partial) auto
      moreover have v: "drop (s_ATBufferCur ?v) (s_ATBuffer ?v) = q @ NUL # zs"
        using drop_view [OF view] by simp
      moreover have "reader_ok ?v"
        using arg_cong [OF v, of length] assms(1) by (auto simp: reader_ok_def buffer_ok_def)
      moreover have "\<exists>zs' t. move_up ?v = Done (length q) t \<and> s_ATBufferCur t = 0 \<and> input t = input r \<and>
          s_ATBuffer t = q @ NUL # zs'"
        using v q(2) by (simp add: move_up_def outcome_simps)
      ultimately obtain t zs' where t: "move_up ?v = Done (length q) t" "s_ATBufferCur t = 0" "input t = input r"
          "s_ATBuffer t = q @ NUL # zs'" "seek_line r = Done None ?v" "reader_ok t"
        using safeD [OF move_up_ok [of ?v]] by blast
      then have "start_line r = Done (length q, None) t"
        by (simp add: run outcome_simps)
      then show ?thesis
        using t part(2,3) q(1) assms(3) by (fastforce simp: reader_ok_def)
    qed
  qed
qed

lemma readline_frames:
  assumes "reader_ok r" and "unread r = ns @ l @ c # rest"
    and "\<forall>n \<in> set ns. is_newline n" and "line_ok l" and "is_newline c" and "NUL \<notin> set rest"
    and "length ns + length l < MAX_AT_RESPONSE"
  shows "\<exists>t. readline r = Done (Some l) t \<and> reader_ok t \<and> unread t = rest"
proof -
  obtain p e t where start: "start_line r = Done (p, e) t" "buffer_ok t" "input t = input r"
    and e: "case e of
       Some i \<Rightarrow> i = s_ATBufferCur t + length l \<and> (\<exists>m zs.
         drop (s_ATBufferCur t) (s_ATBuffer t) = l @ c # m @ NUL # zs \<and> rest = m @ received (input r))
     | None \<Rightarrow> s_ATBufferCur t = 0 \<and> (\<exists>q zs ns'. s_ATBuffer t = q @ NUL # zs \<and> p = length q \<and>
         (\<forall>c \<in> set q. \<not> is_newline c) \<and> q @ received (input r) = ns' @ l @ c # rest \<and>
         (\<forall>n \<in> set ns'. is_newline n) \<and> length ns' \<le> length ns)"
    using start_line_frames [OF assms(1-6)] by blast
  have no: "NUL \<notin> set l"
    using assms(4) by (simp add: line_ok_def)
  have pend: "c_string (m @ NUL # zs) = m" if "rest = m @ x" for m x zs
    using that assms(6) by simp
  show ?thesis
  proof (cases e)
    case (Some i)
    then obtain m zs where m: "drop (s_ATBufferCur t) (s_ATBuffer t) = l @ c # m @ NUL # zs"
        "rest = m @ received (input r)" "i = s_ATBufferCur t + length l"
      using e by auto
    obtain u where "take_line i t = Done l u" "reader_ok u" "input u = input t"
        "drop (s_ATBufferCur u) (s_ATBuffer u) = m @ NUL # zs"
      using take_line_run [OF start(2) m(1) no] m(3) by auto
    then show ?thesis
      using start(1,3) Some pend [OF m(2)] m(2) by (simp add: readline_def outcome_simps unread_def)
  next
    case None
    then obtain q zs ns' where q: "s_ATBuffer t = q @ NUL # zs" "p = length q"
        "\<forall>c \<in> set q. \<not> is_newline c" "q @ received (input r) = ns' @ l @ c # rest"
        "\<forall>n \<in> set ns'. is_newline n" "length ns' \<le> length ns" and cur: "s_ATBufferCur t = 0"
      using e by auto
    obtain u es' m zs' where u: "fill_line (input r) p t = Done (Some (s_ATBufferCur u + length l), es') u"
        "buffer_ok u" "drop (s_ATBufferCur u) (s_ATBuffer u) = l @ c # m @ NUL # zs'" "rest = m @ received es'"
      using fill_line_frames [of t q zs p "input r" ns' l c rest] start(2) q cur assms(4-7) by auto
    let ?w = "u\<lparr>input := es'\<rparr>"
    have w: "buffer_ok ?w" "drop (s_ATBufferCur ?w) (s_ATBuffer ?w) = l @ c # m @ NUL # zs'"
      using u by (simp_all add: buffer_ok_def)
    obtain v where v: "take_line (s_ATBufferCur ?w + length l) ?w = Done l v" "reader_ok v" "input v = input ?w"
        "drop (s_ATBufferCur v) (s_ATBuffer v) = m @ NUL # zs'"
      using take_line_run [OF w no] by blast
    have "readline r = Done (Some l) v"
      using start(1,3) None u(1) v(1) by (simp add: readline_def outcome_simps)
    then show ?thesis
      using v(2-4) pend [OF u(4)] u(4) by (simp add: unread_def)
  qed
qed


text \<open>A piece of the stream: newlines, a line, and the newline that ends it.\<close>

fun frame :: "string \<times> string \<times> char \<Rightarrow> string" where
  "frame (ns, l, c) = ns @ l @ [c]"

fun frame_ok :: "string \<times> string \<times> char \<Rightarrow> bool" where
  "frame_ok (ns, l, c) = (
     list_all is_newline ns \<and> line_ok l \<and> is_newline c \<and> length ns + length l < MAX_AT_RESPONSE)"

lemma frame_NUL: "frame_ok f \<Longrightarrow> NUL \<notin> set (frame f)"
  by (cases f) (auto simp: line_ok_def list_all_iff)

lemma read_lines_frames:
  assumes "reader_ok r" and "unread r = concat (map frame fs) @ rest" and "list_all frame_ok fs"
    and "NUL \<notin> set rest"
  shows "\<exists>t. read_lines (length fs) r = Done (map (\<lambda>(_, l, _). l) fs) t \<and> reader_ok t \<and> unread t = rest"
  using assms(1-3)
proof (induction fs arbitrary: r)
  case Nil
  then show ?case by (simp add: ret_def)
next
  case (Cons f fs)
  obtain ns l c where f: "f = (ns, l, c)" by (cases f)
  have ok: "\<forall>n \<in> set ns. is_newline n" "line_ok l" "is_newline c" "length ns + length l < MAX_AT_RESPONSE"
    using Cons.prems(3) by (auto simp: f list_all_iff)
  have "NUL \<notin> set (concat (map frame fs) @ rest)"
    using Cons.prems(3) assms(4) frame_NUL by (auto simp: list_all_iff)
  moreover have "unread r = ns @ l @ c # concat (map frame fs) @ rest"
    using Cons.prems(2) by (simp add: f)
  ultimately obtain t where t: "readline r = Done (Some l) t" "reader_ok t"
      "unread t = concat (map frame fs) @ rest"
    using readline_frames [OF Cons.prems(1) _ ok(1-3) _ ok(4)] by blast
  obtain u where "read_lines (length fs) t = Done (map (\<lambda>(_, l, _). l) fs) u" "reader_ok u" "unread u = rest"
    using Cons.IH [OF t(2,3)] Cons.prems(3) by auto
  then show ?case
    using t(1) by (simp add: outcome_simps f)
qed

lemma initial_reader_ok: "reader_ok (initial_reader es)" "unread (initial_reader es) = received es"
  by (simp_all add: reader_ok_def buffer_ok_def initial_reader_def unread_def c_string_def
      del: replicate_Suc)

subsection \<open>Where the framing breaks\<close>

text \<open>
  The prompt ends at the terminating NUL itself, so that \<open>p_eol + 1\<close> is beyond it, and what an
  earlier line left in the buffer there counts as input.
\<close>

lemma prompt_read:
  assumes "reader_ok r" and "s_ATBuffer r ! s_ATBufferCur r = NUL"
    and "input r = Got (ns @ ''> '') # es" and "list_all is_newline ns"
    and "length ns + 2 \<le> MAX_AT_RESPONSE"
  shows "\<exists>t. readline r = Done (Some ''> '') t \<and> buffer_ok t \<and> s_ATBufferCur t = length ns + 3 \<and>
    drop (length ns + 3) (s_ATBuffer t) = drop (length ns + 3) (s_ATBuffer r) \<and> input t = es"
proof -
  let ?r = "r\<lparr>s_ATBufferCur := 0, s_ATBuffer := (s_ATBuffer r)[0 := NUL]\<rparr>"
  let ?s = "ns @ ''> ''" and ?z = "drop (length ns + 3) (s_ATBuffer r)"
  let ?b = "?s @ NUL # ?z"
  have len: "length (s_ATBuffer r) = Suc MAX_AT_RESPONSE"
    using assms(1) by (simp add: reader_ok_def buffer_ok_def)
  let ?u = "?r\<lparr>s_ATBuffer := ?b, s_readCount := s_readCount r + int (length ?s)\<rparr>"
  have start: "start_line r = Done (0, None) ?r"
    using assms(1,2) len by (simp add: start_line_def empty_buffer_def outcome_simps reader_ok_def)
  have store: "store 0 ?s ?r = Done () ?u"
    using len assms(5) by (simp add: store_def outcome_simps numeral_3_eq_3)
  have "skip_newlines ?b = Some (length ns)"
    using skip_newlines_append [of ns "CHR ''>''" "'' '' @ NUL # ?z"] assms(4)
    by (simp add: list_all_iff is_newline_def)
  moreover have "findNextEOL (''> '' @ NUL # ?z) = Some (Some 2)"
    using findNextEOL_view [of "''> ''" ?z] by simp
  ultimately have seek: "seek_line ?u = Done (Some (length ns + 2)) (?u\<lparr>s_ATBufferCur := length ns\<rparr>)"
    by (simp add: seek_line_def outcome_simps)
  have fill: "fill_line (input r) 0 ?r = Done (Some (length ns + 2), es) (?u\<lparr>s_ATBufferCur := length ns\<rparr>)"
    using assms(5) store seek by (subst fill_line.simps) (simp add: assms(3) Let_def outcome_simps left_over_def)
  let ?v = "?u\<lparr>s_ATBufferCur := length ns, input := es\<rparr>"
  have upd: "?b[length ns + 2 := NUL] = ?b"
    by (simp add: list_update_append)
  have b: "length ?b = Suc MAX_AT_RESPONSE" "?b ! MAX_AT_RESPONSE = NUL"
    using len assms(1,5) by (simp_all add: nth_append nth_Cons' reader_ok_def buffer_ok_def)
  have "take_line (length ns + 2) ?v = Done ''> '' (?v\<lparr>s_ATBufferCur := length ns + 3\<rparr>)"
    using upd assms(5) len by (simp add: take_line_def outcome_simps Let_def c_string_def)
  then have "readline r = Done (Some ''> '') (?v\<lparr>s_ATBufferCur := length ns + 3\<rparr>)"
    using start fill by (simp add: readline_def outcome_simps)
  moreover have "buffer_ok (?v\<lparr>s_ATBufferCur := length ns + 3\<rparr>)"
    using b by (simp add: buffer_ok_def)
  moreover have "drop (length ns + 3) ?b = ?z" by simp
  ultimately show ?thesis
    by (intro exI [of _ "?v\<lparr>s_ATBufferCur := length ns + 3\<rparr>"]) simp
qed

lemma prompt_run:
  assumes "reader_ok r" and "s_ATBuffer r ! s_ATBufferCur r = NUL"
    and "input r = Got (ns @ ''> '') # es" and "list_all is_newline ns"
    and "length ns + 2 < MAX_AT_RESPONSE"
  shows "\<exists>t. readline r = Done (Some ''> '') t \<and> reader_ok t \<and>
    unread t = c_string (drop (length ns + 3) (s_ATBuffer r)) @ received es"
  using prompt_read [OF assms(1-4)] assms(5) by (auto simp: reader_ok_def unread_def)

text \<open>A prompt that ends with the buffer leaves the cursor behind it: the next call reads there.\<close>

lemma prompt_overrun:
  assumes "reader_ok r" and "s_ATBuffer r ! s_ATBufferCur r = NUL"
    and "input r = Got (ns @ ''> '') # es" and "list_all is_newline ns"
    and "length ns + 2 = MAX_AT_RESPONSE"
  shows "\<exists>t. read_lines 2 r = Fault OutOfBounds t"
proof -
  obtain t where t: "readline r = Done (Some ''> '') t" "buffer_ok t" "s_ATBufferCur t = Suc MAX_AT_RESPONSE"
    using prompt_read [OF assms(1-4)] assms(5) by auto
  have "start_line t = Fault OutOfBounds t"
    using t(2,3) by (simp add: start_line_def buffer_ok_def outcome_simps)
  then have "readline t = Fault OutOfBounds t"
    by (simp add: readline_def outcome_simps)
  then show ?thesis
    using t(1) by (simp add: numeral_2_eq_2 outcome_simps)
qed

text \<open>Behind a NUL byte, nothing is found any more until the buffer is full.\<close>

lemma fill_line_NUL:
  assumes "buffer_ok r" and "drop (s_ATBufferCur r) (s_ATBuffer r) = q @ NUL # zs"
    and "s_ATBufferCur r + length q < p" and "\<forall>c \<in> set q. \<not> is_newline c" and "NUL \<notin> set q" and "q \<noteq> ''> ''"
    and "[] \<notin> set ss" and "p + length (concat ss) < MAX_AT_RESPONSE"
  shows "\<exists>t. fill_line (map Got ss) p r = Blocked t"
  using assms(1-3,7,8)
proof (induction ss arbitrary: r zs p)
  case Nil
  then show ?case
    by (subst fill_line.simps) (simp add: Let_def outcome_simps)
next
  case (Cons s ss)
  let ?b = "take p (s_ATBuffer r) @ s @ NUL # drop (p + length s + 1) (s_ATBuffer r)"
  let ?u = "r\<lparr>s_ATBuffer := ?b, s_readCount := s_readCount r + int (length s)\<rparr>"
  have len: "length (s_ATBuffer r) = Suc MAX_AT_RESPONSE"
    using Cons.prems(1) by (simp add: buffer_ok_def)
  have s: "s \<noteq> []" "length s \<le> MAX_AT_RESPONSE - p" "p < MAX_AT_RESPONSE"
    using Cons.prems(4,5) by auto
  have store: "store p s r = Done () ?u"
    using len Cons.prems(5) by (simp add: store_def outcome_simps)
  have "drop (s_ATBufferCur r) (take p (s_ATBuffer r)) =
      take (p - s_ATBufferCur r) (drop (s_ATBufferCur r) (s_ATBuffer r))"
    by (simp add: drop_take)
  moreover obtain k where "p = s_ATBufferCur r + length q + Suc k"
    using less_imp_Suc_add [OF Cons.prems(3)] by auto
  ultimately have "drop (s_ATBufferCur r) (take p (s_ATBuffer r)) = q @ NUL # take k zs"
    by (simp add: Cons.prems(2))
  then have view: "drop (s_ATBufferCur ?u) (s_ATBuffer ?u) =
      [] @ q @ NUL # take k zs @ s @ NUL # drop (p + length s + 1) (s_ATBuffer r)"
    using Cons.prems(3,5) len by simp
  then have "seek_line ?u = Done None ?u"
    using seek_line_partial [OF view] assms(4-6) by simp
  moreover have "buffer_ok ?u"
    using Cons.prems(1,5) by (auto simp: buffer_ok_def nth_append nth_Cons')
  moreover have "\<exists>t. fill_line (map Got ss) (p + length s) ?u = Blocked t"
    using Cons.prems(3-5) view calculation(2) by (intro Cons.IH) auto
  ultimately show ?case
    using s store
    by (subst fill_line.simps) (simp add: Let_def outcome_simps left_over_def)
qed


lemma NUL_run:
  assumes "reader_ok r" and "s_ATBuffer r ! s_ATBufferCur r = NUL"
    and "input r = map Got ((q @ NUL # b) # ss)" and "\<forall>c \<in> set q. \<not> is_newline c" and "NUL \<notin> set q"
    and "q \<noteq> ''> ''" and "[] \<notin> set ss" and "length q + 1 + length b + length (concat ss) < MAX_AT_RESPONSE"
  shows "\<exists>t. readline r = Blocked t"
proof -
  let ?r = "r\<lparr>s_ATBufferCur := 0, s_ATBuffer := (s_ATBuffer r)[0 := NUL]\<rparr>"
  let ?s = "q @ NUL # b" and ?z = "drop (length q + 1 + length b + 1) (s_ATBuffer r)"
  let ?u = "?r\<lparr>s_ATBuffer := ?s @ NUL # ?z, s_readCount := s_readCount r + int (length ?s)\<rparr>"
  have len: "length (s_ATBuffer r) = Suc MAX_AT_RESPONSE"
    using assms(1) by (simp add: reader_ok_def buffer_ok_def)
  have start: "start_line r = Done (0, None) ?r"
    using assms(1,2) len by (simp add: start_line_def empty_buffer_def outcome_simps reader_ok_def)
  have store: "store 0 ?s ?r = Done () ?u"
    using len assms(8) by (simp add: store_def outcome_simps)
  have view: "drop (s_ATBufferCur ?u) (s_ATBuffer ?u) = [] @ q @ NUL # b @ NUL # ?z"
    by simp
  have seek: "seek_line ?u = Done None ?u"
    using seek_line_partial [OF view] assms(4-6) by simp
  have "reader_ok ?r"
    using assms(1) empty_buffer_ok [of r] by (simp add: reader_ok_def)
  then have "buffer_ok ?u"
    using safeD [OF store_ok store] assms(8) by (simp add: reader_ok_def)
  then have "\<exists>t. fill_line (map Got ss) (length ?s) ?u = Blocked t"
    using assms(4-8) by (intro fill_line_NUL) auto
  then have "\<exists>t. fill_line (input r) 0 ?r = Blocked t"
    using assms(8) store seek
    by (subst fill_line.simps) (simp add: assms(3) Let_def outcome_simps left_over_def)
  then show ?thesis
    using start by (auto simp: readline_def outcome_simps)
qed

end
