(* ===== verification/AtTime.thy ===== *)
theory AtTime
  imports Main "HOL-Library.Signed_Division"
begin

section \<open>atchannel.c: deadlines and pauses\<close>

text \<open>
  The deadline of a timed wait and the pause between two handshakes.  Times are integers; C's
  \<open>/\<close> and \<open>%\<close> are \<open>sdiv\<close> and \<open>smod\<close>.  A sleep that a signal interrupts goes on with the time
  that remains: the list holds the remaining times that \<open>nanosleep\<close> stores, one for each
  interruption.
\<close>

record timespec =
  tv_sec :: int
  tv_nsec :: int

definition nanoseconds :: "timespec \<Rightarrow> int" where
  "nanoseconds ts = tv_sec ts * 1000000000 + tv_nsec ts"

text \<open>A timespec that \<open>pthread_cond_timedwait\<close> accepts.\<close>

definition timespec_ok :: "timespec \<Rightarrow> bool" where
  "timespec_ok ts \<longleftrightarrow> 0 \<le> tv_nsec ts \<and> tv_nsec ts < 1000000000"

definition setTimespecRelative :: "int \<Rightarrow> int \<Rightarrow> int \<Rightarrow> timespec" where
  "setTimespecRelative now_sec now_usec msec =
     (let sec = now_sec + msec sdiv 1000;
          nsec = (now_usec + msec smod 1000 * 1000) * 1000
      in if nsec > 1000000000 then \<lparr>tv_sec = sec + 1, tv_nsec = nsec - 1000000000\<rparr>
         else \<lparr>tv_sec = sec, tv_nsec = nsec\<rparr>)"

fun nanosleep_loop :: "timespec \<Rightarrow> timespec list \<Rightarrow> int" where
  "nanosleep_loop ts [] = nanoseconds ts"
| "nanosleep_loop ts (left # interruptions) =
     (nanoseconds ts - nanoseconds left) + nanosleep_loop left interruptions"

text \<open>How long the pause is, in nanoseconds.\<close>

definition sleepMsec :: "int \<Rightarrow> timespec list \<Rightarrow> int" where
  "sleepMsec msec interruptions =
     nanosleep_loop \<lparr>tv_sec = msec sdiv 1000, tv_nsec = msec smod 1000 * 1000 * 1000\<rparr> interruptions"

lemma sdiv_smod_nonneg: "0 \<le> (a :: int) \<Longrightarrow> a sdiv 1000 = a div 1000 \<and> a smod 1000 = a mod 1000"
  by (cases "a = 0") (simp_all add: signed_divide_int_def signed_modulo_int_def minus_mult_div_eq_mod)

lemma msec_split: "msec div 1000 * 1000000000 + 1000000 * (msec mod 1000) = (msec :: int) * 1000000"
  using div_mult_mod_eq [of msec 1000] by linarith

lemma nanosleep_total: "nanosleep_loop ts is = nanoseconds ts"
  by (induction ts "is" rule: nanosleep_loop.induct) simp_all

lemma sleepMsec_exact:
  assumes "0 \<le> msec"
  shows "sleepMsec msec is = msec * 1000000"
  using assms msec_split [of msec] by (simp add: sleepMsec_def nanosleep_total nanoseconds_def sdiv_smod_nonneg)

lemma deadline_exact:
  assumes "0 \<le> msec" and "0 \<le> usec" and "usec < 1000000"
  shows "nanoseconds (setTimespecRelative sec usec msec) = sec * 1000000000 + usec * 1000 + msec * 1000000"
    and "timespec_ok (setTimespecRelative sec usec msec) \<longleftrightarrow> usec + msec mod 1000 * 1000 \<noteq> 1000000"
proof -
  have m: "0 \<le> msec mod 1000" "msec mod 1000 < 1000" "msec div 1000 * 1000 + msec mod 1000 = msec"
    by simp_all
  show "nanoseconds (setTimespecRelative sec usec msec) = sec * 1000000000 + usec * 1000 + msec * 1000000"
    using msec_split [of msec] assms(1)
    by (simp add: setTimespecRelative_def nanoseconds_def sdiv_smod_nonneg Let_def)
  show "timespec_ok (setTimespecRelative sec usec msec) \<longleftrightarrow> usec + msec mod 1000 * 1000 \<noteq> 1000000"
    using m assms by (auto simp: setTimespecRelative_def timespec_ok_def sdiv_smod_nonneg Let_def)
qed

end
