(* ===== verification/DiagSaver.thy ===== *)
theory DiagSaver
  imports UsbFind "HOL-Library.Word"
begin

section \<open>diagsaver.c: saving the diagnostic log of the modem\<close>

text \<open>
  The diagnostic thread opens the serial device of interface 4, sends three commands, and saves
  what it receives in files that it starts anew when they get too large.  Files are byte lists
  by name; \<open>fp\<close> is the name of the file the stream \<open>fp\<close> writes to.  What the calls of the C
  library yield (the time, the size that \<open>stat\<close> reports, whether \<open>fopen\<close> succeeds) comes with
  each call.
\<close>

subsection \<open>The serial port\<close>

datatype speed = B300 | B600 | B1200 | B2400 | B4800 | B9600 | B19200 | B38400 | B115200

datatype term_flag =
    CS7 | CS8 | PARENB | PARODD | CSTOPB | CLOCAL | CREAD     \<comment> \<open>\<open>c_cflag\<close>\<close>
  | INPCK | IXON | IXOFF | IXANY                              \<comment> \<open>\<open>c_iflag\<close>\<close>
  | ICANON | ECHO | ECHOE | ISIG                              \<comment> \<open>\<open>c_lflag\<close>\<close>
  | OPOST                                                     \<comment> \<open>\<open>c_oflag\<close>\<close>

record termios =
  flags :: "term_flag set"
  vtime :: nat
  vmin :: nat
  speed :: speed

definition baudrate :: "int \<Rightarrow> speed" where
  "baudrate baud = (if baud = 300 then B300 else if baud = 600 then B600 else if baud = 1200 then B1200
     else if baud = 2400 then B2400 else if baud = 4800 then B4800 else if baud = 9600 then B9600
     else if baud = 19200 then B19200 else if baud = 38400 then B38400 else B9600)"

definition data_bits :: "int \<Rightarrow> term_flag set" where
  "data_bits databits = (if databits = 7 then {CS7} else {CS8})"

definition set_parity :: "char \<Rightarrow> term_flag set \<Rightarrow> term_flag set" where
  "set_parity parity fl =
     (if parity = CHR ''n'' \<or> parity = CHR ''N'' then fl - {PARENB, INPCK}
      else if parity = CHR ''o'' \<or> parity = CHR ''O'' then fl \<union> {PARODD, PARENB, INPCK}
      else if parity = CHR ''e'' \<or> parity = CHR ''E'' then (fl \<union> {PARENB}) - {PARODD} \<union> {INPCK}
      else if parity = CHR ''S'' \<or> parity = CHR ''s'' then fl - {PARENB, CSTOPB}
      else fl - {PARENB, INPCK})"

definition stop_bits :: "int \<Rightarrow> term_flag set \<Rightarrow> term_flag set" where
  "stop_bits stopbits fl = (if stopbits = 2 then fl \<union> {CSTOPB} else fl - {CSTOPB})"

text \<open>
  The settings that are handed to \<open>tcsetattr\<close>.  \<open>bzero\<close> clears what \<open>tcgetattr\<close> has read.
\<close>

definition setport :: "int \<Rightarrow> int \<Rightarrow> int \<Rightarrow> char \<Rightarrow> termios" where
  "setport baud databits stopbits parity =
     \<lparr>flags = stop_bits stopbits (set_parity parity (data_bits databits)) \<union> {CLOCAL, CREAD} -
        {ICANON, ECHO, ECHOE, ISIG, OPOST, IXON, IXOFF, IXANY},
      vtime = 0, vmin = 0, speed = baudrate baud\<rparr>"

subsection \<open>The log files\<close>

record diag =
  log_name :: string                                \<comment> \<open>\<open>filename\<close>\<close>
  fp :: "string option"
  g_uiFileIndex :: "32 word"
  files :: "string \<Rightarrow> 8 word list option"
  port :: "termios option"
  port_output :: "8 word list list"

record clock =
  seconds :: int
  date :: "int list"                                \<comment> \<open>year, month, day, hour, minute, second\<close>
  st_size :: int
  fopen_ok :: bool

definition FILE_SIZE :: int where "FILE_SIZE = 200"

fun join_with :: "string \<Rightarrow> string list \<Rightarrow> string" where
  "join_with sep [] = []"
| "join_with sep [x] = x"
| "join_with sep (x # y # xs) = x @ sep @ join_with sep (y # xs)"

definition sdl_name :: "clock \<Rightarrow> string" where
  "sdl_name c = ''/system/'' @ join_with ''_'' (map print_d (date c)) @ ''.sdl''"

text \<open>An unsigned integer as it lies in memory.\<close>

definition le_bytes :: "32 word \<Rightarrow> 8 word list" where
  "le_bytes w = [ucast w, ucast (drop_bit 8 w), ucast (drop_bit 16 w), ucast (drop_bit 24 w)]"

definition file_header :: "32 word \<Rightarrow> int \<Rightarrow> 8 word list" where
  "file_header seq time = concat (map le_bytes [0, 1, 0, 0, seq, word_of_int time, 0])"

definition fputs_bytes :: "8 word list \<Rightarrow> (diag, unit) prog" where
  "fputs_bytes bs = bindp (getp fp) (\<lambda>f. case f of
      None \<Rightarrow> if bs = [] then ret () else failp NullDeref
    | Some n \<Rightarrow> modp (\<lambda>s. s\<lparr>files := (files s)(n \<mapsto> (case files s n of None \<Rightarrow> [] | Some old \<Rightarrow> old) @ bs)\<rparr>))"

text \<open>\<open>fopen(filename, "wb")\<close>\<close>

definition open_log :: "clock \<Rightarrow> (diag, unit) prog" where
  "open_log c = modp (\<lambda>s. s\<lparr>log_name := sdl_name c,
     fp := if fopen_ok c then Some (sdl_name c) else None,
     files := if fopen_ok c then (files s)(sdl_name c \<mapsto> []) else files s\<rparr>)"

text \<open>\<open>fclose\<close> of a stream that was not opened crashes.\<close>

definition close_log :: "(diag, unit) prog" where
  "close_log = bindp (getp fp) (\<lambda>f. if f = None then failp NullDeref else modp (\<lambda>s. s\<lparr>fp := None\<rparr>))"

definition savelog :: "clock \<Rightarrow> 8 word list \<Rightarrow> (diag, unit) prog" where
  "savelog c buf = bindp (getp log_name) (\<lambda>name. seqp
     (if name = [] then seqp (open_log c)
        (bindp (getp (\<lambda>s. file_header (g_uiFileIndex s) (seconds c))) fputs_bytes)
      else if st_size c > FILE_SIZE * 1024 * 1024 - int (length buf) then
        seqp close_log (seqp (modp (\<lambda>s. s\<lparr>g_uiFileIndex := g_uiFileIndex s + 1\<rparr>)) (open_log c))
      else ret ())
     (fputs_bytes buf))"

subsection \<open>The thread\<close>

datatype diag_event =
    Received clock "8 word list"
  | Select_timeout "int list"   \<comment> \<open>\<open>readport\<close> returns -1; then the results of \<open>openport\<close>\<close>
  | End_of_data              \<comment> \<open>\<open>read\<close> returns 0\<close>

definition ACATReady :: "8 word list" where
  "ACATReady = [0x10, 0, 0, 0, 0, 4, 0xFF, 0xFF, 0, 0, 0, 0, 0, 0, 0, 0]"
definition GetAPDBVer :: "8 word list" where
  "GetAPDBVer = [0x10, 0, 0, 0, 0x80, 0, 0xFF, 0xFF, 0, 0, 0, 0, 0, 0, 0, 0]"
definition GetCPDBVer :: "8 word list" where
  "GetCPDBVer = [0x10, 0, 0, 0, 0, 0, 0xFF, 0xFF, 0, 0, 0, 0, 0, 0, 0, 0]"

definition writeport :: "8 word list \<Rightarrow> (diag, unit) prog" where
  "writeport bs = modp (\<lambda>s. s\<lparr>port_output := port_output s @ [bs]\<rparr>)"

text \<open>The port is opened again, every 300 ms until that succeeds; how it is set is not checked.\<close>

fun reopen_port :: "int list \<Rightarrow> (diag, unit) prog" where
  "reopen_port [] = (\<lambda>s. Blocked s)"
| "reopen_port (fd # fds) =
     (if fd > 0 then modp (\<lambda>s. s\<lparr>port := Some (setport 115200 8 1 (CHR ''n''))\<rparr>) else reopen_port fds)"

text \<open>The loop, with \<open>last_write\<close>, which is assigned in the branch for no data only.\<close>

fun diag_loop :: "diag_event list \<Rightarrow> int \<Rightarrow> (diag, unit) prog" where
  "diag_loop [] last_write = (\<lambda>s. Blocked s)"
| "diag_loop (Received c buf # es) last_write =
     (if buf \<noteq> [] then seqp (savelog c buf) (diag_loop es last_write)
      else diag_loop es 0)"
| "diag_loop (End_of_data # es) last_write = diag_loop es 0"
| "diag_loop (Select_timeout fds # es) last_write =
     seqp (if last_write > 0 then modp (\<lambda>s. s\<lparr>log_name := []\<rparr>) else ret ())
     (seqp (reopen_port fds) (diag_loop es (-1)))"

text \<open>
  \<open>openport\<close> yields \<open>fd\<close>; \<open>set_ok\<close> is the success of \<open>tcsetattr\<close>.  \<open>dev\<close> has 256 bytes.
\<close>

definition diagsaver_main :: "sysfs \<Rightarrow> usb_ids \<Rightarrow> int \<Rightarrow> bool \<Rightarrow> diag_event list \<Rightarrow> (diag, unit) prog" where
  "diagsaver_main fs v fd set_ok es =
     bindp (find_usb_name fs v AIRM2M_USB_DEVICE_DIAG_INTERFACE_ID) (\<lambda>name.
     bindp (sprintf_into 256 (''/dev/'' @ (case name of None \<Rightarrow> ''(null)'' | Some n \<Rightarrow> n))) (\<lambda>dev.
       if fd \<le> 0 then ret ()
       else bindp (if sublist ''MDiagUSB'' dev then ret True
              else seqp (if set_ok then modp (\<lambda>s. s\<lparr>port := Some (setport 115200 8 1 (CHR ''n''))\<rparr>) else ret ())
                (ret set_ok)) (\<lambda>ok.
         if \<not> ok then ret ()
         else seqp (writeport ACATReady) (seqp (writeport GetAPDBVer) (seqp (writeport GetCPDBVer)
           (diag_loop es (-1234)))))))"

subsection \<open>What is saved\<close>

text \<open>The rate that is asked for is not in the table.\<close>

lemma setport_diag:
  "setport 115200 8 1 (CHR ''n'') = \<lparr>flags = {CS8, CLOCAL, CREAD}, vtime = 0, vmin = 0, speed = B9600\<rparr>"
  by (auto simp: setport_def baudrate_def data_bits_def set_parity_def stop_bits_def)

lemma file_header_length: "length (file_header seq time) = 28"
  by (simp add: file_header_def le_bytes_def)

lemma savelog_first:
  assumes "log_name s = []" and "fopen_ok c"
  shows "\<exists>t. savelog c buf s = Done () t \<and> log_name t = sdl_name c \<and> fp t = Some (sdl_name c) \<and>
    files t = (files s)(sdl_name c \<mapsto> file_header (g_uiFileIndex s) (seconds c) @ buf)"
  using assms by (simp add: savelog_def open_log_def fputs_bytes_def outcome_simps)

lemma savelog_next:
  assumes "log_name s \<noteq> []" and "fp s = Some n" and "files s n = Some old"
    and "st_size c \<le> FILE_SIZE * 1024 * 1024 - int (length buf)"
  shows "\<exists>t. savelog c buf s = Done () t \<and> log_name t = log_name s \<and> fp t = Some n \<and>
    files t = (files s)(n \<mapsto> old @ buf)"
  using assms by (simp add: savelog_def fputs_bytes_def outcome_simps)

lemma savelog_rotates:
  assumes "log_name s \<noteq> []" and "fp s = Some n" and "fopen_ok c"
    and "st_size c > FILE_SIZE * 1024 * 1024 - int (length buf)"
  shows "\<exists>t. savelog c buf s = Done () t \<and> log_name t = sdl_name c \<and> fp t = Some (sdl_name c) \<and>
    g_uiFileIndex t = g_uiFileIndex s + 1 \<and> files t = (files s)(sdl_name c \<mapsto> buf)"
  using assms by (simp add: savelog_def open_log_def close_log_def fputs_bytes_def outcome_simps)

lemma reopen_port_run:
  "\<exists>fd \<in> set fds. 0 < fd \<Longrightarrow>
   reopen_port fds s = Done () (s\<lparr>port := Some (setport 115200 8 1 (CHR ''n''))\<rparr>)"
  by (induction fds) (auto simp: outcome_simps)

text \<open>
  What was received; and that \<open>stat\<close> never reports a size at which the file would change, and
  the port can be opened again.
\<close>

fun received_bytes :: "diag_event list \<Rightarrow> 8 word list" where
  "received_bytes [] = []"
| "received_bytes (Received c buf # es) = buf @ received_bytes es"
| "received_bytes (e # es) = received_bytes es"

definition harmless :: "diag_event \<Rightarrow> bool" where
  "harmless e \<longleftrightarrow> (case e of
      Received c buf \<Rightarrow> st_size c \<le> FILE_SIZE * 1024 * 1024 - int (length buf)
    | Select_timeout fds \<Rightarrow> \<exists>fd \<in> set fds. 0 < fd
    | End_of_data \<Rightarrow> True)"

lemma diag_loop_appends:
  assumes "log_name s \<noteq> []" and "fp s = Some n" and "files s n = Some old" and "list_all harmless es" and "w \<le> 0"
  shows "\<exists>t. diag_loop es w s = Blocked t \<and> log_name t = log_name s \<and> fp t = Some n \<and>
    files t = (files s)(n \<mapsto> old @ received_bytes es)"
  using assms
proof (induction es w arbitrary: s old rule: diag_loop.induct)
  case (1 w)
  then show ?case by (auto simp: fun_eq_iff)
next
  case (2 c buf es w)
  show ?case
  proof (cases "buf = []")
    case True
    then show ?thesis using 2 by auto
  next
    case False
    obtain t where t: "savelog c buf s = Done () t" "log_name t = log_name s" "fp t = Some n"
        "files t = (files s)(n \<mapsto> old @ buf)"
      using savelog_next [OF 2(3-5), of c buf] 2(6) by (auto simp: harmless_def)
    have "log_name t \<noteq> []" and "files t n = Some (old @ buf)" and "list_all harmless es"
      using t 2(3,6) by simp_all
    from "2.IH"(1) [OF False this(1) t(3) this(2,3) 2(7)]
    obtain u where u: "diag_loop es w t = Blocked u" "log_name u = log_name t" "fp u = Some n"
        "files u = (files t)(n \<mapsto> (old @ buf) @ received_bytes es)"
      by blast
    have "files u = (files s)(n \<mapsto> old @ buf @ received_bytes es)"
      by (simp only: u(4) t(4) fun_upd_upd append_assoc)
    then show ?thesis
      using False t u(1-3) by (simp add: outcome_simps fun_eq_iff)
  qed
next
  case (3 es w)
  then show ?case by (simp add: harmless_def)
next
  case (4 fds es w)
  let ?u = "s\<lparr>port := Some (setport 115200 8 1 (CHR ''n''))\<rparr>"
  have "log_name ?u \<noteq> []" and "fp ?u = Some n" and "files ?u n = Some old" and "list_all harmless es"
      and "reopen_port fds s = Done () ?u"
    using 4 by (simp_all add: reopen_port_run harmless_def [of "Select_timeout fds"])
  from this(1-4) have "\<exists>t. diag_loop es (-1) ?u = Blocked t \<and> log_name t = log_name ?u \<and> fp t = Some n \<and>
      files t = (files ?u)(n \<mapsto> old @ received_bytes es)"
    by (rule "4.IH") simp
  then show ?case
    using 4(6) \<open>reopen_port fds s = Done () ?u\<close> by (simp add: outcome_simps fun_eq_iff)
qed


lemma diag_loop_saves:
  assumes "log_name s = []" and "fopen_ok c" and "buf \<noteq> []" and "list_all harmless es" and "w \<le> 0"
  shows "\<exists>t. diag_loop (Received c buf # es) w s = Blocked t \<and> fp t = Some (sdl_name c) \<and>
    files t = (files s)(sdl_name c \<mapsto>
      file_header (g_uiFileIndex s) (seconds c) @ received_bytes (Received c buf # es))"
proof -
  obtain t where t: "savelog c buf s = Done () t" "log_name t = sdl_name c" "fp t = Some (sdl_name c)"
      "files t = (files s)(sdl_name c \<mapsto> file_header (g_uiFileIndex s) (seconds c) @ buf)"
    using savelog_first [OF assms(1,2)] by blast
  have "log_name t \<noteq> []" and "files t (sdl_name c) = Some (file_header (g_uiFileIndex s) (seconds c) @ buf)"
    using t by (simp_all add: sdl_name_def)
  from diag_loop_appends [OF this(1) t(3) this(2) assms(4,5)]
  obtain u where "diag_loop es w t = Blocked u" "fp u = Some (sdl_name c)"
      "files u = (files t)(sdl_name c \<mapsto> (file_header (g_uiFileIndex s) (seconds c) @ buf) @ received_bytes es)"
    by blast
  then show ?thesis
    using t assms(3) by (simp add: outcome_simps fun_eq_iff)
qed

end
