(* ===== verification/IpScripts.thy ===== *)
theory IpScripts
  imports Main "HOL-Library.Sublist"
begin

section \<open>ip-up.c and ip-down.c: the scripts of the PPP daemon\<close>

text \<open>
  Both programs run shell commands and nothing else: a run is the list of the commands that
  are handed to \<open>system\<close>.  The environment variables are a function.
\<close>

text \<open>\<open>property_set\<close> prints into 128 bytes and cuts off what does not fit.\<close>

definition property_set :: "string \<Rightarrow> string option \<Rightarrow> string" where
  "property_set key value = take 127 (''/system/bin/setprop '' @ key @ '' '' @
     (case value of
        Some v \<Rightarrow> if v \<noteq> [] then v else [CHR 0x22, CHR 0x22]
      | None \<Rightarrow> [CHR 0x22, CHR 0x22]))"

definition or_empty :: "string option \<Rightarrow> string option" where
  "or_empty x = (case x of None \<Rightarrow> Some [] | Some v \<Rightarrow> Some v)"

definition ip_up :: "(string \<Rightarrow> string option) \<Rightarrow> string list" where
  "ip_up getenv =
     replicate 3 ''/system/bin/setprop net.dns1 8.8.8.8'' @
     [property_set ''net.ppp0.dns1'' (or_empty (getenv ''DNS1'')),
      property_set ''net.ppp0.dns2'' (or_empty (getenv ''DNS2'')),
      property_set ''net.ppp0.local-ip'' (or_empty (getenv ''IPLOCAL'')),
      property_set ''net.ppp0.remote-ip'' (or_empty (getenv ''IPREMOTE'')),
      property_set ''net.ppp0.gw'' (or_empty (getenv ''IPREMOTE''))] @
     replicate 4 ''/system/bin/ip route add default dev ppp0 table ppp0'' @
     replicate 3 ''/system/bin/ifconfig wlan0 down''"

definition ip_down :: "string list" where
  "ip_down =
     [property_set ''net.ppp0.dns1'' (Some []), property_set ''net.ppp0.dns2'' (Some []),
      property_set ''net.ppp0.local-ip'' (Some []), property_set ''net.ppp0.remote-ip'' (Some []),
      property_set ''net.ppp0.gw'' (Some [])]"

subsection \<open>What becomes of the properties\<close>

definition setprop :: "string \<Rightarrow> string \<Rightarrow> string" where
  "setprop key v = ''/system/bin/setprop '' @ key @ '' '' @ v"

lemma property_set_fits:
  assumes "length key \<le> 20" and "v \<noteq> []" and "length v \<le> 80"
  shows "property_set key (Some v) = setprop key v"
  using assms by (simp add: property_set_def setprop_def)

lemma property_set_cut:
  "80 \<le> length key + length v \<Longrightarrow> length (property_set key (Some v)) \<le> 127"
  by (simp add: property_set_def)

lemma ip_down_resets:
  "ip_down = map (\<lambda>key. setprop key [CHR 0x22, CHR 0x22])
     [''net.ppp0.dns1'', ''net.ppp0.dns2'', ''net.ppp0.local-ip'', ''net.ppp0.remote-ip'', ''net.ppp0.gw'']"
  by (simp add: ip_down_def property_set_def setprop_def)

end
