(* ===== verification/RilConnect.thy ===== *)
theory RilConnect
  imports RilSystem UsbFind
begin

section \<open>reference-ril.c: the main loop\<close>

text \<open>
  \<open>mainLoop\<close> looks for the serial device of the modem, opens it, starts the AT channel on it and
  waits until the channel is closed; then it begins again.  What a look at \<open>/sys\<close> and an
  attempt to open finds is data, and so is what the other threads do while the loop waits.  A list
  that is used up is a wait without end.  The settings of the terminal have no effect here, and
  \<open>diag_need_save\<close> is 0.
\<close>

record dev_vars =
  s_port :: int
  s_device_socket :: bool
  s_device_path :: string
  naps :: "nat list"                      \<comment> \<open>the calls of \<open>sleep\<close>\<close>

text \<open>What an attempt to open finds: the results of the calls, by name where they take one.\<close>

record attempt =
  network_client :: int
  qemud_client :: int
  qemud_answers :: bool
  local_client :: "string \<Rightarrow> int"
  device_open :: "string \<Rightarrow> int"

definition nap :: "nat \<Rightarrow> (dev_vars, unit) prog" where
  "nap n = modp (\<lambda>v. v\<lparr>naps := naps v @ [n]\<rparr>)"

fun find_device :: "(sysfs \<times> usb_ids) list \<Rightarrow> (dev_vars, unit) prog" where
  "find_device [] = (\<lambda>v. Blocked v)"
| "find_device ((fs, ids) # searches) =
     bindp (find_usb_name fs ids AIRM2M_USB_DEVICE_AT_INTERFACE_ID) (\<lambda>d. case d of
         None \<Rightarrow> seqp (nap 1) (find_device searches)
       | Some usb_device_name \<Rightarrow> bindp (sprintf_into MAX_PATH (''/dev/'' @ usb_device_name)) (\<lambda>p.
           modp (\<lambda>v. v\<lparr>s_device_path := p\<rparr>)))"

definition open_once :: "attempt \<Rightarrow> (dev_vars, int) prog" where
  "open_once w = getp (\<lambda>v.
     if s_port v > 0 then network_client w
     else if s_device_socket v then
       (if s_device_path v = ''/dev/socket/qemud''
        then (if qemud_client w \<ge> 0 \<and> \<not> qemud_answers w then -1 else qemud_client w)
        else local_client w (s_device_path v))
     else if s_device_path v \<noteq> [] then device_open w (s_device_path v)
     else -1)"

fun open_loop :: "attempt list \<Rightarrow> (dev_vars, int) prog" where
  "open_loop [] = (\<lambda>v. Blocked v)"
| "open_loop (w # ws) = bindp (open_once w) (\<lambda>fd. if fd < 0 then seqp (nap 10) (open_loop ws) else ret fd)"

definition open_device :: "(sysfs \<times> usb_ids) list \<Rightarrow> attempt list \<Rightarrow> (dev_vars, int) prog" where
  "open_device searches ws = seqp (find_device searches) (open_loop ws)"

text \<open>The loop works on its own variables and on those of the rest of the RIL.\<close>

definition on_dev :: "(dev_vars, 'a) prog \<Rightarrow> (dev_vars \<times> ril, 'a) prog" where
  "on_dev m = (\<lambda>(v, s). case m v of
      Done x v' \<Rightarrow> Done x (v', s) | Blocked v' \<Rightarrow> Blocked (v', s) | Fault f v' \<Rightarrow> Fault f (v', s))"

definition on_ril :: "(ril, 'a) prog \<Rightarrow> (dev_vars \<times> ril, 'a) prog" where
  "on_ril m = (\<lambda>(v, s). case m s of
      Done x s' \<Rightarrow> Done x (v, s') | Blocked s' \<Rightarrow> Blocked (v, s') | Fault f s' \<Rightarrow> Fault f (v, s'))"

text \<open>\<open>others\<close> is what the other threads do until the condition variable is signalled for the last time.\<close>

definition waitForClose :: "(ril, unit) prog \<Rightarrow> (ril, unit) prog" where
  "waitForClose others = seqp others (bindp (getp s_closed) (\<lambda>closed. if closed then ret () else (\<lambda>s. Blocked s)))"

record connection =
  searches :: "(sysfs \<times> usb_ids) list"
  attempts :: "attempt list"
  create_ret :: int                       \<comment> \<open>\<open>pthread_create\<close> for the reader\<close>
  others :: "(ril, unit) prog"

fun mainLoop :: "connection list \<Rightarrow> (dev_vars \<times> ril, unit) prog" where
  "mainLoop [] = (\<lambda>v. Blocked v)"
| "mainLoop (c # cs) = bindp (on_dev (open_device (searches c) (attempts c))) (\<lambda>fd.
     bindp (on_ril (main_connect fd (create_ret c))) (\<lambda>ok.
       if \<not> ok then ret ()
       else seqp (on_dev (nap 1)) (seqp (on_ril (waitForClose (others c))) (mainLoop cs))))"

subsection \<open>Finding and opening\<close>

text \<open>
  A look that finds no device, and a look after which the memory the dangling pointer shows holds
  the name \<open>d\<close> when it is printed.
\<close>

definition no_device :: "sysfs \<times> usb_ids \<Rightarrow> bool" where
  "no_device l \<longleftrightarrow> (\<forall>v :: dev_vars. find_usb_name (fst l) (snd l) AIRM2M_USB_DEVICE_AT_INTERFACE_ID v = Done None v)"

definition device_is :: "string \<Rightarrow> sysfs \<times> usb_ids \<Rightarrow> bool" where
  "device_is d l \<longleftrightarrow> (\<forall>v :: dev_vars. find_usb_name (fst l) (snd l) AIRM2M_USB_DEVICE_AT_INTERFACE_ID v = Done (Some d) v)"

text \<open>The search itself finds the name \<open>n\<close>.\<close>

definition finds :: "string \<Rightarrow> sysfs \<times> usb_ids \<Rightarrow> bool" where
  "finds n l \<longleftrightarrow> (\<forall>v :: dev_vars. FindUsbDevice (fst l) (snd l) AIRM2M_USB_DEVICE_AT_INTERFACE_ID v = Done (Some n) v)"

lemma finds_device: "finds n l \<Longrightarrow> device_is (stale_name (fst l) n) l"
  by (simp add: finds_def device_is_def find_usb_name_def outcome_simps)

lemma find_device_run:
  assumes "\<forall>l \<in> set ls. no_device l" "device_is d l" "length d \<le> 250"
  shows "find_device (ls @ l # ls') v =
    Done () (v\<lparr>naps := naps v @ replicate (length ls) 1, s_device_path := ''/dev/'' @ d\<rparr>)"
  using assms(1)
proof (induction ls arbitrary: v)
  case Nil
  then show ?case
    using assms(2,3) by (cases l) (simp add: device_is_def sprintf_into_def MAX_PATH_def outcome_simps)
next
  case (Cons k ls)
  then show ?case
    by (cases k) (simp add: no_device_def nap_def outcome_simps)
qed

definition serial :: "dev_vars \<Rightarrow> bool" where
  "serial v \<longleftrightarrow> s_port v \<le> 0 \<and> \<not> s_device_socket v \<and> s_device_path v \<noteq> []"

lemma open_once_serial: "serial v \<Longrightarrow> open_once w v = Done (device_open w (s_device_path v)) v"
  by (simp add: open_once_def serial_def outcome_simps)

lemma open_loop_run:
  assumes "\<forall>w \<in> set ws. device_open w (s_device_path v) < 0" "0 \<le> device_open w (s_device_path v)" "serial v"
  shows "open_loop (ws @ w # ws') v =
    Done (device_open w (s_device_path v)) (v\<lparr>naps := naps v @ replicate (length ws) 10\<rparr>)"
  using assms
proof (induction ws arbitrary: v)
  case (Cons k ws)
  then have "serial (v\<lparr>naps := naps v @ [10]\<rparr>)" by (simp add: serial_def)
  with Cons.IH [of "v\<lparr>naps := naps v @ [10]\<rparr>"] Cons.prems show ?case
    by (simp add: outcome_simps open_once_serial nap_def)
qed (simp add: outcome_simps open_once_serial)

lemma open_loop_stuck:
  assumes "\<forall>w \<in> set ws. device_open w (s_device_path v) < 0" "serial v"
  shows "open_loop ws v = Blocked (v\<lparr>naps := naps v @ replicate (length ws) 10\<rparr>)"
  using assms
proof (induction ws arbitrary: v)
  case (Cons k ws)
  then have "serial (v\<lparr>naps := naps v @ [10]\<rparr>)" by (simp add: serial_def)
  with Cons.IH [of "v\<lparr>naps := naps v @ [10]\<rparr>"] Cons.prems show ?case
    by (simp add: outcome_simps open_once_serial nap_def)
qed simp

text \<open>
  The device is found by its name at the first look that succeeds, and opened at the first
  attempt that succeeds.
\<close>

theorem open_device_run:
  assumes "s_port v \<le> 0" "\<not> s_device_socket v"
    and "\<forall>l \<in> set ls. no_device l" "device_is d l" "length d \<le> 250"
    and "\<forall>w \<in> set ws. device_open w (''/dev/'' @ d) < 0" "0 \<le> device_open w (''/dev/'' @ d)"
  shows "open_device (ls @ l # ls') (ws @ w # ws') v = Done (device_open w (''/dev/'' @ d))
    (v\<lparr>naps := naps v @ replicate (length ls) 1 @ replicate (length ws) 10, s_device_path := ''/dev/'' @ d\<rparr>)"
proof -
  let ?v = "v\<lparr>naps := naps v @ replicate (length ls) 1, s_device_path := ''/dev/'' @ d\<rparr>"
  have "serial ?v" using assms(1,2) by (simp add: serial_def)
  then show ?thesis
    using find_device_run [OF assms(3-5), of ls' v] open_loop_run [of ws ?v w ws'] assms(6,7)
    by (simp add: open_device_def outcome_simps)
qed

text \<open>
  The name is looked up once: while the device cannot be opened under it, the loop never looks
  again, whatever other name the modem has got meanwhile.
\<close>

theorem open_device_stuck:
  assumes "s_port v \<le> 0" "\<not> s_device_socket v"
    and "\<forall>l \<in> set ls. no_device l" "device_is d l" "length d \<le> 250"
    and "\<forall>w \<in> set ws. device_open w (''/dev/'' @ d) < 0"
  shows "open_device (ls @ l # ls') ws v =
    Blocked (v\<lparr>naps := naps v @ replicate (length ls) 1 @ replicate (length ws) 10, s_device_path := ''/dev/'' @ d\<rparr>)"
proof -
  let ?v = "v\<lparr>naps := naps v @ replicate (length ls) 1, s_device_path := ''/dev/'' @ d\<rparr>"
  have "serial ?v" using assms(1,2) by (simp add: serial_def)
  then show ?thesis
    using find_device_run [OF assms(3-5), of ls' v] open_loop_stuck [of ws ?v] assms(6)
    by (simp add: open_device_def outcome_simps)
qed

subsection \<open>A connection\<close>

lemma main_connect_run:
  assumes "0 \<le> cr"
  shows "\<exists>t. main_connect fd cr s = Done True t \<and> s_fd t = fd \<and> \<not> s_closed t \<and> \<not> s_readerClosed t \<and>
    rlog t = rlog s @ [RequestTimedCallback Callback_initializeCallback 0]"
  using assms by (simp add: main_connect_def at_open_def RIL_requestTimedCallback_def act_def outcome_simps)

text \<open>
  One round of the loop: with the device found and opened, the channel is open, initialisation
  is requested, and when the other threads have closed the channel the next round begins; the
  loop ends only if the thread of the reader cannot be created.
\<close>

theorem mainLoop_round:
  assumes "s_port v \<le> 0" "\<not> s_device_socket v"
    and "searches c = ls @ l # ls'" "\<forall>l \<in> set ls. no_device l" "device_is d l" "length d \<le> 250"
    and "attempts c = ws @ w # ws'" "\<forall>w \<in> set ws. device_open w (''/dev/'' @ d) < 0"
        "0 \<le> device_open w (''/dev/'' @ d)"
  shows "0 \<le> create_ret c \<Longrightarrow> \<exists>t v'. s_fd t = device_open w (''/dev/'' @ d) \<and> \<not> s_closed t \<and>
      rlog t = rlog s @ [RequestTimedCallback Callback_initializeCallback 0] \<and>
      s_device_path v' = ''/dev/'' @ d \<and>
      naps v' = naps v @ replicate (length ls) 1 @ replicate (length ws) 10 @ [1] \<and>
      mainLoop (c # cs) (v, s) = seqp (on_ril (waitForClose (others c))) (mainLoop cs) (v', t)"
    and "create_ret c < 0 \<Longrightarrow> \<exists>q. mainLoop (c # cs) (v, s) = Done () q"
proof -
  note opened = open_device_run [OF assms(1,2,4-6,8,9), of ls' ws']
  show "\<exists>q. mainLoop (c # cs) (v, s) = Done () q" if "create_ret c < 0"
    using that opened assms(3,7)
    by (simp add: outcome_simps on_dev_def on_ril_def main_connect_def at_open_def)
  assume "0 \<le> create_ret c"
  then obtain t where t: "main_connect (device_open w (''/dev/'' @ d)) (create_ret c) s = Done True t"
      "s_fd t = device_open w (''/dev/'' @ d)" "\<not> s_closed t"
      "rlog t = rlog s @ [RequestTimedCallback Callback_initializeCallback 0]"
    using main_connect_run by blast
  show "\<exists>t v'. s_fd t = device_open w (''/dev/'' @ d) \<and> \<not> s_closed t \<and>
      rlog t = rlog s @ [RequestTimedCallback Callback_initializeCallback 0] \<and>
      s_device_path v' = ''/dev/'' @ d \<and>
      naps v' = naps v @ replicate (length ls) 1 @ replicate (length ws) 10 @ [1] \<and>
      mainLoop (c # cs) (v, s) = seqp (on_ril (waitForClose (others c))) (mainLoop cs) (v', t)"
    by (rule exI [of _ t], rule exI, intro conjI t)
      (use opened t(1) assms(3,7) in \<open>simp_all add: outcome_simps on_dev_def on_ril_def nap_def\<close>)
qed

subsection \<open>The main loop is a thread of the system\<close>

lemma reachable_step: "reachable maxApps tech s \<Longrightarrow> ril_step maxApps tech None s t \<Longrightarrow> reachable maxApps tech t"
  by (auto simp: reachable_def intro: ril_run.other)

lemma main_connect_state: "\<exists>b t. main_connect fd cr s = Done b t \<and> \<not> s_closed t"
  by (auto simp: main_connect_def at_open_def RIL_requestTimedCallback_def act_def outcome_simps)

text \<open>
  Whatever devices there are, and whatever the other threads do as long as they stay within the
  system, the loop leaves it in a reachable state: its rounds are steps \<open>connect\<close>.
\<close>

theorem mainLoop_reachable:
  assumes "reachable maxApps tech s" "s_closed s \<or> s_fd s = -1"
    and "\<forall>c \<in> set cs. \<forall>s. reachable maxApps tech s \<longrightarrow> reachable maxApps tech (outcome_state (others c s))"
  shows "reachable maxApps tech (snd (outcome_state (mainLoop cs (v, s))))"
  using assms
proof (induction cs arbitrary: v s)
  case (Cons c cs)
  show ?case
  proof (cases "open_device (searches c) (attempts c) v")
    case (Done fd v')
    obtain b t where t: "main_connect fd (create_ret c) s = Done b t"
      using main_connect_state by blast
    then have reach: "reachable maxApps tech t"
      using reachable_step [OF Cons.prems(1)] ril_step.connect [OF Cons.prems(2) t] by blast
    then have rest: "reachable maxApps tech (outcome_state (others c t))"
      using Cons.prems(3) by simp
    let ?v = "v'\<lparr>naps := naps v' @ [1]\<rparr>"
    have run: "mainLoop (c # cs) (v, s) =
        (if b then seqp (on_ril (waitForClose (others c))) (mainLoop cs) (?v, t) else Done () (v', t))"
      using Done t by (simp add: outcome_simps on_dev_def on_ril_def nap_def)
    have "reachable maxApps tech (snd (outcome_state (seqp (on_ril (waitForClose (others c))) (mainLoop cs) (?v, t))))"
    proof (cases "others c t")
      case (Done x u)
      then show ?thesis
        using rest Cons.IH [of u ?v] Cons.prems(3)
        by (cases "s_closed u") (simp_all add: outcome_simps on_ril_def waitForClose_def)
    qed (use rest in \<open>simp_all add: outcome_simps on_ril_def waitForClose_def\<close>)
    then show ?thesis using run reach by simp
  qed (use Cons.prems(1) in \<open>simp_all add: outcome_simps on_dev_def\<close>)
qed simp

text \<open>The reader finding the end of the file is a step of the system, and closes the channel.\<close>

lemma reader_closes:
  assumes "\<not> self_reader s"
  shows "reader_event ril_cb Closed s = Done () (if s_readerClosed s then s else closed_state s)"
proof -
  have "s\<lparr>self_reader := False\<rparr> = s" using assms by simp
  then show ?thesis
    by (auto simp: as_reader_def onReaderClosed_def ril_cb_def onATReaderClosed_apply closed_state_def outcome_simps Let_def)
qed

lemma reader_closed_reachable:
  assumes "reachable maxApps tech s"
  shows "reachable maxApps tech (outcome_state (reader_event ril_cb Closed s))"
proof -
  have "\<not> self_reader s" using reachable_system_ok [OF assms] by (simp add: system_ok_def)
  then have d: "reader_event ril_cb Closed s = Done () (if s_readerClosed s then s else closed_state s)"
    by (rule reader_closes)
  show ?thesis
    using reachable_step [OF assms ril_step.reader [OF d]] unfolding d by simp
qed

end
