(* ===== verification/ChatText.thy ===== *)
theory ChatText
  imports CLib "HOL-Library.Sublist"
begin

section \<open>chat.c: the strings of a script\<close>

text \<open>
  \<open>clean\<close> translates the escapes of a script string into the bytes to send or to expect.  It
  writes into a block of the heap that it allocates and enlarges: the record \<open>cleaner\<close> holds
  what has been written, how many bytes the block has, and the two flags the function sets.
  A write behind the block is the fault \<open>OutOfBounds\<close>.  What the command line has set
  and what the program finds around it is the record \<open>invocation\<close>.
\<close>

record invocation =
  use_env :: bool
  phone_num :: "string option"
  phone_num2 :: "string option"
  chat_file :: "string option"
  report_file :: "string option"
  environ :: "string \<Rightarrow> string option"     \<comment> \<open>\<open>getenv\<close>\<close>
  file_text :: "string \<Rightarrow> string option"   \<comment> \<open>what is in a file, \<open>None\<close> if it cannot be opened\<close>
  now_text :: string                         \<comment> \<open>the time as \<open>strftime\<close> prints it\<close>
  tty_get :: bool                            \<comment> \<open>\<open>tcgetattr\<close> succeeds\<close>
  tty_set :: bool                            \<comment> \<open>\<open>tcsetattr\<close> succeeds at the start\<close>
  tty_restore :: bool                        \<comment> \<open>and at the end\<close>

record cleaner =
  written :: string
  room :: nat
  add_return :: bool
  hide :: bool                               \<comment> \<open>the variable \<open>quiet\<close> is set\<close>

abbreviation Backslash :: char where "Backslash \<equiv> CHR 0x5C"

definition isoctal :: "char \<Rightarrow> bool" where
  "isoctal c \<longleftrightarrow> 48 \<le> code c \<and> code c \<le> 55"

definition isalnumx :: "char \<Rightarrow> bool" where
  "isalnumx c \<longleftrightarrow> isdigit c \<or> (97 \<le> code c \<and> code c \<le> 122) \<or> (65 \<le> code c \<and> code c \<le> 90) \<or> c = CHR ''_''"

subsection \<open>clean\<close>

definition emit :: "char \<Rightarrow> (cleaner, unit) prog" where
  "emit c = bindp (getp (\<lambda>k. length (written k) < room k)) (\<lambda>fits.
     if fits then modp (\<lambda>k. k\<lparr>written := written k @ [c]\<rparr>) else failp OutOfBounds)"

fun emits :: "string \<Rightarrow> (cleaner, unit) prog" where
  "emits [] = ret ()"
| "emits (c # cs) = seqp (emit c) (emits cs)"

text \<open>\<open>grow\<close>, then the copy: \<open>realloc\<close> does not fail.\<close>

definition insert_text :: "string \<Rightarrow> (cleaner, unit) prog" where
  "insert_text t = seqp (modp (\<lambda>k. k\<lparr>room := room k + length t\<rparr>)) (emits t)"

definition octal_digits :: "string \<Rightarrow> string" where
  "octal_digits s = takeWhile isoctal (take 2 s)"

text \<open>\<open>cur_chr\<close> is a \<open>char\<close>: every shift is cut to eight bits.\<close>

definition octal_char :: "char \<Rightarrow> string \<Rightarrow> char" where
  "octal_char c s = char_of (foldl (\<lambda>v d. (v * 8 + code d mod 8) mod 256) (code c mod 8) (octal_digits s))"

text \<open>What follows an escape; an octal number takes up to two more characters.\<close>

definition escape_rest :: "char \<Rightarrow> string \<Rightarrow> string" where
  "escape_rest c s = (if isoctal c then drop (length (octal_digits s)) s else s)"

definition phone_escape :: "bool \<Rightarrow> string option \<Rightarrow> char \<Rightarrow> (cleaner, unit) prog" where
  "phone_escape sending number c = (case number of
      Some t \<Rightarrow> if sending then insert_text t else emits [Backslash, c]
    | None \<Rightarrow> emits [Backslash, c])"

definition default_escape :: "bool \<Rightarrow> char \<Rightarrow> string \<Rightarrow> (cleaner, unit) prog" where
  "default_escape sending c s =
     (if isoctal c then
        (let e = octal_char c s
         in if e \<noteq> NUL \<or> sending
            then seqp (if sending \<and> (e = Backslash \<or> e = NUL) then emit Backslash else ret ()) (emit e)
            else ret ())
      else seqp (if sending then emit Backslash else ret ()) (emit c))"

text \<open>The \<open>switch\<close>: \<open>c\<close> is the character behind the backslash, \<open>s\<close> what follows it.\<close>

definition clean_escape :: "invocation \<Rightarrow> bool \<Rightarrow> char \<Rightarrow> string \<Rightarrow> (cleaner, unit) prog" where
  "clean_escape iv sending c s =
     (if c = CHR ''b'' then emit CHR 0x08
      else if c = CHR ''c'' then
        (if sending \<and> s = [] then modp (\<lambda>k. k\<lparr>add_return := False\<rparr>) else emit c)
      else if c \<in> {Backslash, CHR ''K'', CHR ''p'', CHR ''d''} then
        seqp (if sending then emit Backslash else ret ()) (emit c)
      else if c = CHR ''T'' then phone_escape sending (phone_num iv) c
      else if c = CHR ''U'' then phone_escape sending (phone_num2 iv) c
      else if c = CHR ''q'' then modp (\<lambda>k. k\<lparr>hide := True\<rparr>)
      else if c = CHR ''r'' then emit CHR 0x0D
      else if c = CHR ''n'' then emit CHR 0x0A
      else if c = CHR ''s'' then emit CHR '' ''
      else if c = CHR ''t'' then emit CHR 0x09
      else if c = CHR ''N'' then (if sending then emits [Backslash, NUL] else emit c)
      else if c = CHR ''$'' \<and> use_env iv then emit c
      else default_escape sending c s)"

definition control_char :: "char \<Rightarrow> char" where
  "control_char c = char_of (code c mod 32)"

function clean_loop :: "invocation \<Rightarrow> bool \<Rightarrow> string \<Rightarrow> (cleaner, unit) prog" where
  "clean_loop iv sending [] = ret ()"
| "clean_loop iv sending (c # s) =
     (if c = CHR ''^'' then
        (case s of
           [] \<Rightarrow> emit CHR ''^''
         | d # s' \<Rightarrow> seqp (if control_char d \<noteq> NUL then emit (control_char d) else ret ()) (clean_loop iv sending s'))
      else if use_env iv \<and> c = CHR ''$'' then
        seqp (case environ iv (takeWhile isalnumx s) of Some t \<Rightarrow> insert_text t | None \<Rightarrow> ret ())
          (clean_loop iv sending (dropWhile isalnumx s))
      else if c \<noteq> Backslash then seqp (emit c) (clean_loop iv sending s)
      else (case s of
         [] \<Rightarrow> if sending then emits [Backslash, Backslash] else ret ()
       | d # s' \<Rightarrow> seqp (clean_escape iv sending d s') (clean_loop iv sending (escape_rest d s'))))"
  by pat_completeness auto

termination
  by (relation "measure (\<lambda>(iv, sending, s). length s)")
    (auto simp: escape_rest_def less_Suc_eq_le le_trans [OF length_dropWhile_le])

declare clean_loop.simps [simp del]

text \<open>The terminating NUL is part of what is written.\<close>

definition clean :: "invocation \<Rightarrow> string \<Rightarrow> bool \<Rightarrow> (cleaner, unit) outcome" where
  "clean iv s sending =
     seqp (clean_loop iv sending s)
       (bindp (getp add_return) (\<lambda>r. seqp (if r then emit CHR 0x0D else ret ()) (emit NUL)))
       \<lparr>written = [], room = length s + 3, add_return = sending, hide = False\<rparr>"

subsection \<open>expect_strtok\<close>

text \<open>
  The loop over the characters up to the terminator, which is consumed; the flag is
  \<open>escape_flag\<close>.  The result is the text passed and the text \<open>str\<close> then points to.
\<close>

fun strtok_loop :: "string \<Rightarrow> bool \<Rightarrow> string \<Rightarrow> string \<times> string" where
  "strtok_loop terms escaped [] = ([], [])"
| "strtok_loop terms escaped (c # cs) =
     (if escaped then apfst ((#) c) (strtok_loop terms False cs)
      else if c = Backslash then apfst ((#) c) (strtok_loop terms True cs)
      else if c \<notin> set terms then apfst ((#) c) (strtok_loop terms False cs)
      else ([], cs))"

definition expect_strtok :: "string \<Rightarrow> string \<Rightarrow> string option \<times> string" where
  "expect_strtok str terms =
     (let (token, rest) = strtok_loop terms False str
      in (if str = [] then None else Some token, rest))"

subsection \<open>character\<close>

definition character :: "nat \<Rightarrow> string" where
  "character c =
     (let meta = (if c mod 256 \<ge> 128 then ''M-'' else []);
          d = c mod 128
      in if d < 32 then meta @ [CHR ''^'', char_of (d + 64)]
         else if d = 127 then meta @ ''^?''
         else meta @ [char_of d])"

subsection \<open>pack_array\<close>

text \<open>
  The pointers of an array of strings; both loops work on the part below \<open>end\<close>.
\<close>

fun pack_move :: "nat \<Rightarrow> nat \<Rightarrow> nat \<Rightarrow> string option list \<Rightarrow> nat \<times> string option list" where
  "pack_move 0 i j xs = (i, xs)"
| "pack_move (Suc n) i j xs =
     (if xs ! j \<noteq> None then pack_move n (Suc i) (Suc j) (xs[i := xs ! j])
      else pack_move n i (Suc j) xs)"

fun pack_fill :: "nat \<Rightarrow> nat \<Rightarrow> string option list \<Rightarrow> string option list" where
  "pack_fill 0 i xs = xs"
| "pack_fill (Suc n) i xs = pack_fill n (Suc i) (xs[i := None])"

fun pack_from :: "nat \<Rightarrow> nat \<Rightarrow> string option list \<Rightarrow> string option list" where
  "pack_from 0 i xs = xs"
| "pack_from (Suc n) i xs =
     (if xs ! i = None
      then (let (k, ys) = pack_move n i (Suc i) xs in pack_fill (i + Suc n - k) k ys)
      else pack_from n (Suc i) xs)"

definition pack_array :: "string option list \<Rightarrow> nat \<Rightarrow> string option list" where
  "pack_array xs n = pack_from n 0 xs"

subsection \<open>The block that \<open>clean\<close> fills is large enough\<close>

text \<open>
  \<open>well_escaped t\<close>: read from the start, with a backslash taking the character behind it, \<open>t\<close>
  ends outside an escape, and a NUL occurs only inside one.
\<close>

fun esc_run :: "bool \<Rightarrow> string \<Rightarrow> bool option" where
  "esc_run b [] = Some b"
| "esc_run b (c # cs) =
     (if b then esc_run False cs
      else if c = Backslash then esc_run True cs
      else if c = NUL then None
      else esc_run False cs)"

definition well_escaped :: "string \<Rightarrow> bool" where
  "well_escaped t \<longleftrightarrow> esc_run False t = Some False"

lemma esc_run_append: "esc_run b (s @ t) = Option.bind (esc_run b s) (\<lambda>b'. esc_run b' t)"
  by (induction b s rule: esc_run.induct) auto

lemma well_escaped_append: "well_escaped s \<Longrightarrow> well_escaped t \<Longrightarrow> well_escaped (s @ t)"
  by (simp add: well_escaped_def esc_run_append)

lemma well_escaped_Nil [simp]: "well_escaped []"
  by (simp add: well_escaped_def)

lemma well_escaped_plain [simp]: "well_escaped [c] \<longleftrightarrow> c \<noteq> Backslash \<and> c \<noteq> NUL"
  by (simp add: well_escaped_def)

lemma well_escaped_pair [simp]: "well_escaped [Backslash, c]"
  by (simp add: well_escaped_def)

text \<open>What is inserted into a string, numbers and variables of the environment.\<close>

definition insertions_ok :: "invocation \<Rightarrow> bool" where
  "insertions_ok iv \<longleftrightarrow> (\<forall>t. phone_num iv = Some t \<longrightarrow> well_escaped t) \<and>
     (\<forall>t. phone_num2 iv = Some t \<longrightarrow> well_escaped t) \<and>
     (use_env iv \<longrightarrow> (\<forall>x t. environ iv x = Some t \<longrightarrow> well_escaped t))"

definition clean_inv :: "invocation \<Rightarrow> bool \<Rightarrow> nat \<Rightarrow> cleaner \<Rightarrow> bool" where
  "clean_inv iv sending n k \<longleftrightarrow> length (written k) + n \<le> room k \<and>
     (sending \<and> insertions_ok iv \<longrightarrow> well_escaped (written k))"

definition cleans :: "invocation \<Rightarrow> bool \<Rightarrow> (cleaner, unit) prog \<Rightarrow> nat \<Rightarrow> nat \<Rightarrow> bool" where
  "cleans iv sending m i n \<longleftrightarrow>
     (\<forall>k. clean_inv iv sending i k \<longrightarrow> safe False m k (\<lambda>_. clean_inv iv sending n))"

lemma emits_Done:
  "length (written k) + length t \<le> room k \<Longrightarrow> emits t k = Done () (k\<lparr>written := written k @ t\<rparr>)"
  by (induction t arbitrary: k) (simp_all add: emit_def outcome_simps)

lemma emit_emits: "emit c = emits [c]"
  by (simp add: emit_def fun_eq_iff outcome_simps)

lemma emit2_emits: "seqp (if b then emit x else ret ()) (emit c) = emits ((if b then [x] else []) @ [c])"
  by (simp add: emit_def fun_eq_iff outcome_simps)

declare emits.simps [simp del]

lemma cleans_emits:
  "(sending \<Longrightarrow> insertions_ok iv \<Longrightarrow> well_escaped t) \<Longrightarrow> length t + n \<le> i \<Longrightarrow> cleans iv sending (emits t) i n"
  by (auto simp: cleans_def clean_inv_def emits_Done safe_Done intro!: well_escaped_append)

lemma cleans_insert:
  "(sending \<Longrightarrow> insertions_ok iv \<Longrightarrow> well_escaped t) \<Longrightarrow> n \<le> i \<Longrightarrow> cleans iv sending (insert_text t) i n"
  by (auto simp: cleans_def insert_text_def clean_inv_def emits_Done safe_Done intro!: well_escaped_append)

lemma cleans_ret: "n \<le> i \<Longrightarrow> cleans iv sending (ret ()) i n"
  by (simp add: cleans_def clean_inv_def)

lemma cleans_flag:
  "n \<le> i \<Longrightarrow> cleans iv sending (modp (\<lambda>k. k\<lparr>add_return := b\<rparr>)) i n"
  "n \<le> i \<Longrightarrow> cleans iv sending (modp (\<lambda>k. k\<lparr>hide := b\<rparr>)) i n"
  by (simp_all add: cleans_def clean_inv_def)

lemma cleans_seq: "cleans iv sending m i j \<Longrightarrow> cleans iv sending m' j n \<Longrightarrow> cleans iv sending (seqp m m') i n"
  by (auto simp: cleans_def intro: safe_seq)

lemma cleans_if:
  "(b \<Longrightarrow> cleans iv sending m i n) \<Longrightarrow> (\<not> b \<Longrightarrow> cleans iv sending m' i n) \<Longrightarrow>
   cleans iv sending (if b then m else m') i n"
  by simp

lemmas cleans_rules = cleans_if cleans_emits cleans_insert cleans_ret cleans_flag

lemma cleans_phone:
  assumes "\<And>t. insertions_ok iv \<Longrightarrow> x = Some t \<Longrightarrow> well_escaped t"
  shows "cleans iv sending (phone_escape sending x c) (n + 2) n"
  using assms by (cases x) (auto simp: phone_escape_def intro!: cleans_rules)

lemma cleans_escaped:
  assumes "sending \<Longrightarrow> p \<or> e \<noteq> Backslash \<and> e \<noteq> NUL"
  shows "cleans iv sending (emits ((if p then [Backslash] else []) @ [e])) (n + 2) n"
proof (cases p)
  case True
  then show ?thesis by (auto intro!: cleans_emits)
next
  case False
  with assms show ?thesis by (auto intro!: cleans_emits)
qed

lemma cleans_default: "c \<noteq> NUL \<Longrightarrow> cleans iv sending (default_escape sending c s) (n + 2) n"
  unfolding default_escape_def Let_def emit2_emits
  by (intro cleans_if cleans_escaped cleans_ret) (blast | simp)+

lemma cleans_escape:
  assumes "c \<noteq> NUL"
  shows "cleans iv sending (clean_escape iv sending c s) (n + 2) n"
  unfolding clean_escape_def emit2_emits
  unfolding emit_emits
  by (intro cleans_if cleans_escaped cleans_phone cleans_default cleans_emits cleans_flag)
    (use assms in \<open>auto simp: insertions_ok_def\<close>)

lemma set_escape_rest: "set (escape_rest c s) \<subseteq> set s"
  by (auto simp: escape_rest_def dest: in_set_dropD)

lemma escape_rest_length: "length (escape_rest c s) \<le> length s"
  by (simp add: escape_rest_def)

lemma cleans_mono:
  assumes m: "cleans iv sending m i n" and "i \<le> i'" "n' \<le> n"
  shows "cleans iv sending m i' n'"
  unfolding cleans_def
proof (intro allI impI)
  fix k
  assume "clean_inv iv sending i' k"
  with \<open>i \<le> i'\<close> have "clean_inv iv sending i k" by (simp add: clean_inv_def)
  with m have "safe False m k (\<lambda>_. clean_inv iv sending n)" by (simp add: cleans_def)
  then show "safe False m k (\<lambda>_. clean_inv iv sending n')"
    by (rule safe_mono) (use \<open>n' \<le> n\<close> in \<open>simp add: clean_inv_def\<close>)
qed

lemma control_char_plain: "control_char c \<noteq> Backslash"
proof
  assume "control_char c = Backslash"
  then have "code (control_char c) = 92" by (simp add: code_def)
  moreover have "code (control_char c) < 32" by (simp add: control_char_def code_def of_char_of)
  ultimately show False by simp
qed

lemma cleans_control:
  "cleans iv sending (if control_char d \<noteq> NUL then emits [control_char d] else ret ()) (n + 2) n"
  using control_char_plain [of d] by (intro cleans_if cleans_emits cleans_ret) auto

lemma cleans_variable:
  "use_env iv \<Longrightarrow> n \<le> i \<Longrightarrow>
   cleans iv sending (case environ iv x of Some t \<Rightarrow> insert_text t | None \<Rightarrow> ret ()) i n"
  by (auto simp: insertions_ok_def split: option.split intro!: cleans_insert cleans_ret)

text \<open>Two more bytes are left after the loop, the carriage return and the NUL.\<close>

lemma cleans_loop:
  "NUL \<notin> set s \<Longrightarrow> cleans iv sending (clean_loop iv sending s) (length s + 3) 2"
proof (induction iv sending s rule: clean_loop.induct)
  case (1 iv sending)
  show ?case by (simp add: clean_loop.simps cleans_ret)
next
  case (2 iv sending c s)
  have c: "c \<noteq> NUL" and s: "NUL \<notin> set s" using "2.prems" by auto
  consider (hat) "c = CHR ''^''" | (env) "c \<noteq> CHR ''^''" "use_env iv" "c = CHR ''$''"
    | (plain) "c \<noteq> CHR ''^''" "\<not> (use_env iv \<and> c = CHR ''$'')" "c \<noteq> Backslash" | (esc) "c = Backslash"
    by blast
  then show ?case
  proof cases
    case hat
    show ?thesis
    proof (cases s)
      case Nil
      have "cleans iv sending (emits [c]) (length (c # s) + 3) 2"
        using hat by (auto intro!: cleans_emits)
      with hat Nil show ?thesis by (simp add: clean_loop.simps emit_emits)
    next
      case (Cons d s')
      have IH: "cleans iv sending (clean_loop iv sending s') (length s' + 3) 2"
        using "2.IH"(1) hat Cons s by auto
      from cleans_seq [OF cleans_control [of _ _ d "length s' + 3"] IH] hat Cons show ?thesis
        by (simp add: clean_loop.simps emit_emits split: if_splits)
    qed
  next
    case env
    have IH: "cleans iv sending (clean_loop iv sending (dropWhile isalnumx s)) (length (dropWhile isalnumx s) + 3) 2"
      using "2.IH"(2) env s by (auto dest: set_dropWhileD)
    have "length (dropWhile isalnumx s) + 3 \<le> length (c # s) + 3"
      using length_dropWhile_le [of isalnumx s] by simp
    from cleans_seq [OF cleans_variable [OF env(2) this] IH] env show ?thesis by (simp add: clean_loop.simps)
  next
    case plain
    have IH: "cleans iv sending (clean_loop iv sending s) (length s + 3) 2"
      using "2.IH"(3) plain s by auto
    have "cleans iv sending (emits [c]) (length (c # s) + 3) (length s + 3)"
      using plain c by (auto intro!: cleans_emits)
    from cleans_seq [OF this IH] plain show ?thesis by (auto simp: clean_loop.simps emit_emits)
  next
    case esc
    show ?thesis
    proof (cases s)
      case Nil
      have "cleans iv sending (if sending then emits [Backslash, Backslash] else ret ()) 4 2"
        by (intro cleans_if cleans_emits cleans_ret) auto
      with esc Nil show ?thesis by (simp add: clean_loop.simps)
    next
      case (Cons d s')
      have d: "d \<noteq> NUL" "NUL \<notin> set (escape_rest d s')"
        using s Cons set_escape_rest [of d s'] by auto
      have IH: "cleans iv sending (clean_loop iv sending (escape_rest d s')) (length (escape_rest d s') + 3) 2"
        using "2.IH"(4) esc Cons d by auto
      have "cleans iv sending (clean_escape iv sending d s') (length (c # s) + 3) (length (escape_rest d s') + 3)"
        by (rule cleans_mono [OF cleans_escape [OF d(1), of iv sending s' "length s' + 3"]])
          (use Cons escape_rest_length [of d s'] in auto)
      from cleans_seq [OF this IH] esc Cons show ?thesis by (simp add: clean_loop.simps)
    qed
  qed
qed

text \<open>
  \<open>clean\<close> always fits; the text to be sent is well escaped up to its last NUL if what is
  inserted into it is.
\<close>

lemma clean_works:
  assumes "NUL \<notin> set s"
  shows "\<exists>k t. clean iv s sending = Done () k \<and> written k = t @ [NUL] \<and> length (written k) \<le> room k \<and>
    (sending \<and> insertions_ok iv \<longrightarrow> well_escaped t)"
proof -
  let ?k = "\<lparr>written = [], room = length s + 3, add_return = sending, hide = False\<rparr>"
  have "clean_inv iv sending (length s + 3) ?k" by (simp add: clean_inv_def)
  then have "safe False (clean_loop iv sending s) ?k (\<lambda>_. clean_inv iv sending 2)"
    using cleans_loop [OF assms] by (simp add: cleans_def)
  then obtain k where k: "clean_loop iv sending s ?k = Done () k" "clean_inv iv sending 2 k"
    by (auto simp: safe_total)
  show ?thesis
  proof (cases "add_return k")
    case True
    then have "clean iv s sending = Done () (k\<lparr>written := written k @ [CHR 0x0D] @ [NUL]\<rparr>)"
      using k by (simp add: clean_def outcome_simps emit_emits emits_Done clean_inv_def)
    moreover have "sending \<and> insertions_ok iv \<longrightarrow> well_escaped (written k @ [CHR 0x0D])"
      using k(2) by (auto simp: clean_inv_def intro!: well_escaped_append)
    ultimately show ?thesis using k(2) by (auto simp: clean_inv_def)
  next
    case False
    then have "clean iv s sending = Done () (k\<lparr>written := written k @ [NUL]\<rparr>)"
      using k by (simp add: clean_def outcome_simps emit_emits emits_Done clean_inv_def)
    then show ?thesis using k(2) by (auto simp: clean_inv_def)
  qed
qed

subsection \<open>What \<open>pack_array\<close> does\<close>

abbreviation kept :: "string option list \<Rightarrow> string option list" where
  "kept \<equiv> filter (\<lambda>x. x \<noteq> None)"

lemma take_drop_Suc: "j < length xs \<Longrightarrow> take (Suc n) (drop j xs) = xs ! j # take n (drop (Suc j) xs)"
  by (simp add: Cons_nth_drop_Suc [symmetric])

lemma pack_move_kept:
  assumes "pack_move n i j xs = (k, ys)" and "i < j" and "j + n \<le> length xs"
  shows "k = i + length (kept (take n (drop j xs))) \<and> length ys = length xs \<and>
    take k ys = take i xs @ kept (take n (drop j xs)) \<and> drop (j + n) ys = drop (j + n) xs"
  using assms
proof (induction n i j xs rule: pack_move.induct)
  case (2 n i j xs)
  have j: "j < length xs" using "2.prems" by simp
  show ?case
  proof (cases "xs ! j")
    case None
    with 2 j show ?thesis by (auto simp: take_drop_Suc)
  next
    case (Some a)
    have i: "take (Suc i) (xs[i := xs ! j]) = take i xs @ [xs ! j]"
      using "2.prems"(2) j by (simp add: take_Suc_conv_app_nth)
    with 2 j Some show ?thesis by (auto simp: take_drop_Suc)
  qed
qed auto

lemma pack_fill_None: "i + n \<le> length xs \<Longrightarrow> pack_fill n i xs = take i xs @ replicate n None @ drop (i + n) xs"
proof (induction n i xs rule: pack_fill.induct)
  case (2 n i xs)
  then have "take (Suc i) (xs[i := None]) = take i xs @ [None]"
    by (simp add: take_Suc_conv_app_nth)
  with 2 show ?case by simp
qed simp

lemma pack_from_kept:
  "i + n \<le> length xs \<Longrightarrow> pack_from n i xs = take i xs @ kept (take n (drop i xs)) @
     replicate (n - length (kept (take n (drop i xs)))) None @ drop (i + n) xs"
proof (induction n i xs rule: pack_from.induct)
  case (2 n i xs)
  have i: "i < length xs" using "2.prems" by simp
  show ?case
  proof (cases "xs ! i")
    case None
    obtain k ys where m: "pack_move n i (Suc i) xs = (k, ys)" by fastforce
    note kept = pack_move_kept [OF m]
    have le: "length (kept (take n (drop (Suc i) xs))) \<le> n"
      by (rule le_trans [OF length_filter_le]) simp
    have "pack_fill (i + Suc n - k) k ys = take k ys @ replicate (i + Suc n - k) None @ drop (i + Suc n) ys"
      using kept "2.prems" le by (subst pack_fill_None) auto
    then show ?thesis
      using None m kept "2.prems" i le by (auto simp: take_drop_Suc)
  next
    case (Some a)
    have "take (Suc i) xs = take i xs @ [xs ! i]"
      using i by (simp add: take_Suc_conv_app_nth)
    with 2 Some i show ?thesis by (simp add: take_drop_Suc)
  qed
qed simp

lemma pack_array_kept:
  "n \<le> length xs \<Longrightarrow> pack_array xs n = kept (take n xs) @
     replicate (n - length (kept (take n xs))) None @ drop n xs"
  using pack_from_kept [of 0 n xs] by (simp add: pack_array_def)

end
