(* ===== verification/ChatProg.thy ===== *)
theory ChatProg
  imports ChatText
begin

section \<open>chat.c: running a script\<close>

text \<open>
  The static variables of \<open>chat.c\<close> are the record \<open>chat_vars\<close>.  The modem is data: \<open>stdin\<close> is
  what the successive calls of \<open>read\<close> return, a byte or nothing, with whether the alarm
  rings meanwhile; when it is used up, nothing more arrives until the alarm rings.
  \<open>rings\<close> says for each pause and each write whether the alarm rings in it, \<open>writes\<close> whether
  each write succeeds; used up, there is no ringing and every write succeeds.  The effects
  are listed in \<open>trail\<close>.  \<open>fcntl\<close> does not fail, and the messages for the system log
  are left out.

  \<open>exit\<close> is a result: \<open>Inl n\<close> is a program that has ended with status \<open>n\<close>.
\<close>

subsection \<open>State\<close>

datatype chat_act =
    Out char                     \<comment> \<open>a byte to the modem\<close>
  | Err string                   \<comment> \<open>text on the standard error\<close>
  | Break_sent
  | Pause nat                    \<comment> \<open>microseconds\<close>
  | Report_line string
  | Report_closed
  | Sighup bool                  \<comment> \<open>is SIGHUP handled?\<close>
  | Tty_set
  | Tty_restored

record chat_vars =
  echo :: bool
  Verbose :: bool
  exit_code :: int
  chat_timeout :: int
  have_tty_parameters :: bool
  abort_string :: "string option list"
  n_aborts :: nat
  fail_reason :: "string option"
  report_string :: "string option list"
  n_reports :: nat
  report_buffer :: string
  report_gathering :: bool
  abort_next :: bool
  timeout_next :: bool
  echo_next :: bool
  clear_abort_next :: bool
  report_next :: bool
  clear_report_next :: bool
  say_next :: bool
  hup_next :: bool
  quiet_flag :: bool
  alarm_set :: bool
  alarmed :: bool
  terminating :: bool
  need_lf :: bool
  stdin :: "(bool \<times> char option) list"
  rings :: "bool list"
  writes :: "bool list"
  trail :: "chat_act list"

type_synonym 'a chatp = "(chat_vars, int + 'a) prog"

definition STR_LEN :: nat where "STR_LEN = 1024"
definition MAX_ABORTS :: nat where "MAX_ABORTS = 50"
definition MAX_REPORTS :: nat where "MAX_REPORTS = 50"
definition DEFAULT_CHAT_TIMEOUT :: int where "DEFAULT_CHAT_TIMEOUT = 45"
definition FAIL_BUFFER :: nat where "FAIL_BUFFER = 50"      \<comment> \<open>\<open>sizeof(fail_buffer)\<close>\<close>
definition REPORT_BUFFER :: nat where "REPORT_BUFFER = 256" \<comment> \<open>\<open>sizeof(report_buffer)\<close>\<close>

lemmas chat_sizes = STR_LEN_def MAX_ABORTS_def MAX_REPORTS_def FAIL_BUFFER_def REPORT_BUFFER_def

subsection \<open>Programs that may exit\<close>

definition goon :: "'a \<Rightarrow> 'a chatp" where
  "goon x = ret (Inr x)"

definition bindx :: "'a chatp \<Rightarrow> ('a \<Rightarrow> 'b chatp) \<Rightarrow> 'b chatp" where
  "bindx m f = bindp m (\<lambda>r. case r of Inl n \<Rightarrow> ret (Inl n) | Inr x \<Rightarrow> f x)"

definition seqx :: "unit chatp \<Rightarrow> 'b chatp \<Rightarrow> 'b chatp" where
  "seqx m n = bindx m (\<lambda>_. n)"

definition liftx :: "(chat_vars, 'a) prog \<Rightarrow> 'a chatp" where
  "liftx m = bindp m goon"

definition log_act :: "chat_act \<Rightarrow> (chat_vars, unit) prog" where
  "log_act a = modp (\<lambda>s. s\<lparr>trail := trail s @ [a]\<rparr>)"

subsection \<open>Alarms, reading and writing\<close>

text \<open>\<open>alarm(0)\<close> cancels the alarm.  The handler sets \<open>alarmed\<close>, and rearms the alarm.\<close>

definition alarm :: "int \<Rightarrow> (chat_vars, unit) prog" where
  "alarm n = modp (\<lambda>s. s\<lparr>alarm_set := (n \<noteq> 0)\<rparr>)"

definition clear_alarmed :: "(chat_vars, unit) prog" where
  "clear_alarmed = modp (\<lambda>s. s\<lparr>alarmed := False\<rparr>)"

definition sigalrm :: "bool \<Rightarrow> (chat_vars, unit) prog" where
  "sigalrm rang = modp (\<lambda>s. s\<lparr>alarmed := alarmed s \<or> rang \<and> alarm_set s\<rparr>)"

definition time_passes :: "(chat_vars, unit) prog" where
  "time_passes = bindp (getp rings) (\<lambda>rs. case rs of
     [] \<Rightarrow> ret ()
   | r # rs' \<Rightarrow> seqp (modp (\<lambda>s. s\<lparr>rings := rs'\<rparr>)) (sigalrm r))"

definition wait_us :: "nat \<Rightarrow> (chat_vars, unit) prog" where
  "wait_us n = seqp (log_act (Pause n)) time_passes"

definition get_char :: "(chat_vars, int) prog" where
  "get_char = bindp (getp id) (\<lambda>s. case stdin s of
     [] \<Rightarrow> if alarm_set s then seqp (sigalrm True) (ret (-1)) else (\<lambda>t. Blocked t)
   | (rang, b) # es \<Rightarrow> seqp (modp (\<lambda>s. s\<lparr>stdin := es\<rparr>)) (seqp (sigalrm rang)
       (ret (case b of Some c \<Rightarrow> int (code c mod 128) | None \<Rightarrow> -1))))"

definition put_char :: "char \<Rightarrow> (chat_vars, int) prog" where
  "put_char c = seqp (wait_us 10000) (bindp (getp writes) (\<lambda>ws. case ws of
     [] \<Rightarrow> seqp (log_act (Out c)) (ret 0)
   | ok # ws' \<Rightarrow> seqp (modp (\<lambda>s. s\<lparr>writes := ws'\<rparr>))
       (if ok then seqp (log_act (Out c)) (ret 0) else ret (-1))))"

definition write_char :: "char \<Rightarrow> (chat_vars, bool) prog" where
  "write_char c = bindp (getp alarmed) (\<lambda>a.
     bindp (if a then ret (-1) else put_char c) (\<lambda>r.
       if r < 0 then seqp (alarm 0) (seqp clear_alarmed (ret False)) else ret True))"

definition break_sequence :: "(chat_vars, unit) prog" where
  "break_sequence = seqp (log_act Break_sent) time_passes"

text \<open>
  The loop over the cleaned string.  The bytes of its block behind the terminating NUL have
  never been written: to come there is out of bounds.
\<close>

fun put_loop :: "string \<Rightarrow> (chat_vars, bool) prog" where
  "put_loop [] = failp OutOfBounds"
| "put_loop (c # cs) =
     (if c = NUL then ret True
      else if c \<noteq> Backslash then bindp (write_char c) (\<lambda>ok. if ok then put_loop cs else ret False)
      else (case cs of
         [] \<Rightarrow> failp OutOfBounds
       | d # cs' \<Rightarrow>
           if d = CHR ''d'' then seqp (wait_us 1000000) (put_loop cs')
           else if d = CHR ''K'' then seqp break_sequence (put_loop cs')
           else if d = CHR ''p'' then seqp (wait_us 10000) (put_loop cs')
           else bindp (write_char d) (\<lambda>ok. if ok then put_loop cs' else ret False)))"

text \<open>\<open>clean\<close> as the program calls it: it may set \<open>quiet\<close>.\<close>

definition cleaned :: "invocation \<Rightarrow> string \<Rightarrow> bool \<Rightarrow> (chat_vars, string) prog" where
  "cleaned iv t sending = (case clean iv t sending of
      Done _ k \<Rightarrow> seqp (modp (\<lambda>s. s\<lparr>quiet_flag := quiet_flag s \<or> hide k\<rparr>)) (ret (written k))
    | Blocked _ \<Rightarrow> (\<lambda>s. Blocked s)
    | Fault f _ \<Rightarrow> failp f)"

definition put_string :: "invocation \<Rightarrow> string \<Rightarrow> (chat_vars, bool) prog" where
  "put_string iv t = seqp (modp (\<lambda>s. s\<lparr>quiet_flag := False\<rparr>))
     (bindp (cleaned iv t True) (\<lambda>b.
       bindp (getp chat_timeout) (\<lambda>n. seqp (alarm n) (seqp clear_alarmed
         (bindp (put_loop b) (\<lambda>ok.
           if ok then seqp (alarm 0) (seqp clear_alarmed (ret True)) else ret False))))))"

definition echo_stderr :: "int \<Rightarrow> (chat_vars, unit) prog" where
  "echo_stderr n =
     (if n = 13 then ret ()
      else if n = -1 \<or> n = 10 then bindp (getp need_lf) (\<lambda>lf.
        if n = -1 \<and> \<not> lf then ret ()
        else seqp (log_act (Err [CHR 0x0A])) (modp (\<lambda>s. s\<lparr>need_lf := False\<rparr>)))
      else seqp (log_act (Err (character (nat n)))) (modp (\<lambda>s. s\<lparr>need_lf := True\<rparr>)))"

subsection \<open>Ending\<close>

definition iscntrl :: "int \<Rightarrow> bool" where
  "iscntrl c \<longleftrightarrow> c < 32 \<or> c = 127"

text \<open>The rest of the report: the loop has room for one byte too many.\<close>

fun gather_rest :: "nat \<Rightarrow> string \<Rightarrow> (chat_vars, string) prog" where
  "gather_rest 0 b = ret b"
| "gather_rest (Suc n) b = seqp (alarm 1) (bindp get_char (\<lambda>c. seqp (alarm 0)
     (if c < 0 \<or> iscntrl c then ret b else gather_rest n (b @ [char_of (nat c)]))))"

definition finish_report :: "(chat_vars, unit) prog" where
  "finish_report = bindp (getp report_buffer) (\<lambda>b.
     bindp (gather_rest (REPORT_BUFFER - length b) b) (\<lambda>b'.
       if REPORT_BUFFER \<le> length b' then failp OutOfBounds
       else seqp (modp (\<lambda>s. s\<lparr>report_buffer := b'\<rparr>)) (log_act (Report_line b'))))"

text \<open>A failing \<open>tcsetattr\<close> calls \<open>fatal(2)\<close>, which calls \<open>terminate\<close> again and so exits.\<close>

definition terminate :: "invocation \<Rightarrow> int \<Rightarrow> 'a chatp" where
  "terminate iv status = bindp (getp terminating) (\<lambda>again.
     if again then ret (Inl status)
     else seqp (modp (\<lambda>s. s\<lparr>terminating := True\<rparr>)) (seqp (echo_stderr (-1))
       (bindp (getp report_gathering) (\<lambda>g. seqp (if g then finish_report else ret ())
         (seqp (if report_file iv \<noteq> None then log_act Report_closed else ret ())
           (bindp (getp have_tty_parameters) (\<lambda>h.
             if h then (if tty_restore iv then seqp (log_act Tty_restored) (ret (Inl status)) else ret (Inl 2))
             else ret (Inl status))))))))"

definition fatal :: "invocation \<Rightarrow> int \<Rightarrow> 'a chatp" where
  "fatal iv n = terminate iv n"

subsection \<open>get_string\<close>

definition store_fail_reason :: "string \<Rightarrow> (chat_vars, unit) prog" where
  "store_fail_reason t = (if FAIL_BUFFER \<le> length t then failp OutOfBounds
     else modp (\<lambda>s. s\<lparr>fail_reason := Some t\<rparr>))"

definition set_report_buffer :: "string \<Rightarrow> (chat_vars, unit) prog" where
  "set_report_buffer t = (if REPORT_BUFFER \<le> length t then failp OutOfBounds
     else modp (\<lambda>s. s\<lparr>report_buffer := t\<rparr>))"

text \<open>
  \<open>temp\<close> is what the window holds up to \<open>s\<close>.  The loop over the report strings: the first
  one that has just arrived begins a report, and its pointer is cleared.
\<close>

fun find_report :: "string \<Rightarrow> nat \<Rightarrow> string option list \<Rightarrow> (nat \<times> string) option" where
  "find_report temp n [] = None"
| "find_report temp n (r # rs) = (case r of
      Some t \<Rightarrow> if suffix t temp then Some (n, t) else find_report temp (Suc n) rs
    | None \<Rightarrow> find_report temp (Suc n) rs)"

definition gather_report :: "invocation \<Rightarrow> string \<Rightarrow> int \<Rightarrow> (chat_vars, unit) prog" where
  "gather_report iv temp c = bindp (getp id) (\<lambda>s.
     if \<not> report_gathering s then
       (case find_report temp 0 (take (n_reports s) (report_string s)) of
          None \<Rightarrow> ret ()
        | Some (n, t) \<Rightarrow> seqp (set_report_buffer (now_text iv @ t))
            (modp (\<lambda>s. s\<lparr>report_string := (report_string s)[n := None], report_gathering := True\<rparr>)))
     else if \<not> iscntrl c then set_report_buffer (report_buffer s @ [char_of (nat c)])
     else seqp (modp (\<lambda>s. s\<lparr>report_gathering := False\<rparr>)) (log_act (Report_line (report_buffer s))))"

definition print_verbose :: "int \<Rightarrow> (chat_vars, unit) prog" where
  "print_verbose c = bindp (getp Verbose) (\<lambda>v.
     if v \<and> c \<noteq> 13 then log_act (Err (if c = 10 then [CHR 0x0A] else character (nat c))) else ret ())"

text \<open>The loop over the abort strings; a pointer that is NULL is followed.\<close>

fun find_abort :: "string \<Rightarrow> nat \<Rightarrow> string option list \<Rightarrow> (chat_vars, (nat \<times> string) option) prog" where
  "find_abort temp n [] = ret None"
| "find_abort temp n (a # as) = (case a of
      Some t \<Rightarrow> if suffix t temp then ret (Some (n, t)) else find_abort temp (Suc n) as
    | None \<Rightarrow> failp NullDeref)"

definition stop_alarm :: "(chat_vars, unit) prog" where
  "stop_alarm = seqp (alarm 0) clear_alarmed"

text \<open>
  After the loop, and the loop.  The fuel counts the calls of \<open>get_char\<close>; every call but the
  last takes an element of \<open>stdin\<close>.  \<open>memmove\<close> keeps the last \<open>minlen\<close> bytes of a full window.
\<close>

definition timed_out :: "(chat_vars, bool) prog" where
  "timed_out = seqp (alarm 0) (seqp (modp (\<lambda>s. s\<lparr>exit_code := 3, alarmed := False\<rparr>)) (ret False))"

definition slide :: "nat \<Rightarrow> string \<Rightarrow> string" where
  "slide minlen temp = (if STR_LEN \<le> length temp then drop (length temp - minlen) temp else temp)"

fun expect_loop :: "nat \<Rightarrow> invocation \<Rightarrow> string \<Rightarrow> nat \<Rightarrow> string \<Rightarrow> (chat_vars, bool) prog" where
  "expect_loop 0 iv str minlen temp = (\<lambda>s. Blocked s)"
| "expect_loop (Suc n) iv str minlen temp = bindp (getp alarmed) (\<lambda>a.
     if a then timed_out
     else bindp get_char (\<lambda>c.
       if c < 0 then timed_out
       else if STR_LEN \<le> length temp then failp OutOfBounds
       else (let temp = temp @ [char_of (nat c)] in
         bindp (getp echo) (\<lambda>e. seqp (if e then echo_stderr c else ret ())
           (seqp (print_verbose c) (seqp (gather_report iv temp c)
             (if suffix str temp then seqp stop_alarm (ret True)
              else bindp (getp (\<lambda>s. take (n_aborts s) (abort_string s))) (\<lambda>as.
                bindp (find_abort temp 0 as) (\<lambda>r. case r of
                  Some (k, t) \<Rightarrow> seqp stop_alarm (seqp (modp (\<lambda>s. s\<lparr>exit_code := int k + 4\<rparr>))
                    (seqp (store_fail_reason t) (ret False)))
                | None \<Rightarrow> expect_loop n iv str minlen (slide minlen temp))))))))))"

definition get_string :: "invocation \<Rightarrow> string \<Rightarrow> (chat_vars, bool) prog" where
  "get_string iv t = seqp (modp (\<lambda>s. s\<lparr>fail_reason := None\<rparr>))
     (bindp (cleaned iv t False) (\<lambda>b.
       let str = c_string b; len = length str; minlen = max len FAIL_BUFFER - 1
       in if STR_LEN < len then seqp (modp (\<lambda>s. s\<lparr>exit_code := 1\<rparr>)) (ret False)
          else if len = 0 then ret True
          else bindp (getp chat_timeout) (\<lambda>n. seqp (alarm n) (seqp clear_alarmed
            (bindp (getp (\<lambda>s. length (stdin s))) (\<lambda>k. expect_loop (Suc k) iv str minlen []))))))"

subsection \<open>chat_send\<close>

text \<open>A string that \<open>ABORT\<close>, \<open>REPORT\<close> and their opposites accept.\<close>

definition short_string :: "invocation \<Rightarrow> string \<Rightarrow> string chatp" where
  "short_string iv t = bindp (cleaned iv t False) (\<lambda>b.
     let s1 = c_string b
     in if length t < length s1 \<or> FAIL_BUFFER < length s1 + 1 then fatal iv 1 else goon s1)"

definition add_abort :: "invocation \<Rightarrow> string \<Rightarrow> unit chatp" where
  "add_abort iv t = seqx (liftx (modp (\<lambda>s. s\<lparr>abort_next := False\<rparr>)))
     (bindx (liftx (getp n_aborts)) (\<lambda>n.
       if MAX_ABORTS \<le> n then fatal iv 2
       else bindx (short_string iv t) (\<lambda>s1. liftx (modp (\<lambda>s. s\<lparr>
         abort_string := (abort_string s)[n_aborts s := Some s1], n_aborts := n_aborts s + 1\<rparr>)))))"

definition add_report :: "invocation \<Rightarrow> string \<Rightarrow> unit chatp" where
  "add_report iv t = seqx (liftx (modp (\<lambda>s. s\<lparr>report_next := False\<rparr>)))
     (bindx (liftx (getp n_reports)) (\<lambda>n.
       if MAX_REPORTS \<le> n then fatal iv 2
       else bindx (short_string iv t) (\<lambda>s1. liftx (modp (\<lambda>s. s\<lparr>
         report_string := (report_string s)[n_reports s := Some s1], n_reports := n_reports s + 1\<rparr>)))))"

text \<open>
  The loop that clears: \<open>n\<close>, the number of strings, is lowered while the loop runs.  \<open>None\<close>:
  \<open>strcmp\<close> is given a NULL pointer.
\<close>

function clear_loop :: "string \<Rightarrow> nat \<Rightarrow> nat \<Rightarrow> string option list \<Rightarrow> (nat \<times> string option list) option" where
  "clear_loop t i n xs =
     (if i < n then (case xs ! i of
         None \<Rightarrow> None
       | Some a \<Rightarrow> if a = t then clear_loop t (i + 1) (n - 1) (xs[i := None])
                    else clear_loop t (i + 1) n xs)
      else Some (n, xs))"
  by pat_completeness auto

termination
  by (relation "measure (\<lambda>(t, i, n, xs). n - i)") auto

declare clear_loop.simps [simp del]

definition clear_strings :: "string \<Rightarrow> nat \<Rightarrow> string option list \<Rightarrow> (nat \<times> string option list) option" where
  "clear_strings t n xs = (case clear_loop t 0 n xs of
      None \<Rightarrow> None
    | Some (m, ys) \<Rightarrow> Some (m, if m < n then pack_array ys n else ys))"

definition clear_abort :: "invocation \<Rightarrow> string \<Rightarrow> unit chatp" where
  "clear_abort iv t = seqx (liftx (modp (\<lambda>s. s\<lparr>clear_abort_next := False\<rparr>)))
     (bindx (short_string iv t) (\<lambda>s1. liftx (bindp (getp id) (\<lambda>s.
       case clear_strings s1 (n_aborts s) (abort_string s) of
         None \<Rightarrow> failp NullDeref
       | Some (n, xs) \<Rightarrow> modp (\<lambda>s. s\<lparr>n_aborts := n, abort_string := xs\<rparr>)))))"

definition clear_report :: "invocation \<Rightarrow> string \<Rightarrow> unit chatp" where
  "clear_report iv t = seqx (liftx (modp (\<lambda>s. s\<lparr>clear_report_next := False\<rparr>)))
     (bindx (short_string iv t) (\<lambda>s1. liftx (bindp (getp id) (\<lambda>s.
       case clear_strings s1 (n_reports s) (report_string s) of
         None \<Rightarrow> failp NullDeref
       | Some (n, xs) \<Rightarrow> modp (\<lambda>s. s\<lparr>n_reports := n, report_string := xs\<rparr>)))))"

definition set_timeout :: "invocation \<Rightarrow> string \<Rightarrow> unit chatp" where
  "set_timeout iv t = liftx (seqp (modp (\<lambda>s. s\<lparr>timeout_next := False\<rparr>))
     (bindp (cleaned iv t False) (\<lambda>b. let n = atoi (c_string b)
       in modp (\<lambda>s. s\<lparr>chat_timeout := (if n \<le> 0 then DEFAULT_CHAT_TIMEOUT else n)\<rparr>))))"

definition say :: "invocation \<Rightarrow> string \<Rightarrow> unit chatp" where
  "say iv t = liftx (seqp (modp (\<lambda>s. s\<lparr>say_next := False\<rparr>))
     (bindp (cleaned iv t True) (\<lambda>b. log_act (Err (c_string b)))))"

text \<open>The content of a file to be sent: at most 1023 bytes, without a final newline.\<close>

definition file_data :: "string \<Rightarrow> string" where
  "file_data text = (let d = take (STR_LEN - 1) text
     in c_string (if d \<noteq> [] \<and> last d = CHR 0x0A then butlast d else d))"

definition send_file :: "invocation \<Rightarrow> string \<Rightarrow> string chatp" where
  "send_file iv t =
     (if t \<noteq> [] \<and> hd t = CHR ''@''
      then (let fn = dropWhile (\<lambda>c. c = CHR '' '' \<or> c = CHR 0x09) (tl t)
        in if fn = [] then goon t
           else (case file_text iv fn of None \<Rightarrow> fatal iv 1 | Some text \<Rightarrow> goon (file_data text)))
      else goon t)"

definition sent_text :: "string \<Rightarrow> string" where
  "sent_text t = (if t = ''EOT'' then [CHR ''^'', CHR ''D'', Backslash, CHR ''c'']
     else if t = ''BREAK'' then [Backslash, CHR ''K'', Backslash, CHR ''c'']
     else t)"

definition chat_send :: "invocation \<Rightarrow> string \<Rightarrow> unit chatp" where
  "chat_send iv t = bindx (liftx (getp id)) (\<lambda>s.
     if say_next s then say iv t
     else if hup_next s then liftx (seqp (modp (\<lambda>s. s\<lparr>hup_next := False\<rparr>)) (log_act (Sighup (t \<noteq> ''OFF''))))
     else if echo_next s then liftx (modp (\<lambda>s. s\<lparr>echo_next := False, echo := (t = ''ON'')\<rparr>))
     else if abort_next s then add_abort iv t
     else if clear_abort_next s then clear_abort iv t
     else if report_next s then add_report iv t
     else if clear_report_next s then clear_report iv t
     else if timeout_next s then set_timeout iv t
     else bindx (send_file iv t) (\<lambda>u. bindx (liftx (put_string iv (sent_text u))) (\<lambda>ok.
       if ok then goon () else fatal iv 1)))"

subsection \<open>chat_expect\<close>

lemma strtok_loop_rest: "length (snd (strtok_loop terms b s)) \<le> length s"
  by (induction terms b s rule: strtok_loop.induct) (auto intro: le_SucI)

lemma expect_strtok_rest: "expect_strtok s terms = (t, r) \<Longrightarrow> length r \<le> length s"
  using strtok_loop_rest [of terms False s] by (auto simp: expect_strtok_def Let_def split: prod.splits)

lemma strtok_loop_less: "s \<noteq> [] \<Longrightarrow> length (snd (strtok_loop terms False s)) < length s"
  by (cases s) (auto simp: less_Suc_eq_le strtok_loop_rest)

lemma expect_strtok_less: "expect_strtok s terms = (Some t, r) \<Longrightarrow> length r < length s"
  using strtok_loop_less [of s terms]
  by (auto simp: expect_strtok_def Let_def split: prod.splits if_splits)

text \<open>The loop over expectation and sub-reply; \<open>str\<close> is the static variable of \<open>expect_strtok\<close>.\<close>

function expect_rounds :: "invocation \<Rightarrow> string \<Rightarrow> unit chatp" where
  "expect_rounds iv str = (case expect_strtok str ''-'' of
      (None, _) \<Rightarrow> goon ()
    | (Some expect, str1) \<Rightarrow> (case expect_strtok str1 ''-'' of
        (reply, str2) \<Rightarrow> bindx (liftx (get_string iv expect)) (\<lambda>ok.
          if ok then goon ()
          else bindx (liftx (getp exit_code)) (\<lambda>e. case reply of
              None \<Rightarrow> terminate iv e
            | Some r \<Rightarrow> if e \<noteq> 3 then terminate iv e
                else seqx (chat_send iv r) (expect_rounds iv str2)))))"
  by pat_completeness auto

termination
  by (relation "measure (\<lambda>(iv, str). length str)")
    (auto dest!: sym [of "(_, _)"] dest: expect_strtok_less expect_strtok_rest le_less_trans)

declare expect_rounds.simps [simp del]

definition chat_expect :: "invocation \<Rightarrow> string \<Rightarrow> unit chatp" where
  "chat_expect iv t =
     (if t = ''HANGUP'' then liftx (modp (\<lambda>s. s\<lparr>hup_next := True\<rparr>))
      else if t = ''ABORT'' then liftx (modp (\<lambda>s. s\<lparr>abort_next := True\<rparr>))
      else if t = ''CLR_ABORT'' then liftx (modp (\<lambda>s. s\<lparr>clear_abort_next := True\<rparr>))
      else if t = ''REPORT'' then liftx (modp (\<lambda>s. s\<lparr>report_next := True\<rparr>))
      else if t = ''CLR_REPORT'' then liftx (modp (\<lambda>s. s\<lparr>clear_report_next := True\<rparr>))
      else if t = ''TIMEOUT'' then liftx (modp (\<lambda>s. s\<lparr>timeout_next := True\<rparr>))
      else if t = ''ECHO'' then liftx (modp (\<lambda>s. s\<lparr>echo_next := True\<rparr>))
      else if t = ''SAY'' then liftx (modp (\<lambda>s. s\<lparr>say_next := True\<rparr>))
      else expect_rounds iv t)"

subsection \<open>A script in a file\<close>

text \<open>
  \<open>fgets\<close> into 1024 bytes: a longer line comes in pieces.  The newline is removed, and what
  is behind a NUL is not seen.
\<close>

definition first_piece :: "string \<Rightarrow> nat" where
  "first_piece t = min (STR_LEN - 1)
     (case dropWhile (\<lambda>c. c \<noteq> CHR 0x0A) t of
        [] \<Rightarrow> length t
      | _ \<Rightarrow> Suc (length (takeWhile (\<lambda>c. c \<noteq> CHR 0x0A) t)))"

lemma first_line_pos: "t \<noteq> [] \<Longrightarrow> 0 < first_piece t"
  by (auto simp: first_piece_def STR_LEN_def split: list.splits)

function file_lines :: "string \<Rightarrow> string list" where
  "file_lines t = (if t = [] then []
     else c_string (takeWhile (\<lambda>c. c \<noteq> CHR 0x0A) (take (first_piece t) t)) # file_lines (drop (first_piece t) t))"
  by pat_completeness auto

termination
  by (relation "measure length") (auto simp: first_line_pos)

declare file_lines.simps [simp del]

definition is_blank :: "char \<Rightarrow> bool" where
  "is_blank c \<longleftrightarrow> c = CHR '' '' \<or> c = CHR 0x09"

text \<open>The text up to the closing quote, and what is behind it.\<close>

fun quoted_text :: "char \<Rightarrow> string \<Rightarrow> (string \<times> string) option" where
  "quoted_text q [] = None"
| "quoted_text q (c # cs) =
     (if c = q then Some ([], cs)
      else if c = Backslash then (case cs of
          [] \<Rightarrow> None
        | d # cs' \<Rightarrow> map_option (apfst (\<lambda>a. c # d # a)) (quoted_text q cs'))
      else map_option (apfst ((#) c)) (quoted_text q cs))"

lemma quoted_rest: "quoted_text q s = Some (a, r) \<Longrightarrow> length r < length s"
proof (induction q s arbitrary: a r rule: quoted_text.induct)
  case (2 q c cs)
  then show ?case
    by (force split: if_splits list.splits simp: less_Suc_eq)
qed simp

definition chat_word :: "invocation \<Rightarrow> bool \<Rightarrow> string \<Rightarrow> unit chatp" where
  "chat_word iv sendflg arg = (if sendflg then chat_send iv arg else chat_expect iv arg)"

text \<open>The words of a line, each of them run before the next one is looked at.\<close>

function run_line :: "invocation \<Rightarrow> string \<Rightarrow> bool \<Rightarrow> bool chatp" where
  "run_line iv [] sendflg = goon sendflg"
| "run_line iv (c # cs) sendflg =
     (if is_blank c then run_line iv cs sendflg
      else if c = CHR 0x22 \<or> c = CHR 0x27 then
        (case quoted_text c cs of
           None \<Rightarrow> fatal iv 1
         | Some (arg, rest) \<Rightarrow> seqx (chat_word iv sendflg arg) (run_line iv rest (\<not> sendflg)))
      else seqx (chat_word iv sendflg (takeWhile (\<lambda>c. \<not> is_blank c) (c # cs)))
        (run_line iv (drop 1 (dropWhile (\<lambda>c. \<not> is_blank c) (c # cs))) (\<not> sendflg)))"
  by pat_completeness auto

termination
  by (relation "measure (\<lambda>(iv, s, f). length s)")
    (auto dest: quoted_rest simp: less_Suc_eq_le intro: le_trans [OF diff_le_self length_dropWhile_le])

declare run_line.simps [simp del]

fun run_lines :: "invocation \<Rightarrow> string list \<Rightarrow> bool \<Rightarrow> unit chatp" where
  "run_lines iv [] sendflg = goon ()"
| "run_lines iv (l # ls) sendflg =
     (if l \<noteq> [] \<and> hd l = CHR ''#'' then run_lines iv ls sendflg
      else bindx (run_line iv l sendflg) (\<lambda>f. run_lines iv ls f))"

definition do_file :: "invocation \<Rightarrow> string \<Rightarrow> unit chatp" where
  "do_file iv f = (case file_text iv f of
      None \<Rightarrow> fatal iv 1
    | Some t \<Rightarrow> run_lines iv (file_lines t) False)"

subsection \<open>The command line\<close>

text \<open>
  The macros \<open>OPTION\<close> and \<open>OPTARG\<close>: \<open>v\<close> are the arguments from the current one on, whose
  letters read so far have been removed, and \<open>o\<close> is the variable \<open>_O\<close>.
\<close>

definition new_option :: "string list \<Rightarrow> nat \<Rightarrow> char option \<times> string list \<times> nat" where
  "new_option v st =
     (if v = [] \<or> st = 4 then (None, v, st)
      else (case (if st = 1 then v else tl v) of
          (d # e # a) # r \<Rightarrow>
            if d = CHR ''-'' then (if e = CHR ''-'' \<and> a = [] then (None, r, 4) else (Some e, a # r, 2))
            else (None, (d # e # a) # r, 4)
        | r \<Rightarrow> (None, r, 4)))"

definition next_option :: "string list \<Rightarrow> nat \<Rightarrow> char option \<times> string list \<times> nat" where
  "next_option v st = (case v of
      (c # a) # r \<Rightarrow> if st = 2 then (Some c, a # r, st) else new_option v st
    | _ \<Rightarrow> new_option v st)"

definition option_arg :: "string list \<Rightarrow> nat \<Rightarrow> string option \<times> string list \<times> nat" where
  "option_arg v st =
     (if st = 2 then (case v of
          [] \<Rightarrow> (None, [], 4)
        | a # r \<Rightarrow> if a \<noteq> [] then (Some a, r, 1)
            else (case r of [] \<Rightarrow> (None, [], 4) | b # r' \<Rightarrow> (Some b, r', 1)))
      else (None, v, st))"

definition args_size :: "string list \<Rightarrow> nat" where
  "args_size v = sum_list (map (\<lambda>a. Suc (length a)) v)"

lemma args_size_tl: "args_size (tl v) \<le> args_size v"
  by (cases v) (auto simp: args_size_def)

lemma new_option_less:
  assumes "new_option v st = (Some c, v', st')"
  shows "args_size v' < args_size v"
proof -
  define w where "w = (if st = 1 then v else tl v)"
  have "args_size w \<le> args_size v"
    using args_size_tl by (simp add: w_def)
  moreover have "args_size v' < args_size w"
    using assms unfolding new_option_def w_def [symmetric]
    by (auto simp: args_size_def split: if_splits list.splits)
  ultimately show ?thesis by simp
qed

lemma next_option_less:
  assumes "next_option v st = (Some c, v', st')"
  shows "args_size v' < args_size v"
proof (cases "new_option v st = (Some c, v', st')")
  case False
  with assms show ?thesis
    by (auto simp: next_option_def args_size_def split: if_splits list.splits)
qed (rule new_option_less)

lemma option_arg_size: "option_arg v st = (a, v', st') \<Longrightarrow> args_size v' \<le> args_size v"
  by (auto simp: option_arg_def args_size_def split: if_splits list.splits)

lemma next_option_size: "(Some c, y) = next_option v st \<Longrightarrow> (v', st') = y \<Longrightarrow> args_size v' < args_size v"
  by (auto dest: sym intro: next_option_less)

lemma next_option_arg_size:
  "(Some c, y) = next_option v st \<Longrightarrow> (v', st') = y \<Longrightarrow> (a, z) = option_arg v' st' \<Longrightarrow>
   (v'', st'') = z \<Longrightarrow> args_size v'' < args_size v"
  by (metis le_less_trans next_option_size option_arg_size)

definition apply_option :: "char \<Rightarrow> string \<Rightarrow> invocation \<times> chat_vars \<Rightarrow> invocation \<times> chat_vars" where
  "apply_option c a = (\<lambda>(iv, s).
     if c = CHR ''f'' then (iv\<lparr>chat_file := Some a\<rparr>, s)
     else if c = CHR ''t'' then (iv, s\<lparr>chat_timeout := atoi a\<rparr>)
     else if c = CHR ''T'' then (iv\<lparr>phone_num := Some a\<rparr>, s)
     else if c = CHR ''U'' then (iv\<lparr>phone_num2 := Some a\<rparr>, s)
     else (iv\<lparr>report_file := Some a\<rparr>, s))"

text \<open>The loop over the options; \<open>Inl 1\<close> is \<open>usage\<close>.\<close>

function parse_options ::
  "string list \<Rightarrow> nat \<Rightarrow> invocation \<times> chat_vars \<Rightarrow> int + (invocation \<times> chat_vars) \<times> string list" where
  "parse_options v st q = (case next_option v st of
      (None, v', _) \<Rightarrow> Inr (q, v')
    | (Some c, v', st') \<Rightarrow>
        if c = CHR ''e'' then parse_options v' st' (apsnd (\<lambda>s. s\<lparr>echo := True\<rparr>) q)
        else if c = CHR ''E'' then parse_options v' st' (apfst (\<lambda>iv. iv\<lparr>use_env := True\<rparr>) q)
        else if c = CHR ''V'' then parse_options v' st' (apsnd (\<lambda>s. s\<lparr>Verbose := True\<rparr>) q)
        else if c \<in> set ''vsS'' then parse_options v' st' q
        else if c \<in> set ''ftrTU'' then (case option_arg v' st' of (arg, v'', st'') \<Rightarrow> (case arg of
            Some a \<Rightarrow> parse_options v'' st'' (apply_option c a q)
          | None \<Rightarrow> if c = CHR ''r'' then parse_options v'' st'' q else Inl 1))
        else Inl 1)"
  by pat_completeness auto

termination
  by (relation "measure (\<lambda>(v, st, q). args_size v)", simp, simp_all only: in_measure prod.case)
    (erule (1) next_option_size | erule (3) next_option_arg_size)+

declare parse_options.simps [simp del]

subsection \<open>main\<close>

definition set_tty_parameters :: "invocation \<Rightarrow> unit chatp" where
  "set_tty_parameters iv =
     (if \<not> tty_get iv then fatal iv 2
      else seqx (liftx (modp (\<lambda>s. s\<lparr>have_tty_parameters := True\<rparr>)))
        (if \<not> tty_set iv then fatal iv 2 else liftx (log_act Tty_set)))"

definition chat_init :: "invocation \<Rightarrow> unit chatp" where
  "chat_init iv = seqx (set_tty_parameters iv) (liftx stop_alarm)"

fun chat_args :: "invocation \<Rightarrow> string list \<Rightarrow> unit chatp" where
  "chat_args iv [] = goon ()"
| "chat_args iv [e] = chat_expect iv e"
| "chat_args iv (e # t # r) = seqx (chat_expect iv e) (seqx (chat_send iv t) (chat_args iv r))"

text \<open>\<open>usage\<close> calls \<open>exit\<close> and not \<open>terminate\<close>; the text that it prints is left out.\<close>

definition usage :: "'a chatp" where
  "usage = ret (Inl 1)"

definition run_script :: "invocation \<Rightarrow> string list \<Rightarrow> unit chatp" where
  "run_script iv args = (case chat_file iv of
      Some f \<Rightarrow> if args \<noteq> [] then usage else do_file iv f
    | None \<Rightarrow> chat_args iv args)"

text \<open>What \<open>main\<close> does once the options are read.\<close>

definition chat_run :: "invocation \<Rightarrow> string list \<Rightarrow> unit chatp" where
  "chat_run iv args = seqx (chat_init iv) (seqx (run_script iv args) (terminate iv 0))"

definition chat_main :: "invocation \<Rightarrow> string list \<Rightarrow> unit chatp" where
  "chat_main iv argv = bindp (getp (\<lambda>s. parse_options argv 0 (iv, s))) (\<lambda>r. case r of
      Inl n \<Rightarrow> usage
    | Inr ((iv', s'), args) \<Rightarrow> seqp (modp (\<lambda>_. s')) (chat_run iv' args))"

text \<open>The static variables at the start, and the modem.\<close>

definition chat_start :: "(bool \<times> char option) list \<Rightarrow> bool list \<Rightarrow> bool list \<Rightarrow> chat_vars" where
  "chat_start es rs ws =
     \<lparr>echo = False, Verbose = False, exit_code = 0, chat_timeout = DEFAULT_CHAT_TIMEOUT,
      have_tty_parameters = False,
      abort_string = replicate MAX_ABORTS None, n_aborts = 0, fail_reason = None,
      report_string = replicate MAX_REPORTS None, n_reports = 0, report_buffer = [],
      report_gathering = False, abort_next = False, timeout_next = False, echo_next = False,
      clear_abort_next = False, report_next = False, clear_report_next = False,
      say_next = False, hup_next = False, quiet_flag = False, alarm_set = False, alarmed = False,
      terminating = False, need_lf = False, stdin = es, rings = rs, writes = ws, trail = []\<rparr>"

end
