(* ===== verification/ChatExpect.thy ===== *)
theory ChatExpect
  imports ChatProg
begin

section \<open>chat.c: waiting for a string\<close>

text \<open>
  What \<open>get_string\<close> decides, stated on everything that was heard since it began: the code looks
  only at a window of the last bytes.
\<close>

subsection \<open>The reference\<close>

datatype hearing = Matched | Aborting nat | Nothing_heard

fun first_match :: "string \<Rightarrow> nat \<Rightarrow> string list \<Rightarrow> (nat \<times> string) option" where
  "first_match h k [] = None"
| "first_match h k (a # as) = (if suffix a h then Some (k, a) else first_match h (Suc k) as)"

text \<open>After every byte: has the string arrived, or, failing that, one of the abort strings?\<close>

fun listen :: "string \<Rightarrow> string list \<Rightarrow> string \<Rightarrow> string \<Rightarrow> hearing" where
  "listen str as h [] = Nothing_heard"
| "listen str as h (c # cs) =
     (if suffix str (h @ [c]) then Matched
      else (case first_match (h @ [c]) 0 as of
          Some (k, _) \<Rightarrow> Aborting k
        | None \<Rightarrow> listen str as (h @ [c]) cs))"

text \<open>The bytes that are read until the modem is silent or the alarm rings, cut to seven bits.\<close>

fun bytes_heard :: "(bool \<times> char option) list \<Rightarrow> string" where
  "bytes_heard [] = []"
| "bytes_heard ((rang, b) # es) = (case b of
      None \<Rightarrow> []
    | Some c \<Rightarrow> char_of (code c mod 128) # (if rang then [] else bytes_heard es))"

fun concluded :: "hearing \<Rightarrow> bool \<Rightarrow> chat_vars \<Rightarrow> bool" where
  "concluded Matched r s = r"
| "concluded (Aborting k) r s = (\<not> r \<and> exit_code s = int k + 4)"
| "concluded Nothing_heard r s = (\<not> r \<and> exit_code s = 3)"

subsection \<open>What the small operations leave alone\<close>

type_synonym chat_core =
  "(bool \<times> bool \<times> int \<times> bool \<times> bool) \<times> (string option list \<times> nat) \<times>
   (string option list \<times> nat \<times> string \<times> bool) \<times>
   bool \<times> bool \<times> bool \<times> bool \<times> bool \<times> bool \<times> bool \<times> bool"

definition core :: "chat_vars \<Rightarrow> chat_core" where
  "core s = ((echo s, Verbose s, chat_timeout s, have_tty_parameters s, terminating s),
     (abort_string s, n_aborts s), (report_string s, n_reports s, report_buffer s, report_gathering s),
     abort_next s, timeout_next s, echo_next s, clear_abort_next s, report_next s, clear_report_next s,
     say_next s, hup_next s)"

text \<open>The bytes that went to the modem.\<close>

fun out_byte :: "chat_act \<Rightarrow> char option" where
  "out_byte (Out c) = Some c"
| "out_byte _ = None"

definition outs :: "chat_vars \<Rightarrow> string" where
  "outs s = List.map_filter out_byte (trail s)"

definition hears :: "chat_vars \<Rightarrow> (bool \<times> char option) list \<times> bool \<times> bool \<times> int \<times> string" where
  "hears s = (stdin s, alarmed s, alarm_set s, exit_code s, outs s)"

text \<open>Only the standard error is written to.\<close>

definition talks :: "(chat_vars, unit) prog \<Rightarrow> bool" where
  "talks m \<longleftrightarrow> (\<forall>s. \<exists>s'. m s = Done () s' \<and> core s' = core s \<and> hears s' = hears s)"

lemma talksD: "talks m \<Longrightarrow> \<exists>s'. m s = Done () s' \<and> core s' = core s \<and> hears s' = hears s"
  by (simp add: talks_def)

lemma talks_ret: "talks (ret ())"
  by (simp add: talks_def outcome_simps)

lemma outs_append: "outs (s\<lparr>trail := trail s @ tr\<rparr>) = outs s @ List.map_filter out_byte tr"
  by (simp add: outs_def map_filter_def)

lemma talks_act: "out_byte a = None \<Longrightarrow> talks (log_act a)"
  by (simp add: talks_def log_act_def outcome_simps core_def hears_def outs_append map_filter_def)

lemma talks_need_lf: "talks (modp (\<lambda>s. s\<lparr>need_lf := b\<rparr>))"
  by (simp add: talks_def outcome_simps core_def hears_def outs_def)

lemma talks_seq: "talks m \<Longrightarrow> talks n \<Longrightarrow> talks (seqp m n)"
proof (unfold talks_def, rule allI)
  fix s
  assume m: "\<forall>s. \<exists>s'. m s = Done () s' \<and> core s' = core s \<and> hears s' = hears s"
    and n: "\<forall>s. \<exists>s'. n s = Done () s' \<and> core s' = core s \<and> hears s' = hears s"
  obtain s' where s': "m s = Done () s'" "core s' = core s" "hears s' = hears s" using m by blast
  show "\<exists>s'. seqp m n s = Done () s' \<and> core s' = core s \<and> hears s' = hears s"
    using n [rule_format, of s'] s' by (simp add: seqp_apply)
qed

lemma talks_get: "(\<And>x. talks (m x)) \<Longrightarrow> talks (bindp (getp f) m)"
  by (simp add: talks_def outcome_simps)

lemma talks_if: "(b \<Longrightarrow> talks m) \<Longrightarrow> (\<not> b \<Longrightarrow> talks n) \<Longrightarrow> talks (if b then m else n)"
  by simp

lemmas talks_rules = talks_ret talks_act talks_need_lf talks_seq talks_get talks_if

lemma talks_echo [intro]: "talks (echo_stderr n)"
  unfolding echo_stderr_def by (intro talks_rules) simp_all

lemma talks_verbose [intro]: "talks (print_verbose c)"
  unfolding print_verbose_def by (intro talks_rules) simp_all

subsection \<open>The window\<close>

text \<open>\<open>temp\<close> is a window of the history \<open>h\<close> that is good for strings of up to \<open>n + 1\<close> bytes.\<close>

definition window :: "nat \<Rightarrow> string \<Rightarrow> string \<Rightarrow> bool" where
  "window n temp h \<longleftrightarrow> suffix temp h \<and> (temp = h \<or> n \<le> length temp)"

lemma window_suffix:
  assumes "window n temp h" and "length x \<le> Suc n"
  shows "suffix x (temp @ [c]) \<longleftrightarrow> suffix x (h @ [c])"
proof (cases "temp = h")
  case False
  with assms have t: "suffix (temp @ [c]) (h @ [c])" "length x \<le> length (temp @ [c])"
    by (auto simp: window_def)
  show ?thesis
  proof
    assume "suffix x (temp @ [c])"
    with t(1) show "suffix x (h @ [c])" by (rule suffix_order.trans [rotated])
  next
    assume "suffix x (h @ [c])"
    then show "suffix x (temp @ [c])" using t by (rule suffix_length_suffix)
  qed
qed simp

lemma window_match:
  assumes "window n temp h" and "\<forall>a \<in> set as. length a \<le> Suc n"
  shows "first_match (temp @ [c]) k as = first_match (h @ [c]) k as"
  using assms(2)
  by (induction as arbitrary: k) (simp_all add: window_suffix [OF assms(1)] del: suffix_snoc)

lemma window_slide:
  assumes "window n temp h" and "n < STR_LEN"
  shows "window n (slide n (temp @ [c])) (h @ [c])"
proof -
  obtain t where t: "t = temp @ [c]" "suffix t (h @ [c])" "t = h @ [c] \<or> n \<le> length t"
    using assms by (auto simp: window_def)
  show ?thesis
  proof (cases "STR_LEN \<le> length t")
    case True
    have "suffix (drop (length t - n) t) (h @ [c])"
      using t(2) by (meson suffix_drop suffix_order.trans)
    with True assms(2) show ?thesis unfolding t(1) [symmetric] by (simp add: slide_def window_def)
  next
    case False
    with t(2,3) show ?thesis unfolding t(1) [symmetric] by (simp add: slide_def window_def)
  qed
qed

lemma slide_short: "length temp < STR_LEN \<Longrightarrow> n < STR_LEN \<Longrightarrow> length (slide n (temp @ [c])) < STR_LEN"
  by (auto simp: slide_def)

lemma find_abort_match: "find_abort temp k (map Some as) = ret (first_match temp k as)"
  by (induction as arbitrary: k) auto

subsection \<open>The loop\<close>

text \<open>The abort strings are \<open>as\<close>, all short enough, and no report is wanted.\<close>

definition listening :: "string list \<Rightarrow> chat_vars \<Rightarrow> bool" where
  "listening as s \<longleftrightarrow> take (n_aborts s) (abort_string s) = map Some as \<and>
     (\<forall>a \<in> set as. length a < FAIL_BUFFER) \<and> n_reports s = 0 \<and> \<not> report_gathering s"

lemma listening_core: "core s' = core s \<Longrightarrow> listening as s' = listening as s"
  by (simp add: listening_def core_def)

lemma no_report: "listening as s \<Longrightarrow> gather_report iv temp c s = Done () s"
  by (simp add: gather_report_def outcome_simps listening_def)

lemma hears_eq:
  "hears s' = hears s \<longleftrightarrow>
   stdin s' = stdin s \<and> alarmed s' = alarmed s \<and> alarm_set s' = alarm_set s \<and> exit_code s' = exit_code s \<and>
   outs s' = outs s"
  by (simp add: hears_def)

lemma timed_out_Done: "timed_out s = Done False (s\<lparr>alarm_set := False, exit_code := 3, alarmed := False\<rparr>)"
  by (simp add: timed_out_def alarm_def outcome_simps)

lemma stop_alarm_Done: "stop_alarm s = Done () (s\<lparr>alarm_set := False, alarmed := False\<rparr>)"
  by (simp add: stop_alarm_def alarm_def clear_alarmed_def outcome_simps)

lemma core_simps [simp]:
  "core (s\<lparr>alarm_set := a\<rparr>) = core s" "core (s\<lparr>alarmed := a\<rparr>) = core s" "core (s\<lparr>exit_code := n\<rparr>) = core s"
  "core (s\<lparr>stdin := es\<rparr>) = core s" "core (s\<lparr>fail_reason := f\<rparr>) = core s" "core (s\<lparr>trail := tr\<rparr>) = core s"
  "core (s\<lparr>quiet_flag := q\<rparr>) = core s" "core (s\<lparr>rings := r\<rparr>) = core s" "core (s\<lparr>writes := w\<rparr>) = core s"
  "core (s\<lparr>need_lf := lf\<rparr>) = core s"
  by (simp_all add: core_def)

text \<open>Nothing but listening has happened between two states.\<close>

definition quietly :: "chat_vars \<Rightarrow> chat_vars \<Rightarrow> bool" where
  "quietly s' s \<longleftrightarrow> core s' = core s \<and> outs s' = outs s"

lemma quietly_update [simp]:
  "quietly (s\<lparr>alarm_set := a\<rparr>) t = quietly s t" "quietly (s\<lparr>alarmed := a\<rparr>) t = quietly s t"
  "quietly (s\<lparr>exit_code := n\<rparr>) t = quietly s t" "quietly (s\<lparr>stdin := es\<rparr>) t = quietly s t"
  "quietly (s\<lparr>fail_reason := f\<rparr>) t = quietly s t" "quietly (s\<lparr>quiet_flag := q\<rparr>) t = quietly s t"
  "quietly t (s\<lparr>alarm_set := a\<rparr>) = quietly t s" "quietly t (s\<lparr>alarmed := a\<rparr>) = quietly t s"
  "quietly t (s\<lparr>stdin := es\<rparr>) = quietly t s" "quietly t (s\<lparr>fail_reason := f\<rparr>) = quietly t s"
  "quietly t (s\<lparr>quiet_flag := q\<rparr>) = quietly t s" "quietly s s"
  by (simp_all add: quietly_def outs_def)

lemma quietlyD: "quietly s' s \<Longrightarrow> core s' = core s"
  by (simp add: quietly_def)

lemma quietly_trans: "quietly u t \<Longrightarrow> quietly t s \<Longrightarrow> quietly u s"
  by (simp add: quietly_def)

lemma get_char_Done:
  "alarm_set s \<Longrightarrow> stdin s = [] \<Longrightarrow> get_char s = Done (-1) (s\<lparr>alarmed := True\<rparr>)"
  "alarm_set s \<Longrightarrow> stdin s = (rang, None) # es \<Longrightarrow>
   get_char s = Done (-1) (s\<lparr>stdin := es, alarmed := alarmed s \<or> rang\<rparr>)"
  "alarm_set s \<Longrightarrow> stdin s = (rang, Some c) # es \<Longrightarrow>
   get_char s = Done (int (code c mod 128)) (s\<lparr>stdin := es, alarmed := alarmed s \<or> rang\<rparr>)"
  by (simp_all add: get_char_def sigalrm_def outcome_simps)

text \<open>What a round does once the byte is in the window and has been echoed.\<close>

definition decide :: "nat \<Rightarrow> invocation \<Rightarrow> string \<Rightarrow> nat \<Rightarrow> string \<Rightarrow> (chat_vars, bool) prog" where
  "decide n iv str minlen temp =
     (if suffix str temp then seqp stop_alarm (ret True)
      else bindp (getp (\<lambda>s. take (n_aborts s) (abort_string s))) (\<lambda>as.
        bindp (find_abort temp 0 as) (\<lambda>r. case r of
          Some (k, t) \<Rightarrow> seqp stop_alarm (seqp (modp (\<lambda>s. s\<lparr>exit_code := int k + 4\<rparr>))
            (seqp (store_fail_reason t) (ret False)))
        | None \<Rightarrow> expect_loop n iv str minlen (slide minlen temp))))"

lemma expect_round:
  assumes "listening as s" "alarm_set s" "\<not> alarmed s" "stdin s = (rang, Some c) # es" "length temp < STR_LEN"
  shows "\<exists>s'. expect_loop (Suc n) iv str minlen temp s =
      decide n iv str minlen (temp @ [char_of (code c mod 128)]) s' \<and>
    quietly s' s \<and> stdin s' = es \<and> alarmed s' = rang \<and> alarm_set s'"
proof -
  define d where "d = char_of (code c mod 128)"
  let ?c = "int (code c mod 128)"
  let ?s = "s\<lparr>stdin := es, alarmed := rang\<rparr>"
  have "talks (if echo ?s then echo_stderr ?c else ret ())"
    by (intro talks_if talks_echo talks_ret)
  then obtain s1 where s1: "(if echo ?s then echo_stderr ?c else ret ()) ?s = Done () s1"
      "core s1 = core ?s" "hears s1 = hears ?s"
    using talksD by blast
  obtain s2 where s2: "print_verbose ?c s1 = Done () s2" "core s2 = core s1" "hears s2 = hears s1"
    using talksD [OF talks_verbose] by blast
  have c2: "core s2 = core s" using s1(2) s2(2) by simp
  have "outs ?s = outs s" by (simp add: outs_def)
  moreover have "outs s2 = outs s1" "outs s1 = outs ?s" using s1(3) s2(3) by (simp_all only: hears_eq)
  ultimately have "outs s2 = outs s" by simp
  with c2 have q2: "quietly s2 s" by (simp add: quietly_def)
  have "gather_report iv (temp @ [d]) ?c s2 = Done () s2"
    using no_report assms(1) listening_core [OF c2] by blast
  moreover have "get_char s = Done ?c ?s" using get_char_Done(3) [OF assms(2,4)] assms(3) by simp
  ultimately have "expect_loop (Suc n) iv str minlen temp s = decide n iv str minlen (temp @ [d]) s2"
    using assms(3,5) s1(1) s2(1) by (simp add: outcome_simps decide_def d_def Let_def del: suffix_snoc)
  moreover have "stdin s2 = es" "alarmed s2 = rang" "alarm_set s2"
    using s1(3) s2(3) assms(2) by (simp_all add: hears_eq)
  ultimately show ?thesis using q2 unfolding d_def by blast
qed

lemma first_match_in: "first_match h k as = Some (i, a) \<Longrightarrow> a \<in> set as"
  by (induction as arbitrary: k) (auto split: if_splits)

text \<open>Both ends of a round that ends the loop.\<close>

lemma decide_ends:
  assumes "listening as s"
  shows "suffix str temp \<Longrightarrow> \<exists>s'. decide n iv str minlen temp s = Done True s' \<and> quietly s' s"
    and "\<not> suffix str temp \<Longrightarrow> first_match temp 0 as = Some (k, a) \<Longrightarrow>
      \<exists>s'. decide n iv str minlen temp s = Done False s' \<and> quietly s' s \<and> exit_code s' = int k + 4"
    and "\<not> suffix str temp \<Longrightarrow> first_match temp 0 as = None \<Longrightarrow>
      decide n iv str minlen temp s = expect_loop n iv str minlen (slide minlen temp) s"
proof -
  have as: "take (n_aborts s) (abort_string s) = map Some as" "\<forall>a \<in> set as. length a < FAIL_BUFFER"
    using assms by (auto simp: listening_def)
  show "suffix str temp \<Longrightarrow> \<exists>s'. decide n iv str minlen temp s = Done True s' \<and> quietly s' s"
    by (simp add: decide_def outcome_simps stop_alarm_Done)
  show "\<not> suffix str temp \<Longrightarrow> first_match temp 0 as = Some (k, a) \<Longrightarrow>
      \<exists>s'. decide n iv str minlen temp s = Done False s' \<and> quietly s' s \<and> exit_code s' = int k + 4"
    using as by (auto simp: decide_def outcome_simps find_abort_match stop_alarm_Done store_fail_reason_def
        not_le dest: first_match_in)
  show "\<not> suffix str temp \<Longrightarrow> first_match temp 0 as = None \<Longrightarrow>
      decide n iv str minlen temp s = expect_loop n iv str minlen (slide minlen temp) s"
    using as by (simp add: decide_def outcome_simps find_abort_match)
qed

lemma expect_loop_alarmed:
  "alarmed s \<Longrightarrow> \<exists>s'. expect_loop (Suc n) iv str minlen temp s = Done False s' \<and> quietly s' s \<and> exit_code s' = 3"
  by (simp add: outcome_simps timed_out_Done)

lemma expect_loop_silent:
  assumes "\<not> alarmed s" "alarm_set s" "stdin s = [] \<or> (\<exists>rang es. stdin s = (rang, None) # es)"
  shows "\<exists>s'. expect_loop (Suc n) iv str minlen temp s = Done False s' \<and> quietly s' s \<and> exit_code s' = 3"
  using assms get_char_Done by (auto simp: outcome_simps timed_out_Done)

declare expect_loop.simps [simp del]

lemma expect_loop_listens:
  assumes "listening as s" "alarm_set s" "length (stdin s) < n" "window minlen temp h"
    and "length temp < STR_LEN" "length str \<le> Suc minlen" "FAIL_BUFFER - 1 \<le> minlen" "minlen < STR_LEN"
  shows "\<exists>r s'. expect_loop n iv str minlen temp s = Done r s' \<and> quietly s' s \<and>
    concluded (listen str as h (if alarmed s then [] else bytes_heard (stdin s))) r s'"
  using assms(1-5)
proof (induction n arbitrary: s temp h)
  case (Suc n)
  show ?case
  proof (cases "alarmed s \<or> stdin s = [] \<or> (\<exists>rang es. stdin s = (rang, None) # es)")
    case True
    then have "listen str as h (if alarmed s then [] else bytes_heard (stdin s)) = Nothing_heard" by auto
    moreover have "\<exists>s'. expect_loop (Suc n) iv str minlen temp s = Done False s' \<and> quietly s' s \<and> exit_code s' = 3"
      using True expect_loop_alarmed expect_loop_silent [OF _ Suc.prems(2)] by blast
    ultimately show ?thesis by (metis concluded.simps(3))
  next
    case False
    then obtain rang c es where es: "stdin s = (rang, Some c) # es" by (metis list.exhaust not_None_eq surj_pair)
    define d where "d = (char_of (code c mod 128) :: char)"
    obtain s1 where s1: "expect_loop (Suc n) iv str minlen temp s = decide n iv str minlen (temp @ [d]) s1"
        "quietly s1 s" "stdin s1 = es" "alarmed s1 = rang" "alarm_set s1"
      using expect_round [OF Suc.prems(1,2) _ es Suc.prems(5)] False unfolding d_def by blast
    have l1: "listening as s1" using listening_core [OF quietlyD [OF s1(2)]] Suc.prems(1) by simp
    have "\<forall>a \<in> set as. length a \<le> Suc minlen"
      using Suc.prems(1) assms(7) by (auto simp: listening_def FAIL_BUFFER_def)
    note win = window_suffix [OF Suc.prems(4) assms(6), of d] window_match [OF Suc.prems(4) this, of d]
    let ?input = "d # (if rang then [] else bytes_heard es)"
    have input: "(if alarmed s then [] else bytes_heard (stdin s)) = ?input"
      using False es by (simp add: d_def)
    consider "suffix str (h @ [d])" | k a where "\<not> suffix str (h @ [d])" "first_match (h @ [d]) 0 as = Some (k, a)"
      | "\<not> suffix str (h @ [d])" "first_match (h @ [d]) 0 as = None" by fastforce
    then show ?thesis
    proof cases
      case 1
      then have "suffix str (temp @ [d])" using win(1) by simp
      from decide_ends(1) [OF l1 this] obtain s' where
        "decide n iv str minlen (temp @ [d]) s1 = Done True s'" "quietly s' s1" by blast
      with 1 s1 input quietly_trans [OF _ s1(2)] show ?thesis by (auto simp del: suffix_snoc)
    next
      case (2 k a)
      then have "\<not> suffix str (temp @ [d])" "first_match (temp @ [d]) 0 as = Some (k, a)"
        using win by simp_all
      from decide_ends(2) [OF l1 this] obtain s' where
        "decide n iv str minlen (temp @ [d]) s1 = Done False s'" "quietly s' s1" "exit_code s' = int k + 4"
        by blast
      with 2 s1 input quietly_trans [OF _ s1(2)] show ?thesis by (auto simp del: suffix_snoc)
    next
      case 3
      have "\<exists>r s'. expect_loop n iv str minlen (slide minlen (temp @ [d])) s1 = Done r s' \<and> quietly s' s1 \<and>
          concluded (listen str as (h @ [d]) (if alarmed s1 then [] else bytes_heard (stdin s1))) r s'"
        using Suc.prems es s1 assms(8) by (intro Suc.IH l1 window_slide slide_short) auto
      then obtain r s' where "expect_loop n iv str minlen (slide minlen (temp @ [d])) s1 = Done r s'" "quietly s' s"
          "concluded (listen str as (h @ [d]) (if rang then [] else bytes_heard es)) r s'"
        using s1(3,4) quietly_trans [OF _ s1(2)] by blast
      with 3 decide_ends(3) [OF l1] s1(1) win input show ?thesis by (simp del: suffix_snoc)
    qed
  qed
qed simp

subsection \<open>get_string\<close>

text \<open>The string that is waited for.\<close>

definition expected :: "invocation \<Rightarrow> string \<Rightarrow> string" where
  "expected iv t = (case clean iv t False of Done _ k \<Rightarrow> c_string (written k) | _ \<Rightarrow> [])"

lemma cleaned_Done:
  assumes "NUL \<notin> set t"
  shows "\<exists>b q. cleaned iv t sending s = Done (b @ [NUL]) (s\<lparr>quiet_flag := q\<rparr>) \<and>
    (\<not> sending \<longrightarrow> expected iv t = c_string (b @ [NUL])) \<and>
    (sending \<and> insertions_ok iv \<longrightarrow> well_escaped b)"
proof -
  obtain k b where "clean iv t sending = Done () k" "written k = b @ [NUL]"
      "sending \<and> insertions_ok iv \<longrightarrow> well_escaped b"
    using clean_works [OF assms] by blast
  then show ?thesis by (auto simp: cleaned_def outcome_simps expected_def)
qed

theorem get_string_listens:
  assumes "listening as s" "chat_timeout s \<noteq> 0" "NUL \<notin> set t"
  shows "\<exists>r s'. get_string iv t s = Done r s' \<and> quietly s' s \<and>
    (if STR_LEN < length (expected iv t) then \<not> r \<and> exit_code s' = 1
     else if expected iv t = [] then r
     else concluded (listen (expected iv t) as [] (bytes_heard (stdin s))) r s')"
proof -
  let ?s = "s\<lparr>fail_reason := None\<rparr>"
  obtain b q where b: "cleaned iv t False ?s = Done (b @ [NUL]) (?s\<lparr>quiet_flag := q\<rparr>)"
      "expected iv t = c_string (b @ [NUL])"
    using cleaned_Done [OF assms(3)] by blast
  let ?str = "expected iv t" and ?t = "?s\<lparr>quiet_flag := q, alarm_set := True, alarmed := False\<rparr>"
  let ?m = "max (length ?str) FAIL_BUFFER - 1"
  have "listening as ?t" using assms(1) listening_core [of ?t s] by simp
  then have "length ?str \<le> STR_LEN \<Longrightarrow>
      \<exists>r s'. expect_loop (Suc (length (stdin s))) iv ?str ?m [] ?t = Done r s' \<and> quietly s' ?t \<and>
      concluded (listen ?str as [] (if alarmed ?t then [] else bytes_heard (stdin ?t))) r s'"
    by (intro expect_loop_listens) (auto simp: window_def chat_sizes)
  with b assms(2) show ?thesis
    by (auto simp: get_string_def outcome_simps Let_def alarm_def clear_alarmed_def)
qed

end
