(* ===== verification/ChatClear.thy ===== *)
theory ChatClear
  imports ChatProg
begin

section \<open>chat.c: clearing abort and report strings\<close>

text \<open>
  What the loop of \<open>CLR_ABORT\<close> and \<open>CLR_REPORT\<close> leaves in the array of pointers.
\<close>

lemma clear_loop_skip:
  "(\<And>j. i \<le> j \<Longrightarrow> j < n \<Longrightarrow> \<exists>a. xs ! j = Some a \<and> a \<noteq> t) \<Longrightarrow> clear_loop t i n xs = Some (n, xs)"
proof (induction t i n xs rule: clear_loop.induct)
  case (1 t i n xs)
  show ?case
  proof (cases "i < n")
    case True
    then obtain a where a: "xs ! i = Some a" "a \<noteq> t" using "1.prems" [of i] by auto
    with True "1.IH"(2) [OF True a] "1.prems" show ?thesis
      by (simp add: clear_loop.simps [of t i])
  qed (simp add: clear_loop.simps)
qed

lemma clear_loop_until:
  "i \<le> k \<Longrightarrow> k \<le> n \<Longrightarrow> (\<And>j. i \<le> j \<Longrightarrow> j < k \<Longrightarrow> \<exists>a. xs ! j = Some a \<and> a \<noteq> t) \<Longrightarrow>
   clear_loop t i n xs = clear_loop t k n xs"
proof (induction "k - i" arbitrary: i)
  case (Suc d)
  then have i: "i < k" by simp
  with Suc.prems(3) [of i] obtain a where a: "xs ! i = Some a" "a \<noteq> t" by auto
  have "clear_loop t (i + 1) n xs = clear_loop t k n xs"
    using Suc.hyps(2) Suc.prems i by (intro Suc.hyps(1)) auto
  moreover have "clear_loop t i n xs = clear_loop t (i + 1) n xs"
    using a i Suc.prems(2) by (subst clear_loop.simps) simp
  ultimately show ?case by simp
qed simp

lemma kept_update:
  assumes "i < N" "N \<le> length xs" "xs ! i = Some a"
  shows "length (kept (take N xs)) = Suc (length (kept (take N (xs[i := None]))))"
    and "set (kept (take N (xs[i := None]))) \<subseteq> set (kept (take N xs))"
proof -
  have i: "i < length (take N xs)" using assms by simp
  have xs: "take N xs = take i (take N xs) @ Some a # drop (Suc i) (take N xs)"
    using id_take_nth_drop [OF i] assms by simp
  have "take N (xs[i := None]) = take i (take N xs) @ None # drop (Suc i) (take N xs)"
    using upd_conv_take_nth_drop [OF i, of None] by (simp add: take_update_swap)
  then have new: "kept (take N (xs[i := None])) = kept (take i (take N xs)) @ kept (drop (Suc i) (take N xs))"
    by simp
  have old: "kept (take N xs) = kept (take i (take N xs)) @ Some a # kept (drop (Suc i) (take N xs))"
    by (subst xs) simp
  show "length (kept (take N xs)) = Suc (length (kept (take N (xs[i := None]))))"
    unfolding new old by simp
  show "set (kept (take N (xs[i := None]))) \<subseteq> set (kept (take N xs))"
    unfolding new old by auto
qed

lemma clear_loop_kept:
  assumes "\<And>j. i \<le> j \<Longrightarrow> j < N \<Longrightarrow> xs ! j \<noteq> None" "length (kept (take N xs)) = n" "n \<le> N" "N \<le> length xs"
  shows "\<exists>m ys. clear_loop t i n xs = Some (m, ys) \<and> length ys = length xs \<and> m \<le> n \<and>
    (m = n \<longrightarrow> ys = xs) \<and> length (kept (take N ys)) = m \<and> set (kept (take N ys)) \<subseteq> set (kept (take N xs))"
  using assms
proof (induction t i n xs rule: clear_loop.induct)
  case (1 t i n xs)
  show ?case
  proof (cases "i < n")
    case True
    then obtain a where a: "xs ! i = Some a" using "1.prems"(1) [of i] "1.prems"(3) by auto
    show ?thesis
    proof (cases "a = t")
      case eq: True
      note upd = kept_update [OF _ "1.prems"(4) a]
      have "\<exists>m ys. clear_loop t (i + 1) (n - 1) (xs[i := None]) = Some (m, ys) \<and>
          length ys = length (xs[i := None]) \<and> m \<le> n - 1 \<and> (m = n - 1 \<longrightarrow> ys = xs[i := None]) \<and>
          length (kept (take N ys)) = m \<and> set (kept (take N ys)) \<subseteq> set (kept (take N (xs[i := None])))"
        using "1.prems" True upd(1) by (intro "1.IH"(1) [OF True a eq]) auto
      then obtain m ys where m: "clear_loop t (i + 1) (n - 1) (xs[i := None]) = Some (m, ys)"
          "length ys = length xs" "m \<le> n - 1" "length (kept (take N ys)) = m"
          "set (kept (take N ys)) \<subseteq> set (kept (take N (xs[i := None])))"
        by auto
      have "clear_loop t i n xs = Some (m, ys)"
        using True a eq m(1) by (subst clear_loop.simps) simp
      moreover have "m \<noteq> n" using m(3) True by simp
      moreover have "set (kept (take N ys)) \<subseteq> set (kept (take N xs))"
        using m(5) upd(2) True "1.prems"(3) by auto
      ultimately show ?thesis using m by auto
    next
      case False
      have "clear_loop t i n xs = clear_loop t (i + 1) n xs"
        using True a False by (subst clear_loop.simps) simp
      with "1.IH"(2) [OF True a False] "1.prems" show ?thesis by simp
    qed
  next
    case False
    with "1.prems" show ?thesis by (simp add: clear_loop.simps)
  qed
qed

lemma kept_Some [simp]: "kept (map Some as) = map Some as"
  by (induction as) auto

lemma all_Some: "list_all (\<lambda>x. x \<noteq> None) xs \<Longrightarrow> \<exists>as. xs = map Some as"
proof (induction xs)
  case (Cons x xs)
  then obtain as a where "xs = map Some as" "x = Some a" by auto
  then have "x # xs = map Some (a # as)" by simp
  then show ?case by (rule exI)
qed simp

lemma kept_map: "\<exists>as. kept xs = map Some as"
  by (rule all_Some) (simp add: list_all_iff)

text \<open>The strings that are left are strings that were there.\<close>

lemma clear_strings_some:
  assumes "take n xs = map Some as" "n \<le> length xs"
  shows "\<exists>m ys as'. clear_strings t n xs = Some (m, ys) \<and> length ys = length xs \<and> m \<le> n \<and>
    take m ys = map Some as' \<and> set as' \<subseteq> set as"
proof -
  have n: "length as = n" using assms by (metis length_map length_take min.absorb2)
  have "xs ! j \<noteq> None" if "j < n" for j
    using assms(1) n that by (metis nth_map nth_take option.distinct(1))
  then obtain m ys where m: "clear_loop t 0 n xs = Some (m, ys)" "length ys = length xs" "m \<le> n"
      "m = n \<longrightarrow> ys = xs" "length (kept (take n ys)) = m" "set (kept (take n ys)) \<subseteq> set (kept (take n xs))"
    using clear_loop_kept [of 0 n xs n t] assms n by auto
  obtain as' where as': "kept (take n ys) = map Some as'" using kept_map by blast
  have "set (map Some as') \<subseteq> set (map Some as)"
    using m(6) unfolding as' assms(1) by simp
  then have sub: "set as' \<subseteq> set as" by auto
  have as_m: "length as' = m" using as' m(5) by (metis length_map)
  have "take m (if m < n then pack_array ys n else ys) = map Some as'"
  proof (cases "m < n")
    case True
    then show ?thesis using m(2,5) assms(2) as' as_m by (simp add: pack_array_kept)
  next
    case False
    with m(3,4) have "m = n" "ys = xs" by auto
    with as' assms(1) show ?thesis by simp
  qed
  moreover have "length (if m < n then pack_array ys n else ys) = length xs"
    using m(2,5) assms(2) as' as_m m(3) by (simp add: pack_array_kept)
  ultimately show ?thesis using m(1,3) sub by (auto simp: clear_strings_def)
qed

text \<open>Of strings that are all different, exactly the one to be cleared is removed.\<close>

lemma clear_strings_distinct:
  assumes "take n xs = map Some as" "n \<le> length xs" "distinct as"
  shows "\<exists>ys. clear_strings t n xs = Some (length (remove1 t as), ys) \<and>
    take (length (remove1 t as)) ys = map Some (remove1 t as) \<and> length ys = length xs"
proof -
  have n: "length as = n" using assms by (metis length_map length_take min.absorb2)
  have nth: "xs ! j = Some (as ! j)" if "j < n" for j
    using assms(1) n that by (metis nth_map nth_take)
  show ?thesis
  proof (cases "t \<in> set as")
    case False
    then have "clear_loop t 0 n xs = Some (n, xs)"
      using nth n by (intro clear_loop_skip) (auto dest: nth_mem)
    with False assms n show ?thesis by (simp add: clear_strings_def remove1_idem)
  next
    case True
    then obtain us vs where as: "as = us @ t # vs" "t \<notin> set us" by (metis split_list_first)
    let ?k = "length us" let ?ys = "xs[length us := None]"
    have vs: "t \<notin> set vs" "?k < n" using assms(3) as n by auto
    have "clear_loop t 0 n xs = clear_loop t ?k n xs"
      using nth n as by (intro clear_loop_until) (auto simp: nth_append)
    also have "\<dots> = clear_loop t (?k + 1) (n - 1) ?ys"
      using nth [OF vs(2)] vs(2) as by (subst clear_loop.simps) simp
    also have "\<dots> = Some (n - 1, ?ys)"
      using nth vs n as by (intro clear_loop_skip) (auto simp: nth_append nth_Cons' dest: nth_mem)
    finally have loop: "clear_loop t 0 n xs = Some (n - 1, ?ys)" .
    have "take n ?ys = map Some us @ None # map Some vs"
      using assms(1) as by (simp add: take_update_swap list_update_append)
    then have "pack_array ?ys n = map Some (us @ vs) @ None # drop n ?ys"
      using assms(2) n as by (auto simp: pack_array_kept simp flip: n)
    with loop as vs n assms(2) show ?thesis
      by (auto simp: clear_strings_def remove1_append)
  qed
qed

end
