(* ===== verification/ChatSafe.thy ===== *)
theory ChatSafe
  imports ChatExpect ChatClear
begin

section \<open>chat.c: every script ends\<close>

text \<open>
  The invariant of a script without reports, and the proof that such a script runs into no
  undefined behaviour and ends, whatever the modem does, with the terminal restored.
\<close>

subsection \<open>The invariant\<close>

definition chat_ok :: "chat_vars \<Rightarrow> bool" where
  "chat_ok s \<longleftrightarrow> (\<exists>as. listening as s) \<and> n_aborts s \<le> MAX_ABORTS \<and> length (abort_string s) = MAX_ABORTS \<and>
     chat_timeout s \<noteq> 0 \<and> \<not> report_next s \<and> \<not> terminating s \<and> have_tty_parameters s"

text \<open>What holds when the program has ended through \<open>terminate\<close>.\<close>

definition ended :: "invocation \<Rightarrow> chat_vars \<Rightarrow> bool" where
  "ended iv s \<longleftrightarrow> (tty_restore iv \<longrightarrow> trail s \<noteq> [] \<and> last (trail s) = Tty_restored)"

lemma core_fields:
  assumes "core s' = core s"
  shows "echo s' = echo s" "chat_timeout s' = chat_timeout s" "have_tty_parameters s' = have_tty_parameters s"
    "abort_string s' = abort_string s" "n_aborts s' = n_aborts s" "report_string s' = report_string s"
    "n_reports s' = n_reports s" "report_buffer s' = report_buffer s" "report_gathering s' = report_gathering s"
    "report_next s' = report_next s" "terminating s' = terminating s"
  using assms by (simp_all add: core_def)

lemma chat_ok_core:
  assumes "core s' = core s"
  shows "chat_ok s' = chat_ok s"
  by (simp add: chat_ok_def listening_core [OF assms] core_fields [OF assms])

subsection \<open>Rules\<close>

text \<open>
  \<open>fine m\<close>: \<open>m\<close> returns and keeps the invariant.  \<open>finex iv Q m\<close>: \<open>m\<close> ends the program
  properly, or keeps the invariant and returns a value with the property \<open>Q\<close>.
\<close>

definition fine :: "(chat_vars, 'a) prog \<Rightarrow> bool" where
  "fine m \<longleftrightarrow> (\<forall>s. chat_ok s \<longrightarrow> safe False m s (\<lambda>_. chat_ok))"

definition finex :: "invocation \<Rightarrow> ('a \<Rightarrow> bool) \<Rightarrow> 'a chatp \<Rightarrow> bool" where
  "finex iv Q m \<longleftrightarrow> (\<forall>s. chat_ok s \<longrightarrow>
     safe False m s (\<lambda>r t. case r of Inl _ \<Rightarrow> ended iv t | Inr x \<Rightarrow> chat_ok t \<and> Q x))"

lemma fine_ret: "fine (ret x)"
  by (simp add: fine_def)

lemma fine_getp: "fine (getp f)"
  by (simp add: fine_def)

lemma fine_modp: "(\<And>s. chat_ok s \<Longrightarrow> chat_ok (f s)) \<Longrightarrow> fine (modp f)"
  by (simp add: fine_def)

lemma fine_bind: "fine m \<Longrightarrow> (\<And>x. fine (f x)) \<Longrightarrow> fine (bindp m f)"
  unfolding fine_def by (blast intro: safe_bind)

lemma fine_seq: "fine m \<Longrightarrow> fine n \<Longrightarrow> fine (seqp m n)"
  unfolding seqp_def by (rule fine_bind)

lemma fine_get: "(\<And>s. chat_ok s \<Longrightarrow> fine (m (f s))) \<Longrightarrow> fine (bindp (getp f) m)"
  by (simp add: fine_def)

lemma fine_if: "(b \<Longrightarrow> fine m) \<Longrightarrow> (\<not> b \<Longrightarrow> fine n) \<Longrightarrow> fine (if b then m else n)"
  by simp

lemma finex_goon: "Q x \<Longrightarrow> finex iv Q (goon x)"
  by (simp add: finex_def goon_def)

lemma finex_liftx: "fine m \<Longrightarrow> (\<And>x. Q x) \<Longrightarrow> finex iv Q (liftx m)"
  unfolding finex_def fine_def liftx_def goon_def by (auto intro: safe_bind)

lemma finex_bindx:
  fixes m :: "'a chatp"
  assumes "finex iv P m" and "\<And>x. P x \<Longrightarrow> finex iv Q (f x)"
  shows "finex iv Q (bindx m f)"
  unfolding finex_def bindx_def
proof (intro allI impI)
  fix s
  assume "chat_ok s"
  with assms(1) have "safe False m s (\<lambda>r t. case r of Inl _ \<Rightarrow> ended iv t | Inr x \<Rightarrow> chat_ok t \<and> P x)"
    by (simp add: finex_def)
  then show "safe False (bindp m (\<lambda>r. case r of Inl n \<Rightarrow> ret (Inl n) | Inr x \<Rightarrow> f x)) s
      (\<lambda>r t. case r of Inl _ \<Rightarrow> ended iv t | Inr x \<Rightarrow> chat_ok t \<and> Q x)"
  proof (rule safe_bind)
    fix r :: "int + 'a" and t
    assume r: "case r of Inl _ \<Rightarrow> ended iv t | Inr x \<Rightarrow> chat_ok t \<and> P x"
    show "safe False (case r of Inl n \<Rightarrow> ret (Inl n) | Inr x \<Rightarrow> f x) t
        (\<lambda>r t. case r of Inl _ \<Rightarrow> ended iv t | Inr x \<Rightarrow> chat_ok t \<and> Q x)"
      using r assms(2) by (cases r) (simp_all add: finex_def)
  qed
qed

lemma finex_bind_any: "finex iv (\<lambda>_. True) m \<Longrightarrow> (\<And>x. finex iv Q (f x)) \<Longrightarrow> finex iv Q (bindx m f)"
  by (rule finex_bindx)

lemma finex_seqx: "finex iv (\<lambda>_. True) m \<Longrightarrow> finex iv Q n \<Longrightarrow> finex iv Q (seqx m n)"
  unfolding seqx_def by (rule finex_bind_any)

lemma finex_get: "(\<And>s. chat_ok s \<Longrightarrow> finex iv Q (k (f s))) \<Longrightarrow> finex iv Q (bindx (liftx (getp f)) k)"
  by (simp add: finex_def bindx_def liftx_def goon_def safe_def bindp_apply getp_apply ret_apply)

lemma finex_if: "(b \<Longrightarrow> finex iv Q m) \<Longrightarrow> (\<not> b \<Longrightarrow> finex iv Q n) \<Longrightarrow> finex iv Q (if b then m else n)"
  by simp

lemma finex_weaken: "finex iv P m \<Longrightarrow> (\<And>x. P x \<Longrightarrow> Q x) \<Longrightarrow> finex iv Q m"
  unfolding finex_def by (fastforce elim: safe_mono split: sum.splits)

text \<open>Small operations: total, and they leave the core of the state alone.\<close>

definition minor :: "(chat_vars, 'a) prog \<Rightarrow> bool" where
  "minor m \<longleftrightarrow> (\<forall>s. safe False m s (\<lambda>_ t. core t = core s))"

lemma minor_fine:
  assumes "minor m"
  shows "fine m"
  unfolding fine_def
proof (intro allI impI)
  fix s
  assume "chat_ok s"
  have "safe False m s (\<lambda>_ t. core t = core s)" using assms by (simp add: minor_def)
  then show "safe False m s (\<lambda>_. chat_ok)"
    by (rule safe_mono) (use \<open>chat_ok s\<close> chat_ok_core in blast)
qed

lemma minor_ret: "minor (ret x)"
  by (simp add: minor_def)

lemma minor_modp: "(\<And>s. core (f s) = core s) \<Longrightarrow> minor (modp f)"
  by (simp add: minor_def)

lemma minor_bind:
  assumes "minor m" and "\<And>x. minor (f x)"
  shows "minor (bindp m f)"
  unfolding minor_def
proof (rule allI)
  fix s
  have "safe False m s (\<lambda>_ t. core t = core s)" using assms(1) by (simp add: minor_def)
  then show "safe False (bindp m f) s (\<lambda>_ t. core t = core s)"
  proof (rule safe_bind)
    fix x t
    assume t: "core t = core s"
    have "safe False (f x) t (\<lambda>_ u. core u = core t)" using assms(2) by (simp add: minor_def)
    with t show "safe False (f x) t (\<lambda>_ u. core u = core s)" by simp
  qed
qed

lemma minor_seq: "minor m \<Longrightarrow> minor n \<Longrightarrow> minor (seqp m n)"
  unfolding seqp_def by (rule minor_bind)

lemma minor_get: "(\<And>x. minor (m x)) \<Longrightarrow> minor (bindp (getp f) m)"
  by (simp add: minor_def)

lemma minor_if: "(b \<Longrightarrow> minor m) \<Longrightarrow> (\<not> b \<Longrightarrow> minor n) \<Longrightarrow> minor (if b then m else n)"
  by simp

lemma minor_list: "minor m \<Longrightarrow> (\<And>y ys. minor (f y ys)) \<Longrightarrow> minor (case xs of [] \<Rightarrow> m | y # ys \<Rightarrow> f y ys)"
  by (cases xs) auto

lemmas minor_rules = minor_if minor_list minor_ret minor_seq minor_get minor_bind minor_modp

lemma minor_act: "minor (log_act a)"
  unfolding log_act_def by (intro minor_rules) simp

lemma minor_time: "minor time_passes"
  unfolding time_passes_def sigalrm_def by (intro minor_rules) simp_all

lemma minor_wait: "minor (wait_us n)"
  unfolding wait_us_def by (intro minor_rules minor_act minor_time)

lemma minor_alarm: "minor (alarm n)" "minor clear_alarmed"
  unfolding alarm_def clear_alarmed_def by (intro minor_rules; simp)+

lemma minor_write: "minor (write_char c)"
  unfolding write_char_def put_char_def
  by (intro minor_rules minor_alarm minor_wait minor_act) simp_all

lemma minor_break: "minor break_sequence"
  unfolding break_sequence_def by (intro minor_rules minor_act minor_time)

subsection \<open>Sending\<close>

text \<open>The loop over a well escaped string never leaves it.\<close>

lemma minor_put_loop: "well_escaped b \<Longrightarrow> minor (put_loop (b @ [NUL]))"
proof (induction "length b" arbitrary: b rule: less_induct)
  case less
  show ?case
  proof (cases b)
    case Nil
    then show ?thesis by (simp add: minor_ret)
  next
    case (Cons c cs)
    show ?thesis
    proof (cases "c = Backslash")
      case True
      then obtain d cs' where cs: "cs = d # cs'" "well_escaped cs'"
        using less.prems Cons by (cases cs) (auto simp: well_escaped_def)
      have "minor (put_loop (cs' @ [NUL]))" using cs less.hyps [of cs'] Cons by simp
      with True Cons cs(1) show ?thesis
        by (auto intro!: minor_seq minor_bind minor_wait minor_write minor_break minor_if minor_ret)
    next
      case False
      then have "c \<noteq> NUL" "well_escaped cs"
        using less.prems Cons by (auto simp: well_escaped_def split: if_splits)
      moreover from this have "minor (put_loop (cs @ [NUL]))" using less.hyps [of cs] Cons by simp
      ultimately show ?thesis
        using False Cons by (auto intro!: minor_bind minor_write minor_if minor_ret)
    qed
  qed
qed

lemma cleaned_post:
  assumes "NUL \<notin> set t"
  shows "safe False (cleaned iv t sending) s (\<lambda>b u. core u = core s \<and>
    (\<exists>b'. b = b' @ [NUL] \<and> (sending \<and> insertions_ok iv \<longrightarrow> well_escaped b')))"
  using cleaned_Done [OF assms, of iv sending s] by (auto simp: safe_Done)

lemma minor_put_string:
  assumes "NUL \<notin> set t" "insertions_ok iv"
  shows "minor (put_string iv t)"
  unfolding minor_def
proof (rule allI)
  fix s :: chat_vars
  have loop: "minor (bindp (getp chat_timeout) (\<lambda>n. seqp (alarm n) (seqp clear_alarmed
       (bindp (put_loop (b @ [NUL])) (\<lambda>ok.
         if ok then seqp (alarm 0) (seqp clear_alarmed (ret True)) else ret False)))))"
    if "well_escaped b" for b
    by (intro minor_rules minor_alarm minor_put_loop [OF that])
  let ?s = "s\<lparr>quiet_flag := False\<rparr>"
  obtain b q where b: "cleaned iv t True ?s = Done (b @ [NUL]) (?s\<lparr>quiet_flag := q\<rparr>)" "well_escaped b"
    using cleaned_Done [OF assms(1), of iv True ?s] assms(2) by blast
  show "safe False (put_string iv t) s (\<lambda>_ u. core u = core s)"
    using loop [OF b(2), unfolded minor_def, rule_format, of "?s\<lparr>quiet_flag := q\<rparr>"]
    unfolding put_string_def
    by (simp add: safe_bind_Done [where m = "cleaned iv t True", OF b(1)] minor_def)
qed

subsection \<open>Ending\<close>

lemma terminate_ends:
  assumes "chat_ok s"
  shows "\<exists>v. terminate iv n s = Done (Inl (if tty_restore iv then n else 2)) v \<and> ended iv v \<and> outs v = outs s"
proof -
  let ?s = "s\<lparr>terminating := True\<rparr>"
  obtain u where u: "echo_stderr (-1) ?s = Done () u" "core u = core ?s" "hears u = hears ?s"
    using talksD [OF talks_echo] by blast
  have "\<not> report_gathering u" "have_tty_parameters u"
    using assms core_fields(3,9) [OF u(2)] by (auto simp: chat_ok_def listening_def)
  moreover have "outs u = outs ?s" using u(3) by (simp only: hears_eq)
  then have "outs u = outs s" by (simp add: outs_def)
  ultimately show ?thesis
    using assms u(1) by (auto simp: terminate_def outcome_simps log_act_def ended_def chat_ok_def outs_def map_filter_def)
qed

lemma finex_terminate: "finex iv Q (terminate iv n)"
  unfolding finex_def
proof (intro allI impI)
  fix s
  assume "chat_ok s"
  then obtain m v where "(terminate iv n :: 'a chatp) s = Done (Inl m) v" "ended iv v"
    using terminate_ends [of s iv n] by blast
  then show "safe False (terminate iv n :: 'a chatp) s (\<lambda>r t. case r of Inl _ \<Rightarrow> ended iv t | Inr x \<Rightarrow> chat_ok t \<and> Q x)"
    by (simp add: safe_Done)
qed

lemma finex_fatal: "finex iv Q (fatal iv n)"
  unfolding fatal_def by (rule finex_terminate)

subsection \<open>The commands of a script\<close>

lemma short_string_eval:
  assumes "NUL \<notin> set t"
  shows "\<exists>u. core u = core s \<and> (short_string iv t s = fatal iv 1 u \<or>
    (\<exists>s1. short_string iv t s = Done (Inr s1) u \<and> length s1 < FAIL_BUFFER))"
proof -
  obtain b q where b: "cleaned iv t False s = Done (b @ [NUL]) (s\<lparr>quiet_flag := q\<rparr>)"
    using cleaned_Done [OF assms] by blast
  then show ?thesis
    by (intro exI [of _ "s\<lparr>quiet_flag := q\<rparr>"]) (auto simp: short_string_def bindp_apply Let_def goon_def ret_apply)
qed

lemma finex_short:
  assumes "NUL \<notin> set t"
  shows "finex iv (\<lambda>_. True) (short_string iv t)"
  unfolding finex_def
proof (intro allI impI)
  fix s
  assume s: "chat_ok s"
  obtain u where u: "core u = core s" "short_string iv t s = fatal iv 1 u \<or>
      (\<exists>s1. short_string iv t s = Done (Inr s1) u \<and> length s1 < FAIL_BUFFER)"
    using short_string_eval [OF assms] by blast
  have "chat_ok u" using s chat_ok_core [OF u(1)] by simp
  with u(2) finex_fatal [of iv "\<lambda>_ :: string. True" 1]
  show "safe False (short_string iv t) s (\<lambda>r t. case r of Inl _ \<Rightarrow> ended iv t | Inr s1 \<Rightarrow> chat_ok t \<and> True)"
    by (auto simp: finex_def safe_def)
qed

lemma fine_flag:
  "fine (modp (\<lambda>s. s\<lparr>abort_next := b\<rparr>))" "fine (modp (\<lambda>s. s\<lparr>clear_abort_next := b\<rparr>))"
  "fine (modp (\<lambda>s. s\<lparr>clear_report_next := b\<rparr>))" "fine (modp (\<lambda>s. s\<lparr>timeout_next := b\<rparr>))"
  "fine (modp (\<lambda>s. s\<lparr>echo_next := b\<rparr>))" "fine (modp (\<lambda>s. s\<lparr>hup_next := b\<rparr>))"
  "fine (modp (\<lambda>s. s\<lparr>say_next := b\<rparr>))" "fine (modp (\<lambda>s. s\<lparr>echo_next := b, echo := e\<rparr>))"
  by (intro fine_modp; simp add: chat_ok_def listening_def)+

text \<open>The array after \<open>abort_string[n_aborts++] = s1\<close>.\<close>

lemma chat_ok_add_abort:
  assumes "chat_ok s" "n_aborts s < MAX_ABORTS" "length a < FAIL_BUFFER"
  shows "chat_ok (s\<lparr>abort_string := (abort_string s)[n_aborts s := Some a], n_aborts := n_aborts s + 1\<rparr>)"
proof -
  obtain as where as: "listening as s" using assms(1) by (auto simp: chat_ok_def)
  have "take (n_aborts s + 1) ((abort_string s)[n_aborts s := Some a]) = map Some (as @ [a])"
    using as assms by (simp add: listening_def chat_ok_def take_Suc_conv_app_nth)
  with as assms show ?thesis
    by (auto simp: chat_ok_def listening_def intro!: exI [of _ "as @ [a]"])
qed

lemma finex_add_abort:
  assumes "NUL \<notin> set t"
  shows "finex iv (\<lambda>_. True) (add_abort iv t)"
  unfolding finex_def
proof (intro allI impI)
  fix s
  assume s: "chat_ok s"
  let ?s = "s\<lparr>abort_next := False\<rparr>"
  have ok: "chat_ok ?s" using fine_flag(1) [of False] s by (simp add: fine_def)
  note fatal = finex_fatal [of iv "\<lambda>_ :: unit. True"]
  show "safe False (add_abort iv t) s (\<lambda>r t. case r of Inl _ \<Rightarrow> ended iv t | Inr s1 \<Rightarrow> chat_ok t \<and> True)"
  proof (cases "MAX_ABORTS \<le> n_aborts s")
    case True
    then show ?thesis
      using ok fatal [of 2] by (simp add: add_abort_def seqx_def bindx_def liftx_def goon_def finex_def
          safe_def outcome_simps)
  next
    case False
    obtain u where u: "core u = core ?s" "short_string iv t ?s = fatal iv 1 u \<or>
        (\<exists>s1. short_string iv t ?s = Done (Inr s1) u \<and> length s1 < FAIL_BUFFER)"
      using short_string_eval [OF assms] by blast
    have u2: "chat_ok u" "n_aborts u < MAX_ABORTS"
      using ok chat_ok_core [OF u(1)] core_fields(5) [OF u(1)] False by auto
    obtain m v where "(fatal iv 1 :: string chatp) u = Done (Inl m) v" "ended iv v"
      using terminate_ends [OF u2(1), of iv 1] unfolding fatal_def by blast
    with u(2) False chat_ok_add_abort [OF u2] show ?thesis
      by (auto simp: add_abort_def seqx_def bindx_def liftx_def goon_def safe_def outcome_simps)
  qed
qed

lemma fine_clear_abort: "fine (bindp (getp id) (\<lambda>s. case clear_strings t (n_aborts s) (abort_string s) of
     None \<Rightarrow> failp NullDeref
   | Some (n, xs) \<Rightarrow> modp (\<lambda>s. s\<lparr>n_aborts := n, abort_string := xs\<rparr>)))"
proof -
  have "safe False (case clear_strings t (n_aborts s) (abort_string s) of
       None \<Rightarrow> failp NullDeref
     | Some (n, xs) \<Rightarrow> modp (\<lambda>s. s\<lparr>n_aborts := n, abort_string := xs\<rparr>)) s (\<lambda>_. chat_ok)"
    if s: "chat_ok s" for s
  proof -
    obtain as where as: "listening as s" using s by (auto simp: chat_ok_def)
    then obtain m ys as' where "clear_strings t (n_aborts s) (abort_string s) = Some (m, ys)"
        "length ys = length (abort_string s)" "m \<le> n_aborts s" "take m ys = map Some as'" "set as' \<subseteq> set as"
      using clear_strings_some [of "n_aborts s" "abort_string s" as t] s
      by (auto simp: listening_def chat_ok_def)
    with s as show ?thesis by (auto simp: chat_ok_def listening_def)
  qed
  then show ?thesis by (simp add: fine_def)
qed

lemma fine_clear_report: "fine (bindp (getp id) (\<lambda>s. case clear_strings t (n_reports s) (report_string s) of
     None \<Rightarrow> failp NullDeref
   | Some (n, xs) \<Rightarrow> modp (\<lambda>s. s\<lparr>n_reports := n, report_string := xs\<rparr>)))"
  by (auto simp: fine_def chat_ok_def listening_def clear_strings_def clear_loop.simps)

lemma finex_clear:
  assumes "NUL \<notin> set t"
  shows "finex iv (\<lambda>_. True) (clear_abort iv t)" and "finex iv (\<lambda>_. True) (clear_report iv t)"
  unfolding clear_abort_def clear_report_def
  by (intro finex_seqx finex_bind_any finex_liftx finex_short fine_clear_abort fine_clear_report fine_flag
      assms TrueI)+

lemma fine_cleaned:
  assumes "NUL \<notin> set t"
  shows "fine (cleaned iv t sending)"
proof (rule minor_fine)
  show "minor (cleaned iv t sending)"
    unfolding minor_def
  proof (rule allI)
    fix s
    show "safe False (cleaned iv t sending) s (\<lambda>_ u. core u = core s)"
      by (rule safe_mono [OF cleaned_post [OF assms]]) simp
  qed
qed

lemma fine_timeout: "n \<noteq> 0 \<Longrightarrow> fine (modp (\<lambda>s. s\<lparr>chat_timeout := n\<rparr>))"
  by (intro fine_modp) (simp add: chat_ok_def listening_def)

lemma finex_timeout:
  assumes "NUL \<notin> set t"
  shows "finex iv (\<lambda>_. True) (set_timeout iv t)"
  unfolding set_timeout_def Let_def
  by (intro finex_liftx fine_seq fine_bind fine_cleaned fine_flag fine_timeout assms TrueI)
    (simp add: DEFAULT_CHAT_TIMEOUT_def)

lemma finex_say:
  assumes "NUL \<notin> set t"
  shows "finex iv (\<lambda>_. True) (say iv t)"
  unfolding say_def
  by (intro finex_liftx fine_seq fine_bind fine_cleaned fine_flag minor_fine [OF minor_act] assms TrueI)

lemma c_string_NUL: "NUL \<notin> set (c_string xs)"
  by (auto simp: c_string_def dest: set_takeWhileD)

lemma finex_send_file:
  assumes "NUL \<notin> set t"
  shows "finex iv (\<lambda>u. NUL \<notin> set u) (send_file iv t)"
  using assms unfolding send_file_def Let_def
  by (auto intro!: finex_if finex_goon finex_fatal simp: file_data_def Let_def c_string_NUL split: option.split)

lemma sent_text_NUL: "NUL \<notin> set t \<Longrightarrow> NUL \<notin> set (sent_text t)"
  by (simp add: sent_text_def)

lemma finex_chat_send:
  assumes "insertions_ok iv" "NUL \<notin> set t"
  shows "finex iv (\<lambda>_. True) (chat_send iv t)"
  unfolding chat_send_def
proof (rule finex_get)
  fix s
  assume s: "chat_ok s"
  have put: "finex iv (\<lambda>_. True) (bindx (liftx (put_string iv (sent_text u))) (\<lambda>ok. if ok then goon () else fatal iv 1))"
    if "NUL \<notin> set u" for u
    by (intro finex_bind_any finex_liftx minor_fine [OF minor_put_string] finex_if finex_goon
        finex_fatal sent_text_NUL that assms(1) TrueI)
  have send: "finex iv (\<lambda>_. True) (bindx (send_file iv t) (\<lambda>u.
      bindx (liftx (put_string iv (sent_text u))) (\<lambda>ok. if ok then goon () else fatal iv 1)))"
    by (rule finex_bindx [OF finex_send_file [OF assms(2)] put])
  have "\<not> report_next (id s)" using s by (simp add: chat_ok_def)
  then show "finex iv (\<lambda>_. True) (if say_next (id s) then say iv t
     else if hup_next (id s) then liftx (seqp (modp (\<lambda>s. s\<lparr>hup_next := False\<rparr>)) (log_act (Sighup (t \<noteq> ''OFF''))))
     else if echo_next (id s) then liftx (modp (\<lambda>s. s\<lparr>echo_next := False, echo := (t = ''ON'')\<rparr>))
     else if abort_next (id s) then add_abort iv t
     else if clear_abort_next (id s) then clear_abort iv t
     else if report_next (id s) then add_report iv t
     else if clear_report_next (id s) then clear_report iv t
     else if timeout_next (id s) then set_timeout iv t
     else bindx (send_file iv t) (\<lambda>u. bindx (liftx (put_string iv (sent_text u))) (\<lambda>ok.
       if ok then goon () else fatal iv 1)))"
    using send assms(2)
    by (auto intro!: finex_say finex_liftx finex_add_abort finex_clear finex_timeout fine_seq fine_flag
        minor_fine [OF minor_act])
qed

subsection \<open>Waiting\<close>

lemma fine_get_string:
  assumes "NUL \<notin> set t"
  shows "fine (get_string iv t)"
  unfolding fine_def
proof (intro allI impI)
  fix s
  assume s: "chat_ok s"
  then obtain as where "listening as s" "chat_timeout s \<noteq> 0" by (auto simp: chat_ok_def)
  then obtain r s' where r: "get_string iv t s = Done r s'" "core s' = core s"
    using get_string_listens [OF _ _ assms] quietlyD by blast
  then show "safe False (get_string iv t) s (\<lambda>_. chat_ok)"
    using s chat_ok_core [OF r(2)] by (simp add: safe_Done [where m = "get_string iv t", OF r(1)])
qed

lemma strtok_loop_set:
  "set (fst (strtok_loop terms b s)) \<subseteq> set s \<and> set (snd (strtok_loop terms b s)) \<subseteq> set s"
  by (induction terms b s rule: strtok_loop.induct) (simp_all, blast)

lemma expect_strtok_set:
  assumes "expect_strtok s terms = (tok, r)"
  shows "set r \<subseteq> set s" and "tok = Some t \<Longrightarrow> set t \<subseteq> set s"
  using assms strtok_loop_set [of terms False s]
  by (auto simp: expect_strtok_def Let_def split: prod.splits if_splits)

lemma finex_expect_rounds:
  "insertions_ok iv \<Longrightarrow> NUL \<notin> set str \<Longrightarrow> finex iv (\<lambda>_. True) (expect_rounds iv str)"
proof (induction iv str rule: expect_rounds.induct)
  case (1 iv str)
  obtain tok str1 where tok: "expect_strtok str ''-'' = (tok, str1)" by fastforce
  obtain reply str2 where reply: "expect_strtok str1 ''-'' = (reply, str2)" by fastforce
  show ?case
  proof (cases tok)
    case None
    with tok show ?thesis by (simp add: expect_rounds.simps [of iv str] finex_goon)
  next
    case (Some e)
    have sets: "NUL \<notin> set e" "NUL \<notin> set str2" "reply = Some r \<Longrightarrow> NUL \<notin> set r" for r
      using "1.prems"(2) expect_strtok_set [OF tok] expect_strtok_set [OF reply] Some by auto
    have rounds: "finex iv (\<lambda>_. True) (expect_rounds iv str2)"
      if "reply = Some r" for r
      using "1.IH" tok reply Some that sets(2) "1.prems"(1) by fastforce
    have "finex iv (\<lambda>_. True) (bindx (liftx (get_string iv e)) (\<lambda>ok.
          if ok then goon ()
          else bindx (liftx (getp exit_code)) (\<lambda>x. case reply of
              None \<Rightarrow> terminate iv x
            | Some r \<Rightarrow> if x \<noteq> 3 then terminate iv x
                else seqx (chat_send iv r) (expect_rounds iv str2))))"
      using rounds sets "1.prems"(1)
      by (auto intro!: finex_bind_any finex_liftx fine_get_string fine_getp finex_goon
          finex_terminate finex_seqx finex_chat_send split: option.split)
    then show ?thesis by (simp add: expect_rounds.simps [of iv str] tok reply Some)
  qed
qed

lemma finex_chat_expect:
  assumes "insertions_ok iv" "NUL \<notin> set t" "t \<noteq> ''REPORT''"
  shows "finex iv (\<lambda>_. True) (chat_expect iv t)"
  unfolding chat_expect_def
  by (intro finex_if finex_liftx fine_flag finex_expect_rounds assms TrueI) (use assms(3) in simp)

subsection \<open>Scripts\<close>

text \<open>A word of a script: an argument or a word of a file.\<close>

definition script_word :: "string \<Rightarrow> bool" where
  "script_word t \<longleftrightarrow> NUL \<notin> set t \<and> t \<noteq> ''REPORT''"

lemma finex_chat_args:
  "insertions_ok iv \<Longrightarrow> \<forall>t \<in> set args. script_word t \<Longrightarrow> finex iv (\<lambda>_. True) (chat_args iv args)"
  by (induction iv args rule: chat_args.induct)
    (auto simp: script_word_def intro!: finex_goon finex_chat_expect finex_seqx finex_chat_send)

lemma finex_chat_word:
  "insertions_ok iv \<Longrightarrow> script_word t \<Longrightarrow> finex iv (\<lambda>_. True) (chat_word iv f t)"
  by (auto simp: chat_word_def script_word_def intro!: finex_chat_expect finex_chat_send)

text \<open>The words of a line.\<close>

lemma quoted_split: "quoted_text q s = Some (a, r) \<Longrightarrow> s = a @ q # r"
proof (induction q s arbitrary: a r rule: quoted_text.induct)
  case (2 q c cs)
  show ?case
  proof (cases "c = q \<or> c \<noteq> Backslash")
    case True
    with 2 show ?thesis by (fastforce split: if_splits)
  next
    case False
    with 2 show ?thesis by (fastforce split: list.splits)
  qed
qed simp

text \<open>A text whose words are no \<open>REPORT\<close>; so are its parts.\<close>

definition plain_text :: "string \<Rightarrow> bool" where
  "plain_text l \<longleftrightarrow> NUL \<notin> set l \<and> \<not> sublist ''REPORT'' l"

lemma plain_text_sublist: "plain_text l \<Longrightarrow> sublist k l \<Longrightarrow> plain_text k"
  unfolding plain_text_def by (meson set_mono_sublist sublist_order.order_trans subsetD)

lemma plain_text_word: "plain_text l \<Longrightarrow> script_word l"
  by (auto simp: plain_text_def script_word_def)

lemma sublist_takeWhile: "sublist (takeWhile P xs) xs"
  by (metis sublist_append_rightI takeWhile_dropWhile_id)

lemma sublist_dropWhile: "sublist (dropWhile P xs) xs"
  by (metis sublist_append_leftI takeWhile_dropWhile_id)

lemma finex_run_line:
  "insertions_ok iv \<Longrightarrow> plain_text l \<Longrightarrow> finex iv (\<lambda>_. True) (run_line iv l f)"
proof (induction iv l f rule: run_line.induct)
  case (1 iv f)
  show ?case by (simp add: run_line.simps finex_goon)
next
  case (2 iv c cs f)
  note part = plain_text_sublist [OF "2.prems"(2)]
  consider "is_blank c" | "\<not> is_blank c" "c = CHR 0x22 \<or> c = CHR 0x27"
    | "\<not> is_blank c" "\<not> (c = CHR 0x22 \<or> c = CHR 0x27)" by blast
  then show ?case
  proof cases
    case 1
    then show ?thesis
      using "2.IH"(1) [OF 1 "2.prems"(1) part] by (simp add: run_line.simps sublist_Cons_right)
  next
    case 2
    show ?thesis
    proof (cases "quoted_text c cs")
      case None
      with 2 show ?thesis by (simp add: run_line.simps finex_fatal)
    next
      case (Some p)
      obtain a r where p: "p = (a, r)" by fastforce
      have cs: "cs = a @ c # r" using quoted_split Some p by blast
      have "sublist a (c # cs)" using sublist_appendI [of a "[c]" "c # r"] cs by simp
      moreover have "sublist r (c # cs)" using sublist_appendI [of r "c # a @ [c]" "[]"] cs by simp
      ultimately have "plain_text a" "plain_text r" using part by blast+
      then have "finex iv (\<lambda>_. True) (seqx (chat_word iv f a) (run_line iv r (\<not> f)))"
        using "2.IH"(2) [OF 2 Some p [symmetric] "2.prems"(1)] "2.prems"(1)
        by (intro finex_seqx finex_chat_word plain_text_word) auto
      with 2 Some p show ?thesis by (simp add: run_line.simps)
    qed
  next
    case 3
    let ?w = "takeWhile (\<lambda>c. \<not> is_blank c) (c # cs)" and ?r = "drop 1 (dropWhile (\<lambda>c. \<not> is_blank c) (c # cs))"
    have "sublist ?r (c # cs)"
      by (rule sublist_order.order_trans [OF sublist_drop sublist_dropWhile])
    then have "plain_text ?w" "plain_text ?r" using part sublist_takeWhile by blast+
    then have "finex iv (\<lambda>_. True) (seqx (chat_word iv f ?w) (run_line iv ?r (\<not> f)))"
      using "2.IH"(3) [OF 3 "2.prems"(1)] "2.prems"(1)
      by (intro finex_seqx finex_chat_word plain_text_word) auto
    with 3 show ?thesis by (simp add: run_line.simps)
  qed
qed

lemma finex_run_lines:
  "insertions_ok iv \<Longrightarrow> \<forall>l \<in> set ls. plain_text l \<Longrightarrow> finex iv (\<lambda>_. True) (run_lines iv ls f)"
  by (induction iv ls f rule: run_lines.induct)
    (auto intro!: finex_goon finex_if finex_bind_any finex_run_line)

lemma file_lines_plain:
  "\<not> sublist ''REPORT'' t \<Longrightarrow> l \<in> set (file_lines t) \<Longrightarrow> plain_text l"
proof (induction t rule: file_lines.induct)
  case (1 t)
  let ?n = "first_piece t"
  show ?case
  proof (cases "t = []")
    case False
    have c: "sublist (c_string (takeWhile (\<lambda>c. c \<noteq> CHR 0x0A) (take ?n t))) t"
      unfolding c_string_def
      by (meson sublist_takeWhile sublist_take sublist_order.order_trans)
    have "\<not> sublist ''REPORT'' (drop ?n t)"
      using "1.prems"(1) by (meson sublist_drop sublist_order.order_trans)
    with 1 False c show ?thesis
      by (subst (asm) (2) file_lines.simps)
        (auto simp: plain_text_def c_string_NUL dest: sublist_order.order_trans)
  qed (use 1 in \<open>simp add: file_lines.simps\<close>)
qed

lemma finex_do_file:
  assumes "insertions_ok iv" "\<And>t. file_text iv f = Some t \<Longrightarrow> \<not> sublist ''REPORT'' t"
  shows "finex iv (\<lambda>_. True) (do_file iv f)"
  using assms by (auto simp: do_file_def split: option.split
      intro!: finex_fatal finex_run_lines file_lines_plain)

text \<open>The whole run: every script without reports ends, with the terminal restored.\<close>

definition chat_fresh :: "chat_vars \<Rightarrow> bool" where
  "chat_fresh s \<longleftrightarrow> chat_ok (s\<lparr>have_tty_parameters := True\<rparr>)"

theorem chat_run_ends:
  assumes "chat_fresh s" "insertions_ok iv" "tty_get iv" "tty_set iv"
    and "case chat_file iv of
        None \<Rightarrow> \<forall>t \<in> set args. script_word t
      | Some f \<Rightarrow> args = [] \<and> (\<forall>t. file_text iv f = Some t \<longrightarrow> \<not> sublist ''REPORT'' t)"
  shows "\<exists>n t. chat_run iv args s = Done (Inl n) t \<and> ended iv t"
proof -
  let ?s = "s\<lparr>have_tty_parameters := True, trail := trail s @ [Tty_set], alarm_set := False, alarmed := False\<rparr>"
  have chat_init: "chat_init iv s = Done (Inr ()) ?s"
    using assms(3,4) by (simp add: chat_init_def set_tty_parameters_def seqx_def bindx_def liftx_def goon_def
        outcome_simps log_act_def stop_alarm_Done)
  have "chat_ok ?s"
    using assms(1) chat_ok_core [of ?s "s\<lparr>have_tty_parameters := True\<rparr>"] by (simp add: chat_fresh_def)
  moreover have "finex iv (\<lambda>_. True) (run_script iv args)"
    using assms(2,5) by (auto simp: run_script_def intro: finex_chat_args finex_do_file split: option.splits)
  then have "finex iv (\<lambda>_. False) (seqx (run_script iv args) (terminate iv 0) :: unit chatp)"
    by (intro finex_seqx finex_terminate)
  ultimately obtain r t where r: "(seqx (run_script iv args) (terminate iv 0) :: unit chatp) ?s = Done r t"
      "case r of Inl _ \<Rightarrow> ended iv t | Inr x \<Rightarrow> False"
    unfolding finex_def safe_total by (metis (no_types, lifting) sum.case_eq_if)
  then obtain n where "r = Inl n" by (cases r) auto
  with r chat_init show ?thesis
    by (auto simp: chat_run_def seqx_def bindx_def bindp_apply)
qed

lemma chat_start_fresh: "chat_fresh (chat_start es rs ws)"
  by (simp add: chat_fresh_def chat_ok_def chat_start_def listening_def DEFAULT_CHAT_TIMEOUT_def)

lemma chat_start_timed: "n \<noteq> 0 \<Longrightarrow> chat_fresh ((chat_start es rs ws)\<lparr>chat_timeout := n\<rparr>)"
  by (simp add: chat_fresh_def chat_ok_def chat_start_def listening_def)

text \<open>A word that is sent or waited for leaves the invariant, unless the program ends.\<close>

lemma chat_word_ok:
  assumes "chat_ok s" "insertions_ok iv" "script_word t"
    and "chat_send iv t s = Done (Inr ()) u \<or> chat_expect iv t s = Done (Inr ()) u"
  shows "chat_ok u"
proof -
  have "finex iv (\<lambda>_. True) (chat_send iv t)" "finex iv (\<lambda>_. True) (chat_expect iv t)"
    using assms(2,3) by (auto simp: script_word_def intro: finex_chat_send finex_chat_expect)
  with assms(1,4) show ?thesis by (auto simp: finex_def safe_def)
qed

end
