(* ===== verification/ChatDial.thy ===== *)
theory ChatDial
  imports ChatSafe Pppd
begin

section \<open>chat.c: dialling\<close>

text \<open>
  The scripts that \<open>pppd.c\<close> makes: abort strings, a timeout, a dial string, and the answer that
  is waited for.
\<close>

subsection \<open>Strings without escapes\<close>

definition no_escapes :: "string \<Rightarrow> bool" where
  "no_escapes t \<longleftrightarrow> NUL \<notin> set t \<and> CHR ''^'' \<notin> set t \<and> Backslash \<notin> set t \<and> CHR ''$'' \<notin> set t"

lemma clean_loop_plain:
  "no_escapes t \<Longrightarrow> length (written k) + length t \<le> room k \<Longrightarrow>
   clean_loop iv sending t k = Done () (k\<lparr>written := written k @ t\<rparr>)"
proof (induction t arbitrary: k)
  case (Cons c t)
  then show ?case
    by (auto simp: no_escapes_def clean_loop.simps emit_emits seqp_apply emits_Done)
qed (simp add: clean_loop.simps outcome_simps)

lemma clean_plain:
  "no_escapes t \<Longrightarrow> clean iv t sending = Done ()
     \<lparr>written = t @ (if sending then [CHR 0x0D] else []) @ [NUL], room = length t + 3,
      add_return = sending, hide = False\<rparr>"
  by (simp add: clean_def clean_loop_plain outcome_simps emit_emits emits_Done)

lemma cleaned_plain:
  "no_escapes t \<Longrightarrow>
   cleaned iv t sending s = Done (t @ (if sending then [CHR 0x0D] else []) @ [NUL]) s"
  by (simp add: cleaned_def clean_plain outcome_simps)

lemma expected_plain: "no_escapes t \<Longrightarrow> expected iv t = t"
  by (simp add: expected_def clean_plain no_escapes_def)

lemma short_plain: "no_escapes t \<Longrightarrow> length t < FAIL_BUFFER \<Longrightarrow> short_string iv t s = Done (Inr t) s"
  by (auto simp: short_string_def bindp_apply cleaned_plain Let_def no_escapes_def goon_def ret_apply)

subsection \<open>The commands of the script\<close>

text \<open>No command of a script is pending.\<close>

definition no_command :: "chat_vars \<Rightarrow> bool" where
  "no_command s \<longleftrightarrow> \<not> say_next s \<and> \<not> hup_next s \<and> \<not> echo_next s \<and> \<not> abort_next s \<and> \<not> clear_abort_next s \<and>
     \<not> report_next s \<and> \<not> clear_report_next s \<and> \<not> timeout_next s"

lemmas evalx = seqx_def bindx_def liftx_def goon_def bindp_apply seqp_apply getp_apply modp_apply ret_apply

lemma abort_pair:
  assumes "no_command s" "no_escapes t" "length t < FAIL_BUFFER" "n_aborts s < MAX_ABORTS"
  shows "chat_args iv (''ABORT'' # t # r) s = chat_args iv r
    (s\<lparr>abort_next := False, abort_string := (abort_string s)[n_aborts s := Some t], n_aborts := Suc (n_aborts s)\<rparr>)"
  using assms
  by (simp add: evalx chat_expect_def chat_send_def no_command_def add_abort_def short_plain)

lemma timeout_pair:
  assumes "no_command s" "no_escapes t" "0 < atoi t"
  shows "chat_args iv (''TIMEOUT'' # t # r) s = chat_args iv r (s\<lparr>timeout_next := False, chat_timeout := atoi t\<rparr>)"
proof -
  have "c_string (t @ [NUL]) = t" using assms(2) by (simp add: no_escapes_def)
  with assms show ?thesis
    by (simp add: evalx chat_expect_def chat_send_def no_command_def set_timeout_def cleaned_plain Let_def)
qed

fun abort_commands :: "string list \<Rightarrow> string list" where
  "abort_commands [] = []"
| "abort_commands (a # as) = ''ABORT'' # a # abort_commands as"

text \<open>What the commands leave alone.\<close>

definition same_modem :: "chat_vars \<Rightarrow> chat_vars \<Rightarrow> bool" where
  "same_modem u s \<longleftrightarrow> stdin u = stdin s \<and> rings u = rings s \<and> writes u = writes s \<and> trail u = trail s \<and>
     terminating u = terminating s \<and> have_tty_parameters u = have_tty_parameters s \<and>
     chat_timeout u = chat_timeout s \<and> length (abort_string u) = length (abort_string s)"

lemma abort_commands_run:
  assumes "no_command s" "listening as s" "length (abort_string s) = MAX_ABORTS" "n_aborts s = length as"
    and "\<forall>b \<in> set bs. no_escapes b \<and> length b < FAIL_BUFFER" "length as + length bs \<le> MAX_ABORTS"
  shows "\<exists>u. chat_args iv (abort_commands bs @ r) s = chat_args iv r u \<and> no_command u \<and> listening (as @ bs) u \<and>
    n_aborts u \<le> MAX_ABORTS \<and> same_modem u s"
  using assms
proof (induction bs arbitrary: s as)
  case (Cons b bs)
  let ?s = "s\<lparr>abort_next := False, abort_string := (abort_string s)[n_aborts s := Some b], n_aborts := Suc (n_aborts s)\<rparr>"
  have "chat_args iv (abort_commands (b # bs) @ r) s = chat_args iv (abort_commands bs @ r) ?s"
    using Cons.prems abort_pair [of s b iv "abort_commands bs @ r"] by simp
  moreover have "listening (as @ [b]) ?s"
    using Cons.prems by (auto simp: listening_def take_Suc_conv_app_nth)
  then obtain u where "chat_args iv (abort_commands bs @ r) ?s = chat_args iv r u" "no_command u"
      "listening ((as @ [b]) @ bs) u" "n_aborts u \<le> MAX_ABORTS" "same_modem u ?s"
    using Cons.IH [of ?s "as @ [b]"] Cons.prems by (auto simp: no_command_def)
  ultimately show ?case by (auto simp: same_modem_def)
qed (auto simp: same_modem_def)

subsection \<open>Sending the dial string\<close>

lemma write_char_plain:
  "rings s = [] \<Longrightarrow> writes s = [] \<Longrightarrow> \<not> alarmed s \<Longrightarrow>
   write_char c s = Done True (s\<lparr>trail := trail s @ [Pause 10000, Out c]\<rparr>)"
  by (simp add: outcome_simps write_char_def put_char_def wait_us_def time_passes_def log_act_def)

lemma put_loop_plain:
  "no_escapes t \<Longrightarrow> rings s = [] \<Longrightarrow> writes s = [] \<Longrightarrow> \<not> alarmed s \<Longrightarrow>
   put_loop (t @ [NUL]) s = Done True (s\<lparr>trail := trail s @ concat (map (\<lambda>c. [Pause 10000, Out c]) t)\<rparr>)"
proof (induction t arbitrary: s)
  case (Cons c t)
  then have "c \<noteq> NUL" "c \<noteq> Backslash" "no_escapes t" by (auto simp: no_escapes_def)
  with Cons.prems Cons.IH [of "s\<lparr>trail := trail s @ [Pause 10000, Out c]\<rparr>"] show ?case
    by (simp add: bindp_apply write_char_plain)
qed (simp add: outcome_simps)

lemma put_string_plain:
  assumes "no_escapes t" "rings s = []" "writes s = []"
  shows "put_string iv t s = Done True (s\<lparr>quiet_flag := False, alarm_set := False, alarmed := False,
    trail := trail s @ concat (map (\<lambda>c. [Pause 10000, Out c]) (t @ [CHR 0x0D]))\<rparr>)"
proof -
  let ?s = "s\<lparr>quiet_flag := False, alarm_set := chat_timeout s \<noteq> 0, alarmed := False\<rparr>"
  have "no_escapes (t @ [CHR 0x0D])" using assms(1) by (auto simp: no_escapes_def)
  then have "put_loop ((t @ [CHR 0x0D]) @ [NUL]) ?s =
      Done True (?s\<lparr>trail := trail s @ concat (map (\<lambda>c. [Pause 10000, Out c]) (t @ [CHR 0x0D]))\<rparr>)"
    by (subst put_loop_plain) (simp_all add: assms)
  then show ?thesis
    using assms(1) by (simp add: put_string_def outcome_simps cleaned_plain alarm_def clear_alarmed_def)
qed

lemma outs_sent: "outs (s\<lparr>quiet_flag := q, alarm_set := a, alarmed := b,
    trail := trail s @ concat (map (\<lambda>c. [Pause 10000, Out c]) t)\<rparr>) = outs s @ t"
proof -
  have "List.map_filter out_byte (concat (map (\<lambda>c. [Pause 10000, Out c]) t)) = t"
    by (induction t) (simp_all add: map_filter_def)
  then show ?thesis by (simp add: outs_def map_filter_def)
qed

text \<open>A string that is sent as it is.\<close>

definition sends_as_is :: "string \<Rightarrow> bool" where
  "sends_as_is t \<longleftrightarrow> no_escapes t \<and> \<not> (t \<noteq> [] \<and> hd t = CHR ''@'') \<and> t \<noteq> ''EOT'' \<and> t \<noteq> ''BREAK''"

lemma chat_send_plain:
  assumes "no_command s" "sends_as_is t" "rings s = []" "writes s = []"
  shows "\<exists>u. chat_send iv t s = Done (Inr ()) u \<and> core u = core s \<and> stdin u = stdin s \<and>
    outs u = outs s @ t @ [CHR 0x0D]"
  using assms put_string_plain [of t s iv] outs_sent [where t = "t @ [CHR 0x0D]"]
  by (auto simp: chat_send_def no_command_def evalx sends_as_is_def send_file_def sent_text_def)

subsection \<open>The script\<close>

definition script_keywords :: "string list" where
  "script_keywords = [''HANGUP'', ''ABORT'', ''CLR_ABORT'', ''REPORT'', ''CLR_REPORT'', ''TIMEOUT'', ''ECHO'', ''SAY'']"

text \<open>A string that is waited for as it is, without a sub-reply.\<close>

definition waits_as_is :: "string \<Rightarrow> bool" where
  "waits_as_is t \<longleftrightarrow> no_escapes t \<and> t \<noteq> [] \<and> CHR ''-'' \<notin> set t \<and> t \<notin> set script_keywords \<and> length t \<le> STR_LEN"

lemma strtok_loop_whole: "Backslash \<notin> set t \<Longrightarrow> CHR ''-'' \<notin> set t \<Longrightarrow> strtok_loop ''-'' False t = (t, [])"
  by (induction t) auto

fun dial_status :: "hearing \<Rightarrow> int" where
  "dial_status Matched = 0"
| "dial_status (Aborting k) = int k + 4"
| "dial_status Nothing_heard = 3"

text \<open>The last word of a script: the program ends with the status of what was heard.\<close>

lemma last_word:
  assumes "chat_ok s" "listening as s" "waits_as_is t" "tty_restore iv"
  shows "\<exists>u. seqx (chat_args iv [t]) (terminate iv 0 :: unit chatp) s =
      Done (Inl (dial_status (listen t as [] (bytes_heard (stdin s))))) u \<and> ended iv u \<and> outs u = outs s"
proof -
  have t: "no_escapes t" "t \<noteq> []" "length t \<le> STR_LEN" "NUL \<notin> set t"
    using assms(3) by (auto simp: waits_as_is_def no_escapes_def)
  let ?h = "listen t as [] (bytes_heard (stdin s))"
  obtain r u where r: "get_string iv t s = Done r u" "quietly u s" "concluded ?h r u"
    using get_string_listens [OF assms(2) _ t(4), of iv] assms(1) t expected_plain [OF t(1)]
    by (auto simp: chat_ok_def)
  have u: "chat_ok u" "outs u = outs s"
    using assms(1) chat_ok_core [OF quietlyD [OF r(2)]] r(2) by (auto simp: quietly_def)
  have tok: "expect_strtok t ''-'' = (Some t, [])" "expect_strtok [] ''-'' = (None, [])"
    using assms(3) by (simp_all add: expect_strtok_def strtok_loop_whole waits_as_is_def no_escapes_def)
  have "chat_expect iv t = expect_rounds iv t"
    using assms(3) by (simp add: chat_expect_def waits_as_is_def script_keywords_def)
  moreover have "expect_rounds iv t s = (if r then Done (Inr ()) u else terminate iv (exit_code u) u)"
    by (simp add: expect_rounds.simps [of iv t] tok evalx r(1))
  ultimately have expect: "chat_expect iv t s = (if r then Done (Inr ()) u else terminate iv (exit_code u) u)"
    by simp
  define n where "n = (if r then 0 else exit_code u)"
  obtain v where v: "(terminate iv n :: unit chatp) u = Done (Inl n) v" "ended iv v" "outs v = outs u"
    using terminate_ends [OF u(1), of iv n] assms(4) by auto
  have "seqx (chat_args iv [t]) (terminate iv 0 :: unit chatp) s = Done (Inl n) v"
    using expect v(1) by (cases r) (simp_all add: evalx n_def)
  moreover have "n = dial_status ?h"
    using r(3) by (cases ?h) (auto simp: n_def)
  ultimately show ?thesis using v(2,3) u(2) by auto
qed

definition dial_script :: "string list \<Rightarrow> string \<Rightarrow> string \<Rightarrow> string \<Rightarrow> string list" where
  "dial_script aborts secs dial reply = abort_commands aborts @ [''TIMEOUT'', secs, [], dial, reply]"

lemma seqx_cong: "m s = n t \<Longrightarrow> seqx m k s = seqx n k t"
  by (simp add: evalx)

lemma chat_expect_empty: "chat_expect iv [] s = Done (Inr ()) s"
  by (simp add: chat_expect_def expect_rounds.simps expect_strtok_def goon_def ret_apply)

lemma dial_part:
  assumes "chat_ok t" "no_command t" "listening as t" "rings t = []" "writes t = []" "tty_restore iv"
    and "no_escapes secs" "0 < atoi secs" "sends_as_is dial" "waits_as_is reply"
  shows "\<exists>u. seqx (chat_args iv [''TIMEOUT'', secs, [], dial, reply]) (terminate iv 0 :: unit chatp) t =
      Done (Inl (dial_status (listen reply as [] (bytes_heard (stdin t))))) u \<and>
    ended iv u \<and> outs u = outs t @ dial @ [CHR 0x0D]"
proof -
  let ?stop = "terminate iv 0 :: unit chatp"
  define v where "v = t\<lparr>timeout_next := False, chat_timeout := atoi secs\<rparr>"
  have v: "no_command v" "chat_ok v" "listening as v" "rings v = []" "writes v = []" "outs v = outs t" "stdin v = stdin t"
    using assms by (auto simp: v_def no_command_def chat_ok_def listening_def outs_def)
  have "seqx (chat_args iv [''TIMEOUT'', secs, [], dial, reply]) ?stop t = seqx (chat_args iv [[], dial, reply]) ?stop v"
    using timeout_pair [OF assms(2,7,8)] unfolding v_def by (rule seqx_cong)
  moreover obtain w where w: "chat_send iv dial v = Done (Inr ()) w" "core w = core v" "stdin w = stdin v"
      "outs w = outs v @ dial @ [CHR 0x0D]"
    using chat_send_plain [OF v(1) assms(9) v(4,5)] by blast
  moreover have "seqx (chat_args iv [[], dial, reply]) ?stop v = seqx (chat_args iv [reply]) ?stop w"
    using w(1) by (intro seqx_cong) (simp add: evalx chat_expect_empty)
  moreover have "chat_ok w" "listening as w"
    using v(2,3) chat_ok_core [OF w(2)] listening_core [OF w(2)] by auto
  ultimately show ?thesis
    using last_word [of w as reply iv] assms(6,10) v(6,7) by simp
qed

theorem dial_exits:
  assumes "chat_file iv = None" "tty_get iv" "tty_set iv" "tty_restore iv"
    and "\<forall>b \<in> set aborts. no_escapes b \<and> length b < FAIL_BUFFER" "length aborts \<le> MAX_ABORTS"
    and "no_escapes secs" "0 < atoi secs" "sends_as_is dial" "waits_as_is reply"
  shows "\<exists>u. chat_run iv (dial_script aborts secs dial reply) (chat_start es [] []) =
      Done (Inl (dial_status (listen reply aborts [] (bytes_heard es)))) u \<and>
    ended iv u \<and> outs u = dial @ [CHR 0x0D]"
proof -
  let ?stop = "terminate iv 0 :: unit chatp"
  define s where "s = (chat_start es [] [])\<lparr>have_tty_parameters := True, trail := [Tty_set]\<rparr>"
  have s: "no_command s" "listening [] s" "length (abort_string s) = MAX_ABORTS" "n_aborts s = 0"
      "rings s = []" "writes s = []" "stdin s = es" "outs s = []" "\<not> terminating s" "have_tty_parameters s"
      "chat_timeout s \<noteq> 0"
    by (simp_all add: s_def chat_start_def no_command_def listening_def outs_def map_filter_def DEFAULT_CHAT_TIMEOUT_def)
  have "chat_run iv (dial_script aborts secs dial reply) (chat_start es [] []) =
      seqx (chat_args iv (dial_script aborts secs dial reply)) ?stop s"
    using assms(1-3) by (simp add: chat_run_def run_script_def chat_init_def set_tty_parameters_def evalx log_act_def
        stop_alarm_Done s_def chat_start_def)
  moreover obtain t where run: "chat_args iv (dial_script aborts secs dial reply) s =
        chat_args iv [''TIMEOUT'', secs, [], dial, reply] t"
      and t: "no_command t" "listening aborts t" "n_aborts t \<le> MAX_ABORTS" "same_modem t s"
    using abort_commands_run [of s "[]" aborts iv "[''TIMEOUT'', secs, [], dial, reply]"] s assms(5,6)
    by (auto simp: dial_script_def)
  moreover have "seqx (chat_args iv (dial_script aborts secs dial reply)) ?stop s =
      seqx (chat_args iv [''TIMEOUT'', secs, [], dial, reply]) ?stop t"
    using run by (rule seqx_cong)
  moreover have "chat_ok t" "rings t = []" "writes t = []" "stdin t = es" "outs t = []"
    using s t by (auto simp: chat_ok_def same_modem_def outs_def no_command_def)
  ultimately show ?thesis
    using dial_part [of t aborts iv secs dial reply] assms(4,7-10) by simp
qed

subsection \<open>The script of the PPP daemon\<close>

definition script_start :: "string list \<Rightarrow> bool" where
  "script_start args \<longleftrightarrow> (case args of (c # _) # _ \<Rightarrow> c \<noteq> CHR ''-'' | _ \<Rightarrow> True)"

lemma new_option_script: "script_start args \<Longrightarrow> new_option ([] # args) 2 = (None, args, 4)"
  by (auto simp: new_option_def script_start_def split: list.splits)

lemma main_script:
  assumes "script_start args"
  shows "chat_main iv (''chat'' # ''-s'' # ''-v'' # args) s = chat_run iv args s"
proof -
  have "parse_options (''chat'' # ''-s'' # ''-v'' # args) 0 q = Inr (q, args)" for q
    using new_option_script [OF assms]
    by (simp add: parse_options.simps next_option_def new_option_def)
  then show ?thesis by (simp add: chat_main_def outcome_simps)
qed

definition pppd_aborts :: "string list" where
  "pppd_aborts = [''BUSY'', ''NO CARRIER'', ''NO DIALTONE'', ''ERROR'', ''NO ANSWER'']"

definition shell_word :: "string \<Rightarrow> string" where
  "shell_word w = (if w = [] \<or> CHR '' '' \<in> set w then [CHR 0x22] @ w @ [CHR 0x22] else w)"

text \<open>
  The words of the command that \<open>pppd.c\<close> passes on with the option \<open>connect\<close>; a word that is
  empty or has blanks stands in quotes.
\<close>

definition dial_words :: "string \<Rightarrow> string list" where
  "dial_words number = [''-s'', ''-v''] @ dial_script pppd_aborts ''40'' (''ATD'' @ number) ''CONNECT''"

lemma dial_number_words:
  "CHR '' '' \<notin> set number \<Longrightarrow> dial_number number = [CHR 0x27, CHR 0x27] @ ''/system/bin/chat'' @
     concat (map (\<lambda>w. '' '' @ shell_word w) (dial_words number)) @ [CHR 0x27, CHR 0x27]"
  by (simp add: dial_number_def dial_words_def dial_script_def shell_word_def pppd_aborts_def)

theorem dial_words_exit:
  assumes "chat_file iv = None" "tty_get iv" "tty_set iv" "tty_restore iv" "no_escapes number"
  shows "\<exists>u. chat_main iv (''chat'' # dial_words number) (chat_start es [] []) =
      Done (Inl (dial_status (listen ''CONNECT'' pppd_aborts [] (bytes_heard es)))) u \<and>
    ended iv u \<and> outs u = ''ATD'' @ number @ [CHR 0x0D]"
proof -
  have "script_start (dial_script pppd_aborts ''40'' (''ATD'' @ number) ''CONNECT'')"
    by (simp add: script_start_def dial_script_def pppd_aborts_def)
  moreover have "\<forall>b \<in> set pppd_aborts. no_escapes b \<and> length b < FAIL_BUFFER" "length pppd_aborts \<le> MAX_ABORTS"
    by (simp_all add: pppd_aborts_def no_escapes_def chat_sizes)
  moreover have "no_escapes ''40''" "0 < atoi ''40''" by (simp add: no_escapes_def, code_simp)
  moreover have "sends_as_is (''ATD'' @ number)"
    using assms(5) by (simp add: sends_as_is_def no_escapes_def)
  moreover have "waits_as_is ''CONNECT''"
    by (simp add: waits_as_is_def no_escapes_def script_keywords_def chat_sizes)
  ultimately show ?thesis
    using dial_exits [OF assms(1-4), of pppd_aborts "''40''" "''ATD'' @ number" "''CONNECT''" es]
    by (simp add: dial_words_def main_script)
qed

end
