(* ===== verification/ChatFaults.thy ===== *)
theory ChatFaults
  imports ChatDial
begin

section \<open>chat.c: what goes wrong\<close>

text \<open>
  Undefined behaviour and surprises the code runs into: reports that are cleared or that end
  the program, abort strings that are set twice, and a usage error.
\<close>

subsection \<open>The end of a report\<close>

abbreviation incoming :: "string \<Rightarrow> (bool \<times> char option) list" where
  "incoming t \<equiv> map (\<lambda>c. (False, Some c)) t"

definition printable :: "char \<Rightarrow> bool" where
  "printable c \<longleftrightarrow> 32 \<le> code c \<and> code c < 127"

lemma gather_rest_full:
  "length t = n \<Longrightarrow> \<forall>c \<in> set t. printable c \<Longrightarrow> stdin s = incoming t @ es \<Longrightarrow>
   \<exists>u b'. gather_rest n b s = Done b' u \<and> length b' = length b + n"
proof (induction n arbitrary: t b s)
  case (Suc n)
  then obtain c cs where t: "t = c # cs" by (cases t) auto
  have c: "\<not> int (code c mod 128) < 0" "\<not> iscntrl (int (code c mod 128))"
    using Suc.prems(2) t by (auto simp: printable_def iscntrl_def)
  let ?s = "s\<lparr>stdin := incoming cs @ es, alarm_set := False\<rparr>"
  have "\<exists>u b'. gather_rest n (b @ [char_of (code c mod 128)]) ?s = Done b' u \<and>
      length b' = length (b @ [char_of (code c mod 128) :: char]) + n"
    using Suc.prems t by (intro Suc.IH) auto
  moreover have "gather_rest (Suc n) b s = gather_rest n (b @ [char_of (code c mod 128)]) ?s"
    using c Suc.prems(3) t by (simp add: outcome_simps alarm_def get_char_def sigalrm_def)
  ultimately show ?case by simp
qed (simp add: outcome_simps)

theorem report_end_overrun:
  assumes "report_gathering s" "\<not> terminating s" "length (report_buffer s) < REPORT_BUFFER"
    and "length t = REPORT_BUFFER - length (report_buffer s)" "\<forall>c \<in> set t. printable c"
    and "stdin s = incoming t @ es"
  shows "\<exists>u. (terminate iv n :: unit chatp) s = Fault OutOfBounds u"
proof -
  obtain u where u: "echo_stderr (-1) (s\<lparr>terminating := True\<rparr>) = Done () u"
      "core u = core (s\<lparr>terminating := True\<rparr>)" "hears u = hears (s\<lparr>terminating := True\<rparr>)"
    using talksD [OF talks_echo] by blast
  have b: "report_gathering u" "report_buffer u = report_buffer s" "stdin u = incoming t @ es"
    using core_fields(8,9) [OF u(2)] u(3) assms(1,6) by (simp_all add: hears_eq)
  obtain v b' where "gather_rest (REPORT_BUFFER - length (report_buffer s)) (report_buffer s) u = Done b' v"
      "length b' = REPORT_BUFFER"
    using gather_rest_full [OF assms(4,5) b(3), of "report_buffer s"] assms(3) by auto
  with u(1) b assms(2) show ?thesis
    by (auto simp: terminate_def finish_report_def outcome_simps)
qed

subsection \<open>Clearing a report that was heard\<close>

definition seven_bit :: "string \<Rightarrow> bool" where
  "seven_bit t \<longleftrightarrow> (\<forall>c \<in> set t. code c < 128)"

text \<open>A report string arrives while it is waited for: its pointer is cleared.\<close>

lemma hear_report:
  assumes "length rest = Suc n" "temp @ rest = r" "length r < FAIL_BUFFER" "seven_bit r" "length (now_text iv) < 20"
    and "n_reports s = 1" "report_string s = Some r # rs" "n_aborts s = 0" "\<not> report_gathering s"
    and "\<not> echo s" "\<not> Verbose s" "alarm_set s" "\<not> alarmed s" "stdin s = incoming rest"
  shows "expect_loop (Suc (Suc n)) iv r m temp s = Done True (s\<lparr>stdin := [], report_buffer := now_text iv @ r,
    report_string := None # rs, report_gathering := True, alarm_set := False, alarmed := False\<rparr>)"
  using assms
proof (induction n arbitrary: temp rest s)
  case 0
  then obtain c where c: "rest = [c]" by (cases rest) auto
  have "code c < 128" using 0 c by (auto simp: seven_bit_def)
  then have "char_of (code c mod 128) = c" by (simp add: code_def)
  moreover have "length temp < STR_LEN" using 0(2,3) by (auto simp: chat_sizes)
  ultimately show ?case using 0 c
    by (simp add: expect_loop.simps(2) outcome_simps get_char_def sigalrm_def Let_def print_verbose_def
        gather_report_def set_report_buffer_def chat_sizes stop_alarm_Done del: suffix_snoc)
next
  case (Suc n)
  then obtain c cs where c: "rest = c # cs" by (cases rest) auto
  have "code c < 128" using Suc.prems c by (auto simp: seven_bit_def)
  then have cc: "char_of (code c mod 128) = c" by (simp add: code_def)
  have short: "\<not> suffix r (temp @ [c])"
  proof
    assume "suffix r (temp @ [c])"
    then have "length r \<le> length (temp @ [c])" by (rule suffix_length_le)
    with Suc.prems(1,2) c show False by auto
  qed
  have "length temp < STR_LEN" using Suc.prems(2,3) by (auto simp: chat_sizes)
  let ?s = "s\<lparr>stdin := incoming cs\<rparr>"
  have "expect_loop (Suc (Suc (Suc n))) iv r m temp s = expect_loop (Suc (Suc n)) iv r m (temp @ [c]) ?s"
    using Suc.prems c cc short \<open>length temp < STR_LEN\<close>
    by (subst expect_loop.simps(2)) (auto simp: outcome_simps get_char_def sigalrm_def Let_def print_verbose_def
        gather_report_def chat_sizes slide_def simp del: suffix_snoc)
  moreover have "expect_loop (Suc (Suc n)) iv r m (temp @ [c]) ?s = Done True (?s\<lparr>stdin := [],
      report_buffer := now_text iv @ r, report_string := None # rs, report_gathering := True, alarm_set := False, alarmed := False\<rparr>)"
    using Suc.prems c by (intro Suc.IH [of cs]) auto
  ultimately show ?case by simp
qed

lemma report_pair:
  assumes "no_command s" "no_escapes t" "length t < FAIL_BUFFER" "n_reports s < MAX_REPORTS"
  shows "chat_args iv (''REPORT'' # t # r) s = chat_args iv r
    (s\<lparr>report_next := False, report_string := (report_string s)[n_reports s := Some t], n_reports := Suc (n_reports s)\<rparr>)"
  using assms
  by (simp add: evalx chat_expect_def chat_send_def no_command_def add_report_def short_plain)

lemma expect_report:
  assumes "waits_as_is r" "length r < FAIL_BUFFER" "seven_bit r" "length (now_text iv) < 20"
    and "n_reports s = 1" "report_string s = Some r # rs" "n_aborts s = 0" "\<not> report_gathering s"
    and "\<not> echo s" "\<not> Verbose s" "chat_timeout s \<noteq> 0" "stdin s = incoming r"
  shows "\<exists>u. chat_expect iv r s = Done (Inr ()) u \<and> n_reports u = 1 \<and> report_string u = None # rs \<and>
    (no_command s \<longrightarrow> no_command u) \<and> rings u = rings s \<and> writes u = writes s"
proof -
  have r: "no_escapes r" "r \<noteq> []" "length r \<le> STR_LEN"
    using assms(1) by (auto simp: waits_as_is_def)
  then obtain n where n: "length r = Suc n" by (cases r) auto
  let ?s = "s\<lparr>fail_reason := None, alarm_set := True, alarmed := False\<rparr>"
  let ?u = "?s\<lparr>stdin := [], report_buffer := now_text iv @ r, report_string := None # rs, report_gathering := True,
      alarm_set := False, alarmed := False\<rparr>"
  have "expect_loop (Suc (Suc n)) iv r m [] ?s = Done True ?u" for m
    using assms n by (intro hear_report [of r]) auto
  then have g: "get_string iv r s = Done True ?u"
    using r assms(11,12) n
    by (simp add: get_string_def outcome_simps cleaned_plain Let_def alarm_def clear_alarmed_def no_escapes_def)
  have tok: "expect_strtok r ''-'' = (Some r, [])" "expect_strtok [] ''-'' = (None, [])"
    using assms(1) by (simp_all add: expect_strtok_def strtok_loop_whole waits_as_is_def no_escapes_def)
  have "chat_expect iv r s = expect_rounds iv r s"
    using assms(1) by (simp add: chat_expect_def waits_as_is_def script_keywords_def)
  also have "\<dots> = Done (Inr ()) ?u"
    by (simp add: expect_rounds.simps [of iv r] tok evalx g)
  finally show ?thesis using assms(5) by (auto simp: no_command_def)
qed

text \<open>\<open>CLR_REPORT\<close> compares with every pointer of the array, also with one that was cleared.\<close>

lemma clear_cleared:
  assumes "no_command s" "no_escapes t" "length t < FAIL_BUFFER" "n_reports s = 1" "report_string s = None # rs"
  shows "\<exists>u. chat_args iv (''CLR_REPORT'' # t # r) s = Fault NullDeref u"
  using assms
  by (simp add: evalx chat_expect_def chat_send_def no_command_def clear_report_def short_plain clear_strings_def
      clear_loop.simps failp_apply)

theorem clear_report_crash:
  assumes "chat_file iv = None" "tty_get iv" "tty_set iv" "length (now_text iv) < 20"
    and "waits_as_is r" "length r < FAIL_BUFFER" "seven_bit r" "no_escapes t" "length t < FAIL_BUFFER"
  shows "\<exists>u. chat_run iv [''REPORT'', r, r, [], ''CLR_REPORT'', t] (chat_start (incoming r) [] []) = Fault NullDeref u"
proof -
  define s where "s = (chat_start (incoming r) [] [])\<lparr>have_tty_parameters := True, trail := [Tty_set]\<rparr>"
  define s1 where "s1 = s\<lparr>report_next := False, report_string := (report_string s)[n_reports s := Some r],
    n_reports := Suc (n_reports s)\<rparr>"
  have s: "no_command s" "n_reports s < MAX_REPORTS"
    by (simp_all add: s_def chat_start_def no_command_def chat_sizes)
  have s1: "no_command s1" "n_reports s1 = 1" "report_string s1 = Some r # replicate 49 None" "n_aborts s1 = 0"
      "\<not> report_gathering s1" "\<not> echo s1" "\<not> Verbose s1" "chat_timeout s1 \<noteq> 0" "stdin s1 = incoming r"
      "rings s1 = []" "writes s1 = []"
    using s(1) by (simp_all add: s1_def s_def chat_start_def no_command_def MAX_REPORTS_def DEFAULT_CHAT_TIMEOUT_def
        numeral_eq_Suc)
  have r: "no_escapes r" using assms(5) by (simp add: waits_as_is_def)
  obtain u where u: "chat_expect iv r s1 = Done (Inr ()) u" "n_reports u = 1" "report_string u = None # replicate 49 None"
      "no_command u" "rings u = []" "writes u = []"
    using expect_report [OF assms(5-7,4) s1(2-9)] s1(1,10,11) by auto
  have "sends_as_is []" by (simp add: sends_as_is_def no_escapes_def)
  then obtain v where v: "chat_send iv [] u = Done (Inr ()) v" "core v = core u"
    using chat_send_plain [OF u(4) _ u(5,6)] by blast
  have "no_command v" using u(4) v(2) by (simp add: no_command_def core_def)
  then obtain w where w: "chat_args iv [''CLR_REPORT'', t] v = Fault NullDeref w"
    using clear_cleared [OF _ assms(8,9), of v "replicate 49 None" iv "[]"] core_fields(6,7) [OF v(2)] u(2,3) by auto
  have "chat_args iv [''REPORT'', r, r, [], ''CLR_REPORT'', t] s = chat_args iv [r, [], ''CLR_REPORT'', t] s1"
    using report_pair [OF s(1) r assms(6) s(2), of iv "[r, [], ''CLR_REPORT'', t]"] by (simp add: s1_def)
  also have "\<dots> = Fault NullDeref w"
    using u(1) v(1) w by (simp add: evalx)
  finally show ?thesis
    using assms(1-3) by (simp add: chat_run_def run_script_def chat_init_def set_tty_parameters_def evalx log_act_def
        stop_alarm_Done s_def chat_start_def)
qed

subsection \<open>Abort strings that are set twice, and a usage error\<close>

text \<open>\<open>n_aborts\<close> is lowered inside the loop that compares with it: the last entry is not looked at.\<close>

lemma clear_leaves_duplicate:
  "x \<noteq> y \<Longrightarrow> clear_strings x 3 [Some x, Some y, Some x] = Some (2, [Some y, Some x, None])"
  by (simp add: clear_strings_def clear_loop.simps pack_array_def numeral_eq_Suc Let_def)

text \<open>\<open>usage\<close> leaves the program without \<open>terminate\<close>, and the terminal as \<open>chat_init\<close> has set it.\<close>

lemma usage_leaves_tty:
  assumes "chat_file iv = Some f" "args \<noteq> []" "tty_get iv" "tty_set iv"
  shows "\<exists>u. chat_run iv args (chat_start es rs ws) = Done (Inl 1) u \<and> trail u = [Tty_set]"
  using assms by (simp add: chat_run_def run_script_def usage_def chat_init_def set_tty_parameters_def evalx log_act_def
      stop_alarm_Done chat_start_def)

subsection \<open>A number that ends in a backslash\<close>

text \<open>
  \<open>clean\<close> takes the number as it is.  When nothing follows it, \<open>put_string\<close> takes the terminating
  NUL for the character that its backslash escapes, and reads on behind the string.
\<close>

lemma phone_number_overrun:
  assumes "phone_num iv = Some (number @ [Backslash])" "no_escapes number" "rings s = []" "writes s = []"
  shows "\<exists>u. put_string iv [Backslash, CHR ''T'', Backslash, CHR ''c''] s = Fault OutOfBounds u"
proof -
  let ?t = "[Backslash, CHR ''T'', Backslash, CHR ''c'']"
  have "clean iv ?t True = Done () \<lparr>written = number @ [Backslash, NUL], room = length number + 8,
      add_return = False, hide = False\<rparr>"
    using assms(1) by (simp add: clean_def clean_loop.simps clean_escape_def phone_escape_def insert_text_def
        escape_rest_def isoctal_def code_def outcome_simps emits_Done emit_emits)
  then have block: "cleaned iv ?t True u = Done (number @ [Backslash, NUL]) u" for u
    by (simp add: cleaned_def outcome_simps)
  have "\<exists>v. put_loop (number @ [Backslash, NUL]) u = Fault OutOfBounds v"
    if "rings u = []" "writes u = []" "\<not> alarmed u" for u
    using assms(2) that
  proof (induction number arbitrary: u)
    case Nil
    then show ?case by (simp add: bindp_apply write_char_plain failp_apply)
  next
    case (Cons c t)
    then have "c \<noteq> NUL" "c \<noteq> Backslash" "no_escapes t" by (auto simp: no_escapes_def)
    with Cons.prems Cons.IH [of "u\<lparr>trail := trail u @ [Pause 10000, Out c]\<rparr>"] show ?case
      by (simp add: bindp_apply write_char_plain)
  qed
  then obtain v where "put_loop (number @ [Backslash, NUL])
      (s\<lparr>quiet_flag := False, alarm_set := chat_timeout s \<noteq> 0, alarmed := False\<rparr>) = Fault OutOfBounds v"
    using assms(3,4) by fastforce
  then show ?thesis
    by (simp add: put_string_def outcome_simps block alarm_def clear_alarmed_def)
qed

end
