(* ===== verification/ChatScript.thy ===== *)
theory ChatScript
  imports ChatSafe
begin

section \<open>chat.c: scripts in files\<close>

text \<open>
  A script file says the same as the arguments of the command line: words without blanks are
  written as they are, others in quotes.
\<close>

subsection \<open>Writing a script\<close>

definition show_word :: "string \<Rightarrow> string" where
  "show_word w = (if w \<noteq> [] \<and> list_all (\<lambda>c. \<not> is_blank c) w \<and> hd w \<notin> {CHR 0x22, CHR 0x27, CHR ''#''}
     then w else CHR 0x22 # w @ [CHR 0x22])"

definition show_line :: "string list \<Rightarrow> string" where
  "show_line ws = concat (map (\<lambda>w. show_word w @ '' '') ws)"

definition show_file :: "string list list \<Rightarrow> string" where
  "show_file wss = concat (map (\<lambda>ws. show_line ws @ [CHR 0x0A]) wss)"

text \<open>Words that can be written, and lines that fit into the buffer.\<close>

definition word_ok :: "string \<Rightarrow> bool" where
  "word_ok w \<longleftrightarrow> CHR 0x22 \<notin> set w \<and> Backslash \<notin> set w \<and> CHR 0x0A \<notin> set w \<and> NUL \<notin> set w"

definition line_fits :: "string list \<Rightarrow> bool" where
  "line_fits ws \<longleftrightarrow> (\<forall>w \<in> set ws. word_ok w) \<and> length (show_line ws) < STR_LEN - 1"

subsection \<open>Programs that may exit\<close>

lemma bindx_goon [simp]: "bindx (goon x) f = f x"
  by (simp add: bindx_def goon_def fun_eq_iff outcome_simps)

lemma bindx_assoc: "bindx (bindx m f) g = bindx m (\<lambda>x. bindx (f x) g)"
  by (auto simp: bindx_def fun_eq_iff outcome_simps split: outcome.split sum.split)

subsection \<open>Words\<close>

fun run_words :: "invocation \<Rightarrow> bool \<Rightarrow> string list \<Rightarrow> bool chatp" where
  "run_words iv f [] = goon f"
| "run_words iv f (w # ws) = seqx (chat_word iv f w) (run_words iv (\<not> f) ws)"

lemma run_words_append: "run_words iv f (ws @ vs) = bindx (run_words iv f ws) (\<lambda>g. run_words iv g vs)"
  by (induction ws arbitrary: f) (simp_all add: seqx_def bindx_assoc)

lemma chat_args_words: "chat_args iv ws = bindx (run_words iv False ws) (\<lambda>_. goon ())"
proof -
  have unit: "bindx m goon = m" for m :: "unit chatp"
    by (auto simp: bindx_def goon_def fun_eq_iff outcome_simps split: outcome.split sum.split)
  show ?thesis
    by (induction iv ws rule: chat_args.induct)
      (simp_all add: seqx_def bindx_assoc chat_word_def unit)
qed

subsection \<open>Reading what was written\<close>

lemma quoted_word: "q \<notin> set w \<Longrightarrow> Backslash \<notin> set w \<Longrightarrow> q \<noteq> Backslash \<Longrightarrow> quoted_text q (w @ q # r) = Some (w, r)"
  by (induction w) auto

lemma run_line_blank: "run_line iv (CHR '' '' # cs) f = run_line iv cs f"
  by (simp add: run_line.simps is_blank_def)

lemma run_line_word:
  assumes "word_ok w"
  shows "run_line iv (show_word w @ '' '' @ r) f = seqx (chat_word iv f w) (run_line iv r (\<not> f))"
proof (cases "w \<noteq> [] \<and> list_all (\<lambda>c. \<not> is_blank c) w \<and> hd w \<notin> {CHR 0x22, CHR 0x27, CHR ''#''}")
  case True
  then obtain c cs where w: "w = c # cs" by (cases w) auto
  have "takeWhile (\<lambda>c. \<not> is_blank c) (w @ CHR '' '' # r) = w" "dropWhile (\<lambda>c. \<not> is_blank c) (w @ CHR '' '' # r) = CHR '' '' # r"
    using True by (auto simp: takeWhile_append dropWhile_append list_all_iff is_blank_def)
  with True w show ?thesis
    by (auto simp: show_word_def run_line.simps)
next
  case False
  then have "show_word w @ '' '' @ r = CHR 0x22 # w @ CHR 0x22 # CHR '' '' # r"
    by (simp add: show_word_def)
  moreover have "quoted_text CHR 0x22 (w @ CHR 0x22 # CHR '' '' # r) = Some (w, CHR '' '' # r)"
    using assms by (intro quoted_word) (auto simp: word_ok_def)
  ultimately show ?thesis
    by (simp add: run_line.simps is_blank_def run_line_blank)
qed

lemma run_line_words: "\<forall>w \<in> set ws. word_ok w \<Longrightarrow> run_line iv (show_line ws) f = run_words iv f ws"
proof (induction ws arbitrary: f)
  case (Cons w ws)
  then show ?case
    using run_line_word [of w iv "show_line ws" f] by (simp add: show_line_def)
qed (simp add: show_line_def run_line.simps)

lemma show_line_start: "show_line ws \<noteq> [] \<Longrightarrow> hd (show_line ws) \<noteq> CHR ''#''"
  by (cases ws) (auto simp: show_line_def show_word_def)

lemma run_lines_words:
  "\<forall>ws \<in> set wss. \<forall>w \<in> set ws. word_ok w \<Longrightarrow>
   run_lines iv (map show_line wss) f = bindx (run_words iv f (concat wss)) (\<lambda>_. goon ())"
proof (induction wss arbitrary: f)
  case (Cons ws wss)
  have IH: "run_lines iv (map show_line wss) = (\<lambda>g. bindx (run_words iv g (concat wss)) (\<lambda>_. goon ()))"
    using Cons by (intro ext) simp
  have "\<not> (show_line ws \<noteq> [] \<and> hd (show_line ws) = CHR ''#'')" using show_line_start by blast
  with Cons.prems show ?case
    by (simp only: list.map run_lines.simps if_False)
      (simp add: run_line_words run_words_append bindx_assoc IH)
qed simp

lemma file_lines_line:
  assumes "CHR 0x0A \<notin> set l" "NUL \<notin> set l" "length l < STR_LEN - 1"
  shows "file_lines (l @ CHR 0x0A # t) = l # file_lines t"
proof -
  have n: "first_piece (l @ CHR 0x0A # t) = Suc (length l)"
    using assms by (simp add: first_piece_def)
  have "c_string l = l" using assms(2) by (simp add: c_string_def)
  then show ?thesis
    using assms(1) by (simp add: file_lines.simps [of "l @ CHR 0x0A # t"] n)
qed

lemma show_line_chars: "\<forall>w \<in> set ws. word_ok w \<Longrightarrow> CHR 0x0A \<notin> set (show_line ws) \<and> NUL \<notin> set (show_line ws)"
  by (auto simp: show_line_def show_word_def word_ok_def)

lemma file_lines_show: "\<forall>ws \<in> set wss. line_fits ws \<Longrightarrow> file_lines (show_file wss) = map show_line wss"
proof (induction wss)
  case (Cons ws wss)
  then have "file_lines (show_line ws @ CHR 0x0A # show_file wss) = show_line ws # file_lines (show_file wss)"
    using show_line_chars [of ws] by (intro file_lines_line) (auto simp: line_fits_def)
  with Cons show ?case by (simp add: show_file_def)
qed (simp add: show_file_def file_lines.simps)

theorem do_file_arguments:
  assumes "\<forall>ws \<in> set wss. line_fits ws" "file_text iv f = Some (show_file wss)"
  shows "do_file iv f = chat_args iv (concat wss)"
  using assms run_lines_words [of wss iv False]
  by (simp add: do_file_def file_lines_show line_fits_def chat_args_words)

end
