(* ===== verification/ChatMsg.thy ===== *)
theory ChatMsg
  imports CLib
begin

section \<open>chat.c: formatting messages\<close>

text \<open>
  \<open>vfmtmsg\<close>, the \<open>vsprintf\<close> of the chat program.  It writes into a buffer whose length it is
  given: the record \<open>formatter\<close> holds what has been written, the size of the buffer, and the
  variable \<open>buflen\<close>, by which the code decides whether there is room.  A write behind the buffer
  is \<open>OutOfBounds\<close>.  An argument is a number, an address, or the memory from a pointer on; a
  format that takes an argument that was not passed, or one of another kind, uses a wild pointer.
\<close>

unbundle bit_operations_syntax

datatype fmt_arg =
    Number int
  | Address nat
  | Bytes string

record formatter =
  printed :: string
  capacity :: nat
  buflen :: int

subsection \<open>Writing\<close>

definition put_byte :: "char \<Rightarrow> (formatter, unit) prog" where
  "put_byte c = bindp (getp (\<lambda>k. length (printed k) < capacity k)) (\<lambda>fits.
     if fits then modp (\<lambda>k. k\<lparr>printed := printed k @ [c]\<rparr>) else failp OutOfBounds)"

fun put_bytes :: "string \<Rightarrow> (formatter, unit) prog" where
  "put_bytes [] = ret ()"
| "put_bytes (c # cs) = seqp (put_byte c) (put_bytes cs)"

definition spend :: "int \<Rightarrow> (formatter, unit) prog" where
  "spend n = modp (\<lambda>k. k\<lparr>buflen := buflen k - n\<rparr>)"

definition outchar :: "char \<Rightarrow> (formatter, unit) prog" where
  "outchar c = bindp (getp buflen) (\<lambda>n. if n > 0 then seqp (spend 1) (put_byte c) else ret ())"

text \<open>\<open>memcpy\<close> of as much as there is room for.\<close>

definition copy_text :: "string \<Rightarrow> (formatter, unit) prog" where
  "copy_text t = bindp (getp buflen) (\<lambda>n. let u = take (nat n) t
     in seqp (put_bytes u) (spend (int (length u))))"

definition pad_left :: "char \<Rightarrow> int \<Rightarrow> int \<Rightarrow> (formatter, unit) prog" where
  "pad_left fill w len = bindp (getp buflen) (\<lambda>room.
     let n = min w room - len
     in if w > 0 \<and> n > 0 then seqp (spend n) (put_bytes (replicate (nat n) fill)) else ret ())"

subsection \<open>Directives\<close>

record directive =
  fillch :: char
  width :: int
  precision :: int
  from_conv :: string           \<comment> \<open>the text from the conversion character on\<close>

text \<open>A number, or \<open>*\<close> for the next argument.  An \<open>int\<close> that overflows wraps.\<close>

definition star_number :: "string \<Rightarrow> fmt_arg list \<Rightarrow> (int \<times> string \<times> fmt_arg list) option" where
  "star_number f args =
     (if f \<noteq> [] \<and> hd f = CHR ''*'' then
        (case args of Number n # args' \<Rightarrow> Some (n, tl f, args') | _ \<Rightarrow> None)
      else (case scan_digits 10 0 f of (n, f') \<Rightarrow> Some (int_of_long (int n), f', args)))"

definition directive_of :: "string \<Rightarrow> fmt_arg list \<Rightarrow> (directive \<times> fmt_arg list) option" where
  "directive_of f args =
     (let zero = (f \<noteq> [] \<and> hd f = CHR ''0'')
      in case star_number (if zero then tl f else f) args of
           None \<Rightarrow> None
         | Some (w, f1, args1) \<Rightarrow>
             (case (if f1 \<noteq> [] \<and> hd f1 = CHR ''.'' then star_number (tl f1) args1 else Some (0, f1, args1)) of
                None \<Rightarrow> None
              | Some (p, f2, args2) \<Rightarrow> Some (\<lparr>fillch = (if zero then CHR ''0'' else CHR '' ''), width = w, precision = p,
                  from_conv = f2\<rparr>, args2)))"

text \<open>The character of the conversion, NUL at the end of the format.\<close>

definition conversion :: "directive \<Rightarrow> char" where
  "conversion d = (case from_conv d of [] \<Rightarrow> NUL | c # _ \<Rightarrow> c)"

text \<open>
  What is to be printed: the bytes at a pointer, a number with its base and the characters before
  it, a string made visible or quoted, or nothing that the code knows.
\<close>

datatype piece =
    Text string
  | Digits nat nat nat          \<comment> \<open>\<open>base\<close>, \<open>neg\<close>, \<open>val\<close>\<close>
  | Visible bool string
  | Percent

text \<open>\<open>-i\<close> is an \<open>int\<close> that is converted to \<open>unsigned long\<close>.\<close>

definition operand :: "string \<Rightarrow> directive \<Rightarrow> fmt_arg list \<Rightarrow> (piece \<times> fmt_arg list) option" where
  "operand strerror d args =
     (let c = conversion d in
      if c = CHR ''d'' then (case args of
          Number i # r \<Rightarrow> Some (if i < 0 then Digits 10 1 (nat (int_of_long (- i) mod (ULONG_MAX + 1)))
            else Digits 10 0 (nat i), r)
        | _ \<Rightarrow> None)
      else if c = CHR ''o'' \<or> c = CHR ''x'' then (case args of
          Number i # r \<Rightarrow> Some (Digits (if c = CHR ''o'' then 8 else 16) 0 (nat (i mod 4294967296)), r)
        | _ \<Rightarrow> None)
      else if c = CHR ''p'' then (case args of Address a # r \<Rightarrow> Some (Digits 16 2 a, r) | _ \<Rightarrow> None)
      else if c = CHR ''s'' then (case args of Bytes b # r \<Rightarrow> Some (Text b, r) | _ \<Rightarrow> None)
      else if c = CHR ''c'' then (case args of
          Number i # r \<Rightarrow> Some (Text [char_of (nat (i mod 256)), NUL], r)
        | _ \<Rightarrow> None)
      else if c = CHR ''m'' then Some (Text (strerror @ [NUL]), args)
      else if c = CHR ''v'' \<or> c = CHR ''q'' then (case args of
          Bytes b # r \<Rightarrow> Some (Visible (c = CHR ''q'') b, r)
        | _ \<Rightarrow> None)
      else Some (Percent, args))"

definition rest_of_format :: "directive \<Rightarrow> piece \<Rightarrow> string" where
  "rest_of_format d p = (if p = Percent \<and> conversion d \<noteq> CHR ''%'' then from_conv d else tl (from_conv d))"

subsection \<open>Printing a piece\<close>

text \<open>
  The digits are written from the end of \<open>num\<close> backwards; the first argument counts the
  places that are left, \<open>neg\<close> of the 31 being kept for the sign or for \<open>0x\<close>.
\<close>

fun digits_back :: "nat \<Rightarrow> nat \<Rightarrow> int \<Rightarrow> nat \<Rightarrow> string \<Rightarrow> string" where
  "digits_back 0 base pr val acc = acc"
| "digits_back (Suc n) base pr val acc =
     (let acc' = digit_char (val mod base) # acc
      in if pr - 1 \<le> 0 \<and> val div base = 0 then acc' else digits_back n base (pr - 1) (val div base) acc')"

definition number_text :: "nat \<Rightarrow> nat \<Rightarrow> int \<Rightarrow> nat \<Rightarrow> string" where
  "number_text base neg pr val =
     (if neg = 1 then ''-'' else if neg = 2 then ''0x'' else []) @ digits_back (31 - neg) base pr val []"

definition visible_char :: "bool \<Rightarrow> char \<Rightarrow> (formatter, unit) prog" where
  "visible_char q ch =
     (let meta = (\<not> q \<and> code ch \<ge> 128); c = (if meta then code ch - 128 else code ch) in
      seqp (if meta then seqp (outchar CHR ''M'') (outchar CHR ''-'') else ret ())
      (seqp (if q \<and> (c = 34 \<or> c = 92) then outchar CHR 0x5C else ret ())
      (if c < 32 \<or> (127 \<le> c \<and> c < 160) then
         (if q then seqp (outchar CHR 0x5C)
            (if c = 9 then outchar CHR ''t'' else if c = 10 then outchar CHR ''n''
             else if c = 8 then outchar CHR ''b'' else if c = 12 then outchar CHR ''f''
             else seqp (outchar CHR ''x'') (seqp (outchar (digit_char (c div 16))) (outchar (digit_char (c mod 16)))))
          else if c = 9 then outchar (char_of c)
          else seqp (outchar CHR ''^'') (outchar (char_of (c XOR 64))))
       else outchar (char_of c))))"

fun visible_loop :: "bool \<Rightarrow> nat \<Rightarrow> string \<Rightarrow> (formatter, unit) prog" where
  "visible_loop q 0 p = ret ()"
| "visible_loop q (Suc n) p = bindp (getp buflen) (\<lambda>room.
     if room \<le> 0 then ret ()
     else (case p of [] \<Rightarrow> failp OutOfBounds | c # p' \<Rightarrow> seqp (visible_char q c) (visible_loop q n p')))"

text \<open>\<open>strlen\<close>, and a number that is cut to a precision.\<close>

definition strlen_at :: "string \<Rightarrow> nat option" where
  "strlen_at b = (if NUL \<in> set b then Some (length (c_string b)) else None)"

definition cut_length :: "int \<Rightarrow> nat \<Rightarrow> nat" where
  "cut_length pr n = (if pr > 0 \<and> pr < int n then nat pr else n)"

definition put_piece :: "directive \<Rightarrow> piece \<Rightarrow> (formatter, unit) prog" where
  "put_piece d p = (case p of
      Text b \<Rightarrow> (case strlen_at b of
          None \<Rightarrow> failp OutOfBounds
        | Some n \<Rightarrow> seqp (pad_left (fillch d) (width d) (int (cut_length (precision d) n))) (copy_text (take (cut_length (precision d) n) b)))
    | Digits base neg val \<Rightarrow> (let t = number_text base neg (precision d) val
        in seqp (pad_left (fillch d) (width d) (int (length t))) (copy_text t))
    | Visible q b \<Rightarrow>
        (if fillch d = CHR ''0'' \<and> precision d > 0 then visible_loop q (nat (precision d)) b
         else (case strlen_at b of None \<Rightarrow> failp OutOfBounds | Some n \<Rightarrow> visible_loop q (cut_length (precision d) n) b))
    | Percent \<Rightarrow> seqp (put_byte CHR ''%'') (spend 1))"

subsection \<open>The loop\<close>

lemma star_number_rest: "star_number f args = Some (n, f', args') \<Longrightarrow> length f' \<le> length f"
proof -
  have "length (snd (scan_digits b acc f)) \<le> length f" for b acc
    by (induction b acc f rule: scan_digits.induct) (auto split: option.splits)
  from this [of 10 0] show "star_number f args = Some (n, f', args') \<Longrightarrow> length f' \<le> length f"
    by (auto simp: star_number_def split: if_splits list.splits fmt_arg.splits prod.splits)
qed

lemma directive_rest: "directive_of f args = Some (d, args') \<Longrightarrow> length (from_conv d) \<le> length f"
  by (fastforce simp: directive_of_def Let_def split: if_splits option.splits prod.splits
      dest!: star_number_rest intro: le_trans diff_le_self le_trans [OF _ diff_le_self])

lemma rest_of_format_rest: "length (rest_of_format d p) \<le> length (from_conv d)"
  by (simp add: rest_of_format_def)

lemma format_less:
  assumes "dropWhile (\<lambda>c. c \<noteq> CHR ''%'') f = x # r" "directive_of r args = Some (d, args')"
  shows "length (rest_of_format d p) < length f"
proof -
  have "length (rest_of_format d p) \<le> length r"
    using directive_rest [OF assms(2)] rest_of_format_rest le_trans by blast
  moreover have "Suc (length r) \<le> length f"
    using arg_cong [OF assms(1), of length] length_dropWhile_le [of "\<lambda>c. c \<noteq> CHR ''%''" f] by simp
  ultimately show ?thesis by simp
qed

function fmt_loop :: "string \<Rightarrow> string \<Rightarrow> fmt_arg list \<Rightarrow> (formatter, unit) prog" where
  "fmt_loop strerror f args = bindp (getp buflen) (\<lambda>n. if n \<le> 0 then ret () else
     seqp (copy_text (takeWhile (\<lambda>c. c \<noteq> CHR ''%'') f))
       (case dropWhile (\<lambda>c. c \<noteq> CHR ''%'') f of
          [] \<Rightarrow> ret ()
        | _ # r \<Rightarrow> (case directive_of r args of
              None \<Rightarrow> failp WildPointer
            | Some (d, args1) \<Rightarrow> (case operand strerror d args1 of
                  None \<Rightarrow> failp WildPointer
                | Some (p, args2) \<Rightarrow> seqp (put_piece d p) (fmt_loop strerror (rest_of_format d p) args2)))))"
  by pat_completeness auto

termination
  by (relation "measure (\<lambda>(e, f, args). length f)") (auto intro: format_less)

declare fmt_loop.simps [simp del]

text \<open>The result is the length of the text without the terminating NUL.\<close>

definition vfmtmsg :: "string \<Rightarrow> nat \<Rightarrow> string \<Rightarrow> fmt_arg list \<Rightarrow> (formatter, nat) outcome" where
  "vfmtmsg strerror n f args =
     seqp (fmt_loop strerror f args) (bindp (getp (\<lambda>k. length (printed k))) (\<lambda>l. seqp (put_byte NUL) (ret l)))
       \<lparr>printed = [], capacity = n, buflen = int n - 1\<rparr>"

subsection \<open>What a message says\<close>

text \<open>
  The reference: what the format prints when there is room enough.
\<close>

definition visible_text :: "bool \<Rightarrow> char \<Rightarrow> string" where
  "visible_text q ch =
     (let meta = (\<not> q \<and> code ch \<ge> 128); c = (if meta then code ch - 128 else code ch) in
      (if meta then ''M-'' else []) @ (if q \<and> (c = 34 \<or> c = 92) then [CHR 0x5C] else []) @
      (if c < 32 \<or> (127 \<le> c \<and> c < 160) then
         (if q then CHR 0x5C #
            (if c = 9 then ''t'' else if c = 10 then ''n'' else if c = 8 then ''b'' else if c = 12 then ''f''
             else [CHR ''x'', digit_char (c div 16), digit_char (c mod 16)])
          else if c = 9 then [char_of c]
          else [CHR ''^'', char_of (c XOR 64)])
       else [char_of c]))"

definition visible_length :: "directive \<Rightarrow> string \<Rightarrow> nat" where
  "visible_length d b = (if fillch d = CHR ''0'' \<and> precision d > 0 then nat (precision d)
     else cut_length (precision d) (length (c_string b)))"

definition piece_text :: "directive \<Rightarrow> piece \<Rightarrow> string" where
  "piece_text d p = (case p of
      Text b \<Rightarrow> take (cut_length (precision d) (length (c_string b))) b
    | Digits base neg val \<Rightarrow> number_text base neg (precision d) val
    | Visible q b \<Rightarrow> concat (map (visible_text q) (take (visible_length d b) b))
    | Percent \<Rightarrow> ''%'')"

function message_text :: "string \<Rightarrow> string \<Rightarrow> fmt_arg list \<Rightarrow> string" where
  "message_text strerror f args = takeWhile (\<lambda>c. c \<noteq> CHR ''%'') f @
     (case dropWhile (\<lambda>c. c \<noteq> CHR ''%'') f of
        [] \<Rightarrow> []
      | _ # r \<Rightarrow> (case directive_of r args of
            None \<Rightarrow> []
          | Some (d, args1) \<Rightarrow> (case operand strerror d args1 of
                None \<Rightarrow> []
              | Some (p, args2) \<Rightarrow> piece_text d p @ message_text strerror (rest_of_format d p) args2)))"
  by pat_completeness auto

termination
  by (relation "measure (\<lambda>(e, f, args). length f)") (auto intro: format_less)

text \<open>
  A format without widths and without directives that the code does not know, with arguments
  that fit it.
\<close>

definition piece_ok :: "directive \<Rightarrow> piece \<Rightarrow> bool" where
  "piece_ok d p \<longleftrightarrow> width d \<le> 0 \<and> (case p of
      Text b \<Rightarrow> NUL \<in> set b
    | Digits base neg val \<Rightarrow> True
    | Visible q b \<Rightarrow> (if fillch d = CHR ''0'' \<and> precision d > 0 then precision d \<le> int (length b) else NUL \<in> set b)
    | Percent \<Rightarrow> False)"

function format_ok :: "string \<Rightarrow> string \<Rightarrow> fmt_arg list \<Rightarrow> bool" where
  "format_ok strerror f args = (case dropWhile (\<lambda>c. c \<noteq> CHR ''%'') f of
        [] \<Rightarrow> True
      | _ # r \<Rightarrow> (case directive_of r args of
            None \<Rightarrow> False
          | Some (d, args1) \<Rightarrow> (case operand strerror d args1 of
                None \<Rightarrow> False
              | Some (p, args2) \<Rightarrow> piece_ok d p \<and> format_ok strerror (rest_of_format d p) args2)))"
  by pat_completeness auto

termination
  by (relation "measure (\<lambda>(e, f, args). length f)") (auto intro: format_less)

declare message_text.simps [simp del] format_ok.simps [simp del]

text \<open>\<open>prints m t\<close>: whenever the variables agree, \<open>m\<close> writes as much of \<open>t\<close> as there is room for.\<close>

definition fmt_inv :: "formatter \<Rightarrow> bool" where
  "fmt_inv k \<longleftrightarrow> 0 \<le> buflen k \<and> int (length (printed k)) + buflen k = int (capacity k) - 1"

definition prints :: "(formatter, unit) prog \<Rightarrow> string \<Rightarrow> bool" where
  "prints m t \<longleftrightarrow> (\<forall>k. fmt_inv k \<longrightarrow> m k = Done () (k\<lparr>printed := printed k @ take (nat (buflen k)) t,
     buflen := buflen k - int (length (take (nat (buflen k)) t))\<rparr>))"

lemma printsD: "prints m t \<Longrightarrow> fmt_inv k \<Longrightarrow> m k = Done () (k\<lparr>printed := printed k @ take (nat (buflen k)) t,
     buflen := buflen k - int (length (take (nat (buflen k)) t))\<rparr>)"
  by (simp add: prints_def)

lemma prints_ret: "prints (ret ()) []"
  by (simp add: prints_def ret_apply)

lemma put_bytes_Done:
  "length (printed k) + length t \<le> capacity k \<Longrightarrow> put_bytes t k = Done () (k\<lparr>printed := printed k @ t\<rparr>)"
  by (induction t arbitrary: k) (auto simp: put_byte_def outcome_simps)

lemma prints_copy: "prints (copy_text t) t"
proof -
  have "put_bytes (take (nat (buflen k)) t) k = Done () (k\<lparr>printed := printed k @ take (nat (buflen k)) t\<rparr>)"
    if "fmt_inv k" for k
    using that by (intro put_bytes_Done) (auto simp: fmt_inv_def min_def)
  then show ?thesis
    by (simp add: prints_def copy_text_def outcome_simps spend_def Let_def)
qed

lemma prints_outchar: "prints (outchar c) [c]"
  by (auto simp: prints_def outchar_def outcome_simps spend_def fmt_inv_def put_byte_def take_Cons')

lemma prints_seq:
  assumes "prints m t" "prints n u"
  shows "prints (seqp m n) (t @ u)"
  unfolding prints_def
proof (intro allI impI)
  fix k assume k: "fmt_inv k"
  let ?k = "k\<lparr>printed := printed k @ take (nat (buflen k)) t, buflen := buflen k - int (length (take (nat (buflen k)) t))\<rparr>"
  have "fmt_inv ?k" using k by (auto simp: fmt_inv_def min_def)
  moreover have "nat (buflen ?k) = nat (buflen k) - length t" using k by (simp add: fmt_inv_def)
  ultimately show "seqp m n k = Done () (k\<lparr>printed := printed k @ take (nat (buflen k)) (t @ u),
      buflen := buflen k - int (length (take (nat (buflen k)) (t @ u)))\<rparr>)"
    using printsD [OF assms(1) k] printsD [OF assms(2), of ?k] by (simp add: seqp_apply)
qed

lemma prints_if: "(b \<Longrightarrow> prints m t) \<Longrightarrow> (\<not> b \<Longrightarrow> prints n u) \<Longrightarrow> prints (if b then m else n) (if b then t else u)"
  by simp

lemma prints_room: "prints m t \<Longrightarrow> prints (bindp (getp buflen) (\<lambda>n. if n \<le> 0 then ret () else m)) t"
  by (auto simp: prints_def outcome_simps fmt_inv_def)

lemma prints_visible: "prints (visible_char q c) (visible_text q c)"
proof -
  have "prints (if b then outchar c else ret ()) (if b then [c] else [])" for b c
    by (simp add: prints_outchar prints_ret)
  moreover have "prints (seqp (outchar c) (outchar d)) [c, d]" for c d
    using prints_seq [OF prints_outchar prints_outchar] by simp
  moreover have "prints (seqp (outchar c) m) (c # t)" if "prints m t" for c m t
    using prints_seq [OF prints_outchar that] by simp
  ultimately show ?thesis
    unfolding visible_char_def visible_text_def Let_def
    by (intro prints_seq prints_if prints_outchar) (simp_all add: prints_outchar prints_ret)
qed

lemma prints_visible_loop:
  "n \<le> length b \<Longrightarrow> prints (visible_loop q n b) (concat (map (visible_text q) (take n b)))"
proof (induction n arbitrary: b)
  case (Suc n)
  then obtain c p where "b = c # p" "n \<le> length p" by (cases b) auto
  with Suc.IH [of p] show ?case by (auto intro!: prints_room prints_seq prints_visible)
qed (simp add: prints_ret)

lemma prints_pad: "w \<le> 0 \<Longrightarrow> prints (seqp (pad_left c w n) m) t = prints m t"
  by (simp add: prints_def pad_left_def outcome_simps)

lemma prints_piece: "piece_ok d p \<Longrightarrow> prints (put_piece d p) (piece_text d p)"
proof (cases p)
  case (Visible q b)
  assume "piece_ok d p"
  moreover have "length (c_string b) \<le> length b"
    by (simp add: c_string_def length_takeWhile_le)
  ultimately show ?thesis
    using Visible by (auto simp: piece_ok_def put_piece_def piece_text_def visible_length_def strlen_at_def cut_length_def
        intro!: prints_visible_loop)
qed (auto simp: piece_ok_def put_piece_def piece_text_def strlen_at_def prints_pad prints_copy Let_def)

lemma prints_format: "format_ok strerror f args \<Longrightarrow> prints (fmt_loop strerror f args) (message_text strerror f args)"
proof (induction strerror f args rule: format_ok.induct)
  case (1 strerror f args)
  let ?rest = "\<lambda>c. c \<noteq> CHR ''%''"
  have "prints (case dropWhile ?rest f of [] \<Rightarrow> ret ()
        | _ # r \<Rightarrow> (case directive_of r args of None \<Rightarrow> failp WildPointer
            | Some (d, args1) \<Rightarrow> (case operand strerror d args1 of None \<Rightarrow> failp WildPointer
                | Some (p, args2) \<Rightarrow> seqp (put_piece d p) (fmt_loop strerror (rest_of_format d p) args2))))
      (case dropWhile ?rest f of [] \<Rightarrow> []
        | _ # r \<Rightarrow> (case directive_of r args of None \<Rightarrow> []
            | Some (d, args1) \<Rightarrow> (case operand strerror d args1 of None \<Rightarrow> []
                | Some (p, args2) \<Rightarrow> piece_text d p @ message_text strerror (rest_of_format d p) args2)))"
  proof (cases "dropWhile ?rest f")
    case Nil
    show ?thesis unfolding Nil by (simp add: prints_ret)
  next
    case (Cons x r)
    then obtain d args1 p args2 where "directive_of r args = Some (d, args1)" "operand strerror d args1 = Some (p, args2)"
        "piece_ok d p" "format_ok strerror (rest_of_format d p) args2"
      using "1.prems" by (subst (asm) format_ok.simps) (auto split: option.splits)
    with Cons "1.IH" show ?thesis by (simp add: prints_seq prints_piece)
  qed
  then show ?case
    unfolding fmt_loop.simps [of strerror f args] message_text.simps [of strerror f args]
    by (intro prints_room prints_seq prints_copy)
qed

text \<open>The text that \<open>vfmtmsg\<close> leaves in its buffer, and its result.\<close>

theorem vfmtmsg_text:
  assumes "format_ok strerror f args" "0 < n"
  shows "\<exists>k. vfmtmsg strerror n f args = Done (min (n - 1) (length (message_text strerror f args))) k \<and>
    capacity k = n \<and> printed k = take (n - 1) (message_text strerror f args) @ [NUL]"
proof -
  let ?k = "\<lparr>printed = [], capacity = n, buflen = int n - 1\<rparr>"
  have "fmt_inv ?k" using assms(2) by (simp add: fmt_inv_def)
  moreover have "nat (int n - 1) = n - 1" by simp
  ultimately show ?thesis
    using printsD [OF prints_format [OF assms(1)], of ?k] assms(2)
    by (simp add: vfmtmsg_def outcome_simps put_byte_def min.commute)
qed

text \<open>
  A directive that the code does not know is not checked against the room: behind a text that
  fills the buffer it is written where the terminating NUL belongs, and the NUL behind the buffer.
\<close>

theorem percent_overrun:
  assumes "CHR ''%'' \<notin> set t" "0 < length t"
  shows "\<exists>k. vfmtmsg strerror (Suc (length t)) (t @ ''%%'') args = Fault OutOfBounds k"
proof -
  have "directive_of ''%'' args = Some (\<lparr>fillch = CHR '' '', width = 0, precision = 0, from_conv = ''%''\<rparr>, args)"
    by (simp add: directive_of_def star_number_def digit_val_def code_def int_of_long_def)
  moreover have "takeWhile (\<lambda>c. c \<noteq> CHR ''%'') (t @ ''%%'') = t" "dropWhile (\<lambda>c. c \<noteq> CHR ''%'') (t @ ''%%'') = ''%%''"
    using assms(1) by (auto simp: takeWhile_append2 dropWhile_append2)
  ultimately show ?thesis
    using assms(2)
    by (simp add: vfmtmsg_def fmt_loop.simps [of _ "t @ ''%%''"] fmt_loop.simps [of _ "[]"] outcome_simps copy_text_def
        put_bytes_Done operand_def conversion_def put_piece_def put_byte_def spend_def rest_of_format_def Let_def)
qed

subsection \<open>Numbers\<close>

lemma digits_back_print:
  "2 \<le> b \<Longrightarrow> pr \<le> 1 \<Longrightarrow> val < b ^ Suc m \<Longrightarrow> digits_back (Suc m) b pr val acc = print_nat b val @ acc"
proof (induction m arbitrary: pr val acc)
  case (Suc m)
  have "val div b < b ^ Suc m"
    using Suc.prems by (simp add: div_less_iff_less_mult mult.commute)
  moreover have "val div b = 0 \<longleftrightarrow> val < b"
    using Suc.prems by (simp add: div_eq_0_iff)
  ultimately show ?case
    using Suc.prems Suc.IH [of "pr - 1" "val div b"]
    by (simp add: Let_def print_nat.simps [of b val] del: power_Suc)
qed (simp add: print_nat.simps)

subsection \<open>Messages, item by item\<close>

text \<open>
  A message apart from how its format is read: the items it is made of.  \<open>Start n s\<close> is the
  first \<open>n\<close> characters of a string, \<open>Seen n b\<close> the first \<open>n\<close> bytes at a pointer made visible.
\<close>

datatype fmt_item =
    Literal string | Decimal int | Octal int | Hexadecimal int | Pointer nat | Str string
  | Start nat string | Character char | Error_text | Seen_text string | Seen nat string | Quoted string

fun item_format :: "fmt_item \<Rightarrow> string" where
  "item_format (Literal t) = t"
| "item_format (Decimal i) = ''%d''"
| "item_format (Octal i) = ''%o''"
| "item_format (Hexadecimal i) = ''%x''"
| "item_format (Pointer a) = ''%p''"
| "item_format (Str s) = ''%s''"
| "item_format (Start n s) = ''%.'' @ print_nat 10 n @ ''s''"
| "item_format (Character c) = ''%c''"
| "item_format Error_text = ''%m''"
| "item_format (Seen_text s) = ''%v''"
| "item_format (Seen n b) = ''%0.*v''"
| "item_format (Quoted s) = ''%q''"

fun item_args :: "fmt_item \<Rightarrow> fmt_arg list" where
  "item_args (Literal t) = []"
| "item_args (Decimal i) = [Number i]"
| "item_args (Octal i) = [Number i]"
| "item_args (Hexadecimal i) = [Number i]"
| "item_args (Pointer a) = [Address a]"
| "item_args (Str s) = [Bytes (s @ [NUL])]"
| "item_args (Start n s) = [Bytes (s @ [NUL])]"
| "item_args (Character c) = [Number (int (code c))]"
| "item_args Error_text = []"
| "item_args (Seen_text s) = [Bytes (s @ [NUL])]"
| "item_args (Seen n b) = [Number (int n), Bytes b]"
| "item_args (Quoted s) = [Bytes (s @ [NUL])]"

text \<open>What is to be read: numbers in base 10, 8 and 16, an address after \<open>0x\<close>, and the texts.\<close>

fun item_text :: "string \<Rightarrow> fmt_item \<Rightarrow> string" where
  "item_text e (Literal t) = t"
| "item_text e (Decimal i) = print_d i"
| "item_text e (Octal i) = print_nat 8 (nat (i mod 4294967296))"
| "item_text e (Hexadecimal i) = print_nat 16 (nat (i mod 4294967296))"
| "item_text e (Pointer a) = ''0x'' @ print_nat 16 a"
| "item_text e (Str s) = s"
| "item_text e (Start n s) = take n s"
| "item_text e (Character c) = [c]"
| "item_text e Error_text = e"
| "item_text e (Seen_text s) = concat (map (visible_text False) s)"
| "item_text e (Seen n b) = concat (map (visible_text False) (take n b))"
| "item_text e (Quoted s) = concat (map (visible_text True) s)"

fun item_ok :: "fmt_item \<Rightarrow> bool" where
  "item_ok (Literal t) = (CHR ''%'' \<notin> set t)"
| "item_ok (Decimal i) = (int32 i \<and> i \<noteq> - 2147483648)"
| "item_ok (Octal i) = True"
| "item_ok (Hexadecimal i) = True"
| "item_ok (Pointer a) = (a < 18446744073709551616)"
| "item_ok (Str s) = (NUL \<notin> set s)"
| "item_ok (Start n s) = (NUL \<notin> set s \<and> 0 < n \<and> n < 2147483648)"
| "item_ok (Character c) = (c \<noteq> NUL)"
| "item_ok Error_text = True"
| "item_ok (Seen_text s) = (NUL \<notin> set s)"
| "item_ok (Seen n b) = (0 < n \<and> n \<le> length b)"
| "item_ok (Quoted s) = (NUL \<notin> set s)"

lemma literal_first:
  assumes "CHR ''%'' \<notin> set t"
  shows "message_text e (t @ f) args = t @ message_text e f args" "format_ok e (t @ f) args = format_ok e f args"
proof -
  have t: "\<forall>c \<in> set t. c \<noteq> CHR ''%''" using assms by metis
  show "message_text e (t @ f) args = t @ message_text e f args"
    by (simp add: message_text.simps [of e "t @ f"] message_text.simps [of e f] takeWhile_append2 dropWhile_append2 t)
  show "format_ok e (t @ f) args = format_ok e f args"
    by (simp add: format_ok.simps [of e "t @ f"] format_ok.simps [of e f] dropWhile_append2 t)
qed

lemma directive_first:
  assumes "directive_of r args = Some (d, args1)" and "operand e d args1 = Some (p, args2)"
  shows "message_text e (CHR ''%'' # r) args = piece_text d p @ message_text e (rest_of_format d p) args2"
    "format_ok e (CHR ''%'' # r) args \<longleftrightarrow> piece_ok d p \<and> format_ok e (rest_of_format d p) args2"
  using assms by (simp_all add: message_text.simps [of e "CHR ''%'' # r"] format_ok.simps [of e "CHR ''%'' # r"])

lemma plain_directive:
  assumes "digit_val 10 c = None" and "c \<noteq> CHR ''*''" and "c \<noteq> CHR ''.''" and "c \<noteq> CHR ''0''"
  shows "directive_of (c # f) args = Some (\<lparr>fillch = CHR '' '', width = 0, precision = 0, from_conv = c # f\<rparr>, args)"
  using assms by (simp add: directive_of_def star_number_def int_of_long_def)

lemma start_directive:
  assumes "n < 2147483648"
  shows "directive_of (CHR ''.'' # print_nat 10 n @ CHR ''s'' # f) args =
    Some (\<lparr>fillch = CHR '' '', width = 0, precision = int n, from_conv = CHR ''s'' # f\<rparr>, args)"
proof -
  have d: "digit_val 10 (CHR ''.'') = None" "digit_val 10 (CHR ''s'') = None" "digit_val 10 (CHR ''*'') = None"
    by code_simp+
  then have "scan_digits 10 0 (print_nat 10 n @ CHR ''s'' # f) = (n, CHR ''s'' # f)"
    by (intro scan_print_nat) (simp_all add: starts_digit_def)
  moreover have "hd (print_nat 10 n) \<noteq> CHR ''*''"
    using hd_print_nat [of 10 n] d(3) by auto
  then have "hd (print_nat 10 n @ CHR ''s'' # f) \<noteq> CHR ''*''"
    by simp
  ultimately show ?thesis
    using d assms by (simp add: directive_of_def star_number_def int_of_long_def)
qed

lemma seen_directive:
  "directive_of (CHR ''0'' # CHR ''.'' # CHR ''*'' # CHR ''v'' # f) (Number n # args) =
     Some (\<lparr>fillch = CHR ''0'', width = 0, precision = n, from_conv = CHR ''v'' # f\<rparr>, args)"
proof -
  have "digit_val 10 (CHR ''.'') = None" by code_simp
  then show ?thesis by (simp add: directive_of_def star_number_def int_of_long_def)
qed

lemma letters: "digit_val 10 (CHR ''d'') = None" "digit_val 10 (CHR ''o'') = None" "digit_val 10 (CHR ''x'') = None"
  "digit_val 10 (CHR ''p'') = None" "digit_val 10 (CHR ''s'') = None" "digit_val 10 (CHR ''c'') = None"
  "digit_val 10 (CHR ''m'') = None" "digit_val 10 (CHR ''v'') = None" "digit_val 10 (CHR ''q'') = None"
  by code_simp+

lemma number_print:
  assumes "2 \<le> b" and "neg \<le> 2" and "val < b ^ 29"
  shows "number_text b neg 0 val = (if neg = 1 then ''-'' else if neg = 2 then ''0x'' else []) @ print_nat b val"
proof -
  have "b ^ 29 \<le> b ^ Suc (30 - neg)"
    using assms(1,2) by (intro power_increasing) auto
  then have "digits_back (Suc (30 - neg)) b 0 val [] = print_nat b val @ []"
    using assms by (intro digits_back_print) auto
  moreover have "31 - neg = Suc (30 - neg)" using assms(2) by simp
  ultimately show ?thesis by (simp add: number_text_def)
qed

lemma item_first:
  assumes "item_ok x" and "NUL \<notin> set e"
  shows "message_text e (item_format x @ f) (item_args x @ args) = item_text e x @ message_text e f args"
    "format_ok e (item_format x @ f) (item_args x @ args) = format_ok e f args"
proof -
  have small: "nat (i mod 4294967296) < 8 ^ 29" "nat (i mod 4294967296) < 16 ^ 29" for i
    by (simp_all add: nat_less_iff pos_mod_bound [of 4294967296 i, THEN less_trans])
  have dec: "nat (- i mod (ULONG_MAX + 1)) = nat (- i)" if "i < 0" "- 2147483648 \<le> i" for i
    using that by (simp add: ULONG_MAX_def)
  have char: "char_of (nat (int (code c) mod 256)) = c" for c
    by (simp add: code_def nat_mod_distrib)
  show "message_text e (item_format x @ f) (item_args x @ args) = item_text e x @ message_text e f args"
    using assms small
    by (cases x) (auto simp: literal_first directive_first plain_directive letters start_directive seen_directive
      operand_def conversion_def rest_of_format_def piece_text_def cut_length_def visible_length_def c_string_def
      number_print dec char print_d_def int32_def)
  show "format_ok e (item_format x @ f) (item_args x @ args) = format_ok e f args"
    using assms
    by (cases x) (auto simp: literal_first directive_first plain_directive letters start_directive seen_directive
      operand_def conversion_def rest_of_format_def piece_ok_def)
qed

definition message_format :: "fmt_item list \<Rightarrow> string" where
  "message_format xs = concat (map item_format xs)"

definition message_args :: "fmt_item list \<Rightarrow> fmt_arg list" where
  "message_args xs = concat (map item_args xs)"

lemma message_items:
  assumes "list_all item_ok xs" and "NUL \<notin> set e"
  shows "message_text e (message_format xs) (message_args xs) = concat (map (item_text e) xs)"
    "format_ok e (message_format xs) (message_args xs)"
  using assms(1)
  by (induction xs)
    (simp_all add: message_format_def message_args_def item_first [OF _ assms(2)] message_text.simps [of e "[]"] format_ok.simps [of e "[]"])

subsection \<open>msgf and fatal\<close>

datatype message =
    Syslog_info string
  | Syslog_error string
  | Stderr_line string
  | Android_log string

definition LINE_SIZE :: nat where "LINE_SIZE = 1024"    \<comment> \<open>\<open>sizeof(line)\<close>\<close>

definition message_line :: "string \<Rightarrow> string \<Rightarrow> fmt_arg list \<Rightarrow> string option" where
  "message_line strerror f args = (case vfmtmsg strerror LINE_SIZE f args of
      Done _ k \<Rightarrow> Some (c_string (printed k)) | _ \<Rightarrow> None)"

text \<open>
  What \<open>msgf\<close> and \<open>fatal\<close> report, for the variables \<open>to_log\<close> and \<open>to_stderr\<close>; \<open>None\<close> is
  undefined behaviour.
\<close>

definition msgf :: "bool \<Rightarrow> bool \<Rightarrow> string \<Rightarrow> string \<Rightarrow> fmt_arg list \<Rightarrow> message list option" where
  "msgf to_log to_stderr strerror f args = map_option (\<lambda>l.
     (if to_log then [Syslog_info l] else []) @ (if to_stderr then [Stderr_line l] else []) @ [Android_log l])
     (message_line strerror f args)"

definition fatal_messages :: "bool \<Rightarrow> bool \<Rightarrow> string \<Rightarrow> string \<Rightarrow> fmt_arg list \<Rightarrow> message list option" where
  "fatal_messages to_log to_stderr strerror f args = map_option (\<lambda>l.
     (if to_log then [Syslog_error l] else []) @ (if to_stderr then [Stderr_line l] else []))
     (message_line strerror f args)"

lemma message_line_text:
  assumes "format_ok strerror f args"
  shows "message_line strerror f args = Some (c_string (take (LINE_SIZE - 1) (message_text strerror f args)))"
proof -
  have "c_string (t @ [NUL]) = c_string t" for t by (induction t) (simp_all add: c_string_def)
  then show ?thesis
    using vfmtmsg_text [OF assms, of LINE_SIZE] by (auto simp: message_line_def LINE_SIZE_def)
qed

end
