(* ===== verification/Spec2Isabelle.thy ===== *)
theory Spec2Isabelle
  imports RilSystem RilDaemon AtReader AtTime DiagSaver IpScripts RilConnect ChatFaults ChatScript ChatMsg
begin

text \<open>
  \<^bold>\<open>The reference RIL for the Air720 and Air780 modems: model and verification.\<close>

  The program is the vendor part of Android's radio interface layer.  The framework hands
  requests to \<open>reference-ril.c\<close>, which turns them into AT commands; \<open>atchannel.c\<close> sends the
  commands over a serial line, reads the answers on a thread of its own, and calls back for
  lines nobody asked for; \<open>at_tok.c\<close> and \<open>misc.c\<close> take the lines apart; \<open>usim-fcp.c\<close> converts
  file descriptions of USIM cards.  A data call starts the PPP daemon, which \<open>pppd.c\<close> watches
  and restarts, and which runs the chat program \<open>chat.c\<close> to dial, and \<open>ip-up.c\<close> and \<open>ip-down.c\<close>; \<open>usb_find.c\<close> finds the serial devices,
  and \<open>diagsaver.c\<close> saves the diagnostic log of the modem.

  \<^bold>\<open>How code is modelled.\<close>  A C function that touches state is a \<open>prog\<close> (theory \<open>Prelude\<close>): a
  function from the state to an outcome, which is a normal return (\<open>Done\<close>), no return at all
  (\<open>Blocked\<close>), or undefined behaviour (\<open>Fault\<close>: NULL and wild pointers, freed memory, array
  bounds, assertions).  Pure functions are HOL functions.  Static variables are records; the
  responses of the AT channel live in a heap with explicit allocation, so that leaks and double
  frees are visible.  Bytes are 8-bit words where they are computed with; C's \<open>int\<close> and \<open>long\<close>
  are integers, cut to their width where the code converts (\<open>int_of_long\<close>); \<open>long\<close> has 64 bits.
  What comes from outside is data: the lines, wake-ups and losses while a command waits, the
  results of \<open>read\<close>, \<open>write\<close> and \<open>poll\<close>, what \<open>/sys\<close> and \<open>/proc\<close> contain, what the daemon does.
  Memory allocation does not fail.  Dangling pointers that are only read are not faults but data in
  two places, where a fault would stop the program at once: the array with the name of a device
  that \<open>FindUsbDevice\<close> hands out dead (\<open>stale_name\<close> is what it shows when it is printed), and the
  strings of a request that \<open>pppd.c\<close> keeps pointers to (what \<open>before\<close> makes of \<open>s_apn\<close> and
  \<open>s_pdp_type\<close>).

  \<^bold>\<open>Theories.\<close>
  \<^item> \<open>Prelude\<close>: programs, and the rules for frame conditions (\<open>keeps\<close>), runs without faults
    (\<open>safe\<close>), counting (\<open>adds\<close>) and programs that leave the state alone (\<open>stateless\<close>).
  \<^item> \<open>CLib\<close>: \<open>strtol\<close>, \<open>strtoul\<close>, \<open>%d\<close> and \<open>%x\<close>, and strings that end at a NUL.
  \<^item> \<open>AtTok\<close>, \<open>Misc\<close>: \<open>at_tok.c\<close> and \<open>misc.c\<close>.  The locale \<open>tokenizer\<close> states what a loop over
    fields relies on; numbers and quoted strings are its instances.
  \<^item> \<open>AtChannel\<close>: the commands, responses, callbacks and the dispatch of lines of \<open>atchannel.c\<close>.
    \<open>AtChannelSpec\<close> is the abstract command (\<open>command_spec\<close>: what a list of received lines means)
    and the proof that the code implements it, for any well-behaved client (locale
    \<open>channel_client\<close>).  \<open>AtSender\<close> derives the contract of the callers (locale \<open>sender\<close>, of which
    the five entry points are instances), \<open>AtRun\<close> evaluates commands on typical answers.
  \<^item> \<open>AtReader\<close>: \<open>readline\<close> with its static buffer, \<open>findNextEOL\<close>, and how the stream is framed.
    \<open>AtTime\<close>: \<open>setTimespecRelative\<close> and \<open>sleepMsec\<close>.
  \<^item> \<open>UsimFcp\<close>: \<open>usim-fcp.c\<close>.
  \<^item> \<open>RilState\<close>: the types of \<open>ril.h\<close> that are used and the static variables of
    \<open>reference-ril.c\<close>, a record that extends the channel's.  \<open>RilCallbacks\<close>: \<open>setRadioState\<close> and
    the three callbacks, and the interpretation \<open>ril\<close> of \<open>channel_client\<close> on them.
    \<open>RilCommands\<close>: the idioms of the handlers and their rules.  \<open>RilSim\<close>, \<open>RilNet\<close>, \<open>RilCalls\<close>,
    \<open>RilData\<close>: the handlers.  \<open>RilMain\<close>: \<open>onRequest\<close> with all its cases, \<open>initializeCallback\<close>,
    and the connection step of \<open>mainLoop\<close>; \<open>RilConnect\<close>: the main loop around that step.
  \<^item> \<open>RilSystem\<close>: the threads as the step relation \<open>ril_step\<close>, its runs, and the invariant
    \<open>system_ok\<close> of the reachable states.  A step is a whole handler that returns: one that waits for
    ever or faults ends the run before it, and the two statements of \<open>onATReaderClosed\<close> are not
    interleaved with other steps.
  \<^item> \<open>UsbFind\<close>: \<open>FindUsbDevice\<close>, and what its callers read of its result (\<open>find_usb_name\<close>).
    \<open>Pppd\<close>: \<open>pppd.c\<close>, with the other threads between its steps (\<open>before\<close>, \<open>during\<close>), and the locale
    \<open>exit_listener\<close> for the function it calls when the daemon exits; \<open>RilDaemon\<close> interprets it on
    \<open>notifyDataCallProcessExit\<close>.  \<open>DiagSaver\<close>: \<open>diagsaver.c\<close>.  \<open>IpScripts\<close>: the two scripts.
  \<^item> \<open>ChatText\<close>: the strings of \<open>chat.c\<close> (\<open>clean\<close>, \<open>expect_strtok\<close>, \<open>character\<close>, \<open>pack_array\<close>).
    \<open>ChatProg\<close>: its static variables and everything from \<open>main\<close> to \<open>terminate\<close>; the exit of the
    program is a result.  \<open>ChatExpect\<close>: \<open>get_string\<close> against the reference \<open>listen\<close>.  \<open>ChatClear\<close>:
    the tables of strings.  \<open>ChatSafe\<close>: the invariant \<open>chat_ok\<close> and the end of every script.
    \<open>ChatDial\<close>: the connect scripts of \<open>pppd.c\<close>.  \<open>ChatFaults\<close>: what goes wrong.  \<open>ChatScript\<close>:
    scripts in files.  \<open>ChatMsg\<close>: \<open>vfmtmsg\<close> and what \<open>msgf\<close> and \<open>fatal\<close> report.

  \<^bold>\<open>What is shown.\<close>
  \<^item> The system: every request of a run whose handler has returned is answered exactly once, an
    invariant of all reachable states, and what follows from it for a lost channel and for the
    daemon, also while other threads change the variables.
  \<^item> The main loop: what it takes to connect, and how it misses a modem that is renumbered; the
    address of a data call.
  \<^item> Requests: the robust ones run into no undefined behaviour and leak nothing, whatever the
    modem answers; the results of single handlers; and the crashes, double frees and overruns
    that some answers of the modem cause.
  \<^item> The AT channel: refinement of the abstract command, absence of faults, return, no leak; the
    reader delivers the lines that were sent, within its buffer; deadlines.
  \<^item> Tokens, hexadecimal data and the USIM conversion: round trips, functional correctness on
    well-formed templates, and the inputs on which the decoder never ends or does nothing.
  \<^item> The daemon, the device search and the log: bounds, times, and functional behaviour.
  \<^item> The chat program: what dialling does and how it exits, the equivalence of the window with a
    reference, the end of every script, its buffers and tables, the messages, and the scripts that
    crash it.

  \<^bold>\<open>Bounds and fuel.\<close>  The decoder of \<open>UsimFcp\<close> takes the number of rounds as fuel; one round per
  object is enough, \<open>requestSIM_IO\<close> gives it 256, and its index has 8 bits, so that a run which
  needs more repeats itself for ever.  The handshake makes 8 attempts, the wait for an address
  looks 50 times, \<open>pppd_stop\<close> waits 50, 10 and 150 rounds: these are the code's own limits.
  \<open>expect_loop\<close> takes one round per call of \<open>read\<close>, and \<open>get_string\<close> gives it one more than there
  are reads; the call that finds no more data ends the loop or never returns.  All
  other loops recurse over what they consume.

  \<^bold>\<open>Configuration.\<close>  \<open>RIL_VERSION\<close> is 12 and the library is shared (\<open>RIL_SHLIB\<close>); the
  \<open>USE_TI_COMMANDS\<close>, \<open>WORKAROUND\<close> and \<open>POLL_CALL_STATE\<close> parts are not compiled in.  The function
  \<open>setTimespecRelative\<close> is the one for systems without \<open>USE_NP\<close>.  The constants of \<open>ril.h\<close>, which
  is not part of the repository, are datatypes, or parameters where their value matters
  (\<open>maxApps\<close>, \<open>tech\<close>).

  \<^bold>\<open>Not modelled.\<close>  What is logged and when (\<open>AT_DUMP\<close>, \<open>LOGD\<close>, and the calls of \<open>msgf\<close> in \<open>chat.c\<close>,
  whose text \<open>ChatMsg\<close> gives), the handlers of SIGINT, SIGTERM and SIGHUP of \<open>chat.c\<close>, which
  only call \<open>fatal\<close>, terminal settings, and starting the threads (\<open>RIL_Init\<close>,
  \<open>pppd_create_thread\<close>, \<open>start_diagsaver\<close>) are plain calls of the system.  Events between the
  threads within a command are part of the command's environment; those of \<open>pppd.c\<close> during
  \<open>requestSetupDataCall\<close> are those of its polling loop, and otherwise steps of their own.  The
  failure of a timed wait with an invalid \<open>timespec\<close> (\<open>deadline\<close> says when there is one; the RIL
  sends no timed command) and the overflow of \<open>p3 * 2 + 1\<close> in \<open>requestReadBinary\<close>, which \<open>p3\<close> of
  more than a billion would take, are left out.
\<close>

section \<open>A connected RIL\<close>

text \<open>
  A state to apply the properties to: the device is open, the radio is on, and the modem
  reacts to the coming commands with the given events.
\<close>

definition no_ppp :: ppp_poll where
  "no_ppp = \<lparr>exits = 0, lost_channel = False, child_gone = True, running = False, has_socket = True, ifconf = Some []\<rparr>"

definition blank_status :: SimEfStatusData where
  "blank_status = \<lparr>fileId = 0, fileIsValidated = 0, fileSize = 0, recordLength = 0, numberOfRecords = 0,
     efStructure = 0, fileType = 0\<rparr>"

definition online :: "event list list \<Rightarrow> ril" where
  "online reactions = (initial_ril reactions (\<lambda>_. no_ppp) 100 blank_status True)\<lparr>s_fd := 3, sState := RADIO_STATE_ON\<rparr>"

definition okay :: "event list" where
  "okay = [Line ''OK'', Wake]"

definition refusal :: "event list" where
  "refusal = [Line ''ERROR'', Wake]"

lemma online_simps [simp]:
  "sState (online rs) = RADIO_STATE_ON" "env (online rs) = rs" "rx (online rs) = []"
  "heap (online rs) = (\<lambda>_. None)" "rlog (online rs) = []" "s_closed (online rs) = False"
  "idle (online rs)" "open_channel (online rs)" "self_reader (online rs) = False" "brk (online rs) = 0"
  "completed t (online rs) = 0" "onRequestCount (online rs) = 0"
  by (simp_all add: online_def initial_ril_def idle_def heap_wf_def open_channel_def completed_def)

lemma line_kinds [simp]:
  "isFinalResponse ''OK''" "isFinalResponseSuccess ''OK''" "isFinalResponseError ''ERROR''"
  "isFinalResponse ''ERROR''" "\<not> isSMSUnsolicited ''OK''" "\<not> isSMSUnsolicited ''ERROR''"
  by (simp_all add: isFinalResponse_def isFinalResponseSuccess_def isFinalResponseError_def
      s_finalResponsesSuccess_def s_finalResponsesError_def isSMSUnsolicited_def s_smsUnsoliciteds_def
      strStartsWith_prefix)

lemma reactions [simp]:
  "answering okay" "answering refusal" "\<forall>e \<in> set okay. event_ok e" "\<forall>e \<in> set refusal. event_ok e"
  by (simp_all add: okay_def refusal_def answering_Cons ends_wait_def)

lemma online_ready:
  assumes "\<forall>es \<in> set rs. answering es \<and> (\<forall>e \<in> set es. event_ok e)" and "n \<le> length rs"
  shows "ready B n (online rs)"
  using assms by (auto simp: ready_def events_ok_def pending_events_def responsive_def)

section \<open>The running system\<close>

text \<open>
  C1. In every run of the system, every request whose handler has returned has been answered
  exactly as often as it was made, and nothing else was answered, provided the requests are none
  of those that are known to be answered twice or not at all.  A run is any sequence of the steps
  of \<open>ril_step\<close>, whatever the modem, the device and the daemon do; its list holds the requests
  whose handlers have returned.  A handler that waits for the modem for ever, or runs into
  undefined behaviour, is no step: what it has answered is not counted here.
\<close>

theorem run_answers:
  assumes "ril_run maxApps tech rs s" and "\<forall>(req, tk) \<in> set rs. answered_once req tk"
  shows "completed k s = length (filter (\<lambda>(_, tk). tk = k) rs)"
  using assms by (rule run_completed)

definition unconnected :: ril where
  "unconnected = initial_ril [] (\<lambda>_. no_ppp) 100 blank_status True"

theorem run_answers_witness:
  "\<exists>s. ril_run 8 (\<lambda>_. 0) [(RIL_REQUEST_DIAL, Some 1)] s \<and> completed (Some 1) s = 1 \<and> completed None s = 0"
proof -
  let ?s = "unconnected\<lparr>rlog := [OnRequestComplete (Some 1) RIL_E_RADIO_NOT_AVAILABLE Nothing]\<rparr>"
  have "onRequest 8 (\<lambda>_. 0) RIL_REQUEST_DIAL No_data 0 (Some 1) unconnected = Done () ?s"
    by (simp add: unconnected_def initial_ril_def onRequest_def allowed_unavailable_def
        RIL_onRequestComplete_def act_def outcome_simps)
  then have "ril_run 8 (\<lambda>_. 0) [(RIL_REQUEST_DIAL, Some 1)] ?s"
    by (intro ril_run.serve [where s = unconnected] ril_step.request) (simp_all add: unconnected_def ril_run.start)
  then show ?thesis
    using run_answers [of 8 "\<lambda>_. 0" "[(RIL_REQUEST_DIAL, Some 1)]" ?s] by (auto simp: answered_once_def)
qed

text \<open>
  C2. The invariant of the system: between the steps of every run, in the states that are reached
  without undefined behaviour, no command is pending and no response is owned by the channel,
  nothing received is left over, the command threads are not taken for the reader, a lost channel
  goes with an unavailable radio, there is one data context, and the count of failures is not
  negative.
\<close>

theorem system_invariant:
  assumes "reachable maxApps tech s"
  shows "idle s \<and> rx s = [] \<and> \<not> self_reader s \<and> (s_closed s \<longrightarrow> sState s = RADIO_STATE_UNAVAILABLE) \<and>
    s_default_pdp s = CONFIG_DEFAULT_PDP \<and> 0 \<le> nSetupDataCallFailTimes s"
  using reachable_system_ok [OF assms] by (simp add: system_ok_def)

text \<open>A channel that was connected and lost again.\<close>

definition connected :: ril where
  "connected = unconnected\<lparr>s_fd := 3, rlog := [RequestTimedCallback Callback_initializeCallback 0]\<rparr>"

lemma lost_run: "ril_run 8 (\<lambda>_. 0) [] (closed_state connected)"
proof -
  have "main_connect 3 0 unconnected = Done True connected"
    by (simp add: main_connect_def at_open_def unconnected_def connected_def initial_ril_def
        RIL_requestTimedCallback_def act_def outcome_simps)
  then have "ril_step 8 (\<lambda>_. 0) None unconnected connected"
    by (intro ril_step.connect) (simp_all add: unconnected_def initial_ril_def)
  moreover have "reader_event ril_cb Closed connected = Done () (closed_state connected)"
    by (simp add: as_reader_def onReaderClosed_def ril_cb_def onATReaderClosed_apply closed_state_def
        connected_def unconnected_def initial_ril_def outcome_simps)
  then have "ril_step 8 (\<lambda>_. 0) None connected (closed_state connected)"
    by (rule ril_step.reader)
  moreover have "ril_run 8 (\<lambda>_. 0) [] unconnected"
    unfolding unconnected_def by (rule ril_run.start)
  ultimately show ?thesis
    by (blast intro: ril_run.other)
qed

lemma lost_reachable: "reachable 8 (\<lambda>_. 0) (closed_state connected)" "s_closed (closed_state connected)"
  using lost_run by (auto simp: reachable_def closed_state_def Let_def)

theorem system_invariant_witness:
  "reachable 8 (\<lambda>_. 0) (closed_state connected) \<and> idle (closed_state connected) \<and>
     sState (closed_state connected) = RADIO_STATE_UNAVAILABLE"
  using system_invariant [OF lost_reachable(1)] lost_reachable by simp

text \<open>
  C3. After the channel was lost, and until the device is opened again, the framework is told so:
  every request but the six that are let through is answered with \<open>RADIO_NOT_AVAILABLE\<close>, and
  nothing else happens.
\<close>

theorem lost_channel_refuses:
  assumes "reachable maxApps tech s" and "s_closed s" and "\<not> allowed_unavailable req"
  shows "onRequest maxApps tech req d n tk s = Done ()
    (s\<lparr>rlog := rlog s @ [OnRequestComplete tk RIL_E_RADIO_NOT_AVAILABLE Nothing]\<rparr>)"
  using reachable_system_ok [OF assms(1)] assms(2,3)
  by (simp add: system_ok_def onRequest_def RIL_onRequestComplete_def act_def outcome_simps)

theorem lost_channel_refuses_witness:
  "s_closed (closed_state connected) \<and>
   onRequest 8 (\<lambda>_. 0) RIL_REQUEST_ANSWER No_data 0 (Some 7) (closed_state connected) = Done ()
     ((closed_state connected)\<lparr>rlog := rlog (closed_state connected) @
        [OnRequestComplete (Some 7) RIL_E_RADIO_NOT_AVAILABLE Nothing]\<rparr>)"
  using lost_channel_refuses [OF lost_reachable, of RIL_REQUEST_ANSWER] lost_reachable(2)
  by (simp add: allowed_unavailable_def)

section \<open>Requests\<close>

text \<open>
  C6. A request of the framework is answered exactly once: whenever \<open>onRequest\<close> returns, the
  number of completions of the token has grown by one.  This holds in every state and for
  every answer of the modem, except for the SMS acknowledgement and the signal strength, and
  for two requests whose token is NULL.
\<close>

theorem request_answered_once:
  assumes "answered_once req t" and "onRequest maxApps tech req d n t s = Done () s'"
  shows "completed t s' = completed t s + 1"
  using once_onRequest [OF assms(1)] assms(2) unfolding once_def by (rule addsD)

theorem request_answered_once_witness:
  "\<exists>s'. onRequest 8 (\<lambda>_. 0) RIL_REQUEST_ANSWER No_data 0 (Some 1) (online [okay, okay]) = Done () s' \<and>
     completed (Some 1) s' = 1"
proof -
  have "ready False (Suc (Suc 0)) (online [okay, okay])"
    by (rule online_ready) simp_all
  then obtain s' where
    s': "onRequest 8 (\<lambda>_. 0) RIL_REQUEST_ANSWER No_data 0 (Some 1) (online [okay, okay]) = Done () s'"
    using onRequest_robust [of False 0 "online [okay, okay]" RIL_REQUEST_ANSWER No_data 0 8 "\<lambda>_. 0" "Some 1"]
    by (auto simp: safe_total)
  moreover have "answered_once RIL_REQUEST_ANSWER (Some 1)"
    by (simp add: answered_once_def)
  ultimately show ?thesis
    using request_answered_once [OF _ s'] by auto
qed

text \<open>
  C7. The robust requests, given the data they expect, run into no undefined behaviour
  whatever the modem sends; and if the modem answers the next commands, the handler returns,
  the request has been completed exactly once, no response is leaked, and the channel is idle
  and ready for what was still to come.
\<close>

theorem robust_request:
  assumes "ready B (Suc (Suc n)) s" and "robust req d datalen"
  shows "safe B (onRequest maxApps tech req d datalen t) s
    (\<lambda>_ s'. ready B n s' \<and> heap s' = heap s \<and> completed t s' = Suc (completed t s))"
  using onRequest_robust [OF assms] unfolding serves_def .

theorem robust_request_witness:
  "safe False (onRequest 8 (\<lambda>_. 0) RIL_REQUEST_SEND_SMS (String_data [None, Some ''0100'']) 16 None)
     (online [okay, okay])
     (\<lambda>_ s'. ready False 0 s' \<and> heap s' = heap (online [okay, okay]) \<and>
        completed None s' = Suc (completed None (online [okay, okay])))"
  by (rule robust_request, rule online_ready) simp_all

text \<open>
  A request that the radio state does not allow is answered with \<open>RADIO_NOT_AVAILABLE\<close>
  and has no other effect, but for the request counter when the radio is off.
\<close>

theorem request_gated:
  assumes "sState s = RADIO_STATE_UNAVAILABLE \<and> \<not> allowed_unavailable req \<and> k = onRequestCount s \<or>
    sState s = RADIO_STATE_OFF \<and> \<not> allowed_off req \<and> k = onRequestCount s + 1"
  shows "onRequest maxApps tech req d n t s = Done ()
    (s\<lparr>onRequestCount := k, rlog := rlog s @ [OnRequestComplete t RIL_E_RADIO_NOT_AVAILABLE Nothing]\<rparr>)"
  using assms
proof (elim disjE conjE)
  assume "sState s = RADIO_STATE_UNAVAILABLE" "\<not> allowed_unavailable req" "k = onRequestCount s"
  then show ?thesis
    by (cases s) (simp add: onRequest_def RIL_onRequestComplete_def act_def outcome_simps)
next
  assume "sState s = RADIO_STATE_OFF" "\<not> allowed_off req" "k = onRequestCount s + 1"
  then show ?thesis
    by (simp add: onRequest_def RIL_onRequestComplete_def act_def outcome_simps)
qed

theorem request_gated_witness:
  "onRequest 8 (\<lambda>_. 0) RIL_REQUEST_DIAL No_data 0 None ((online [])\<lparr>sState := RADIO_STATE_OFF\<rparr>) = Done ()
    ((online [])\<lparr>sState := RADIO_STATE_OFF, onRequestCount := 1,
      rlog := [OnRequestComplete None RIL_E_RADIO_NOT_AVAILABLE Nothing]\<rparr>)"
  using request_gated [of "(online [])\<lparr>sState := RADIO_STATE_OFF\<rparr>" RIL_REQUEST_DIAL 1]
  by (simp add: allowed_off_def allowed_unavailable_def)

text \<open>
  Switching the radio: the request is served, and a radio that was reported switched off is
  off, or lost with the channel.
\<close>

theorem radio_power:
  assumes "ready B (Suc (Suc n)) s" and "pointer_size \<le> datalen"
  shows "safe B (requestRadioPower (Int_data (onOff # xs)) datalen t) s (\<lambda>_ s'.
    ready B n s' \<and> heap s' = heap s \<and> completed t s' = Suc (completed t s) \<and>
    (onOff = 0 \<longrightarrow> last (rlog s') = OnRequestComplete t RIL_E_SUCCESS Nothing \<longrightarrow>
       sState s' \<in> {RADIO_STATE_OFF, RADIO_STATE_UNAVAILABLE}))"
  by (rule safe_mono, rule requestRadioPower_safe [OF assms refl]) (simp add: serves_def)

theorem radio_power_witness:
  "safe False (requestRadioPower (Int_data [0]) 8 None) (online [okay, okay]) (\<lambda>_ s'.
    ready False 0 s' \<and> heap s' = heap (online [okay, okay]) \<and>
    completed None s' = Suc (completed None (online [okay, okay])) \<and>
    ((0 :: int) = 0 \<longrightarrow> last (rlog s') = OnRequestComplete None RIL_E_SUCCESS Nothing \<longrightarrow>
       sState s' \<in> {RADIO_STATE_OFF, RADIO_STATE_UNAVAILABLE}))"
  by (rule radio_power, rule online_ready) (simp_all add: pointer_size_def)

text \<open>
  The card as the framework should see it: with three applications in the same state, or absent.
\<close>

definition card_with :: "nat \<Rightarrow> RIL_AppState \<Rightarrow> RIL_PersoSubstate \<Rightarrow> RIL_PinState \<Rightarrow> RIL_CardStatus_v6 \<Rightarrow> bool" where
  "card_with maxApps st perso pin cs \<longleftrightarrow> card_state cs = RIL_CARDSTATE_PRESENT \<and>
     universal_pin_state cs = RIL_PINSTATE_UNKNOWN \<and> num_applications cs = 3 \<and>
     gsm_umts_subscription_app_index cs = 0 \<and> cdma_subscription_app_index cs = 1 \<and>
     ims_subscription_app_index cs = 2 \<and> length (applications cs) = maxApps \<and>
     map app_type (take 3 (applications cs)) = [RIL_APPTYPE_SIM, RIL_APPTYPE_RUIM, RIL_APPTYPE_ISIM] \<and>
     (\<forall>a \<in> set (take 3 (applications cs)). app_state a = st \<and> perso_substate a = perso \<and> pin1 a = pin)"

definition card_absent :: "nat \<Rightarrow> RIL_CardStatus_v6 \<Rightarrow> bool" where
  "card_absent maxApps cs \<longleftrightarrow> card_state cs = RIL_CARDSTATE_ABSENT \<and>
     universal_pin_state cs = RIL_PINSTATE_UNKNOWN \<and> num_applications cs = 0 \<and>
     gsm_umts_subscription_app_index cs = -1 \<and> cdma_subscription_app_index cs = -1 \<and>
     ims_subscription_app_index cs = -1 \<and> length (applications cs) = maxApps"

text \<open>
  C12. When the radio is on or the like and the modem answers \<open>AT+CPIN?\<close> with \<open>+CPIN: w\<close> and a
  success, the card has the three applications SIM, RUIM and ISIM, and they are: ready for
  \<open>READY\<close>, waiting for the PIN for \<open>SIM PIN\<close>, blocked for \<open>SIM PUK\<close>, and locked to a network for
  \<open>PH-NET PIN\<close>; for every other word \<open>w\<close> the card is absent.  \<open>w\<close> is not in quotes and does not
  begin with a blank or hold a comma.  The response is freed, but for \<open>PH-NET PIN\<close>, where it leaks.
\<close>

theorem card_status:
  assumes "idle s" and "open_channel s" and "sState s \<notin> {RADIO_STATE_OFF, RADIO_STATE_UNAVAILABLE}"
    and "env s = [Line (''+CPIN: '' @ w), Line f, Wake] # rest" and "isFinalResponseSuccess f"
    and "plain_word w" and "3 \<le> maxApps"
  shows "\<exists>cs t. getCardStatusV12 maxApps s = Done cs t \<and> idle t \<and> env t = rest \<and>
    (heap t = heap s \<longleftrightarrow> w \<noteq> ''PH-NET PIN'') \<and>
    (if w = ''READY'' then card_with maxApps RIL_APPSTATE_READY RIL_PERSOSUBSTATE_READY RIL_PINSTATE_UNKNOWN cs
     else if w = ''SIM PIN'' then
       card_with maxApps RIL_APPSTATE_PIN RIL_PERSOSUBSTATE_UNKNOWN RIL_PINSTATE_ENABLED_NOT_VERIFIED cs
     else if w = ''SIM PUK'' then
       card_with maxApps RIL_APPSTATE_PUK RIL_PERSOSUBSTATE_UNKNOWN RIL_PINSTATE_ENABLED_BLOCKED cs
     else if w = ''PH-NET PIN'' then
       card_with maxApps RIL_APPSTATE_SUBSCRIPTION_PERSO RIL_PERSOSUBSTATE_SIM_NETWORK
         RIL_PINSTATE_ENABLED_NOT_VERIFIED cs
     else card_absent maxApps cs)"
proof -
  obtain t where t: "getCardStatusV12 maxApps s = Done (card_for maxApps (cpin_status w)) t" "idle t"
      "env t = rest" "heap t = heap s \<longleftrightarrow> w \<noteq> ''PH-NET PIN''"
    using card_answered [OF assms] by blast
  have m: "Suc (Suc (Suc (maxApps - 3))) = maxApps"
    using assms(7) by simp
  show ?thesis
    by (intro exI [of _ t] exI conjI, rule t(1))
      (use t m in \<open>simp_all add: cpin_status_def card_for_def card_with_def card_absent_def app_rows_def app_def\<close>)
qed

theorem card_status_witness:
  "\<exists>cs t. getCardStatusV12 8 (online [[Line ''+CPIN: SIM PUK'', Line ''OK'', Wake]]) = Done cs t \<and>
     heap t = (\<lambda>_. None) \<and>
     card_with 8 RIL_APPSTATE_PUK RIL_PERSOSUBSTATE_UNKNOWN RIL_PINSTATE_ENABLED_BLOCKED cs"
proof -
  have "plain_word ''SIM PUK''" by code_simp
  then show ?thesis
    using card_status [of "online [[Line ''+CPIN: SIM PUK'', Line ''OK'', Wake]]" "''SIM PUK''" "''OK''" "[]" 8]
    by (simp; blast)
qed

text \<open>
  C4. When the modem refuses \<open>AT+CPIN?\<close> with \<open>+CME ERROR: k\<close>, the card is absent for the code 10,
  \<open>SIM not inserted\<close>, and its three applications are only detected for every other code but 0; the
  response is freed.  With the code 0 the handler takes the refusal for a success and follows a
  NULL pointer.
\<close>

theorem card_refusal:
  assumes "idle s" and "open_channel s" and "sState s \<notin> {RADIO_STATE_OFF, RADIO_STATE_UNAVAILABLE}"
    and "env s = [Line (''+CME ERROR: '' @ print_d k), Wake] # rest" and "int32 k" and "3 \<le> maxApps"
  shows "if k = 0 then \<exists>t. getCardStatusV12 maxApps s = Fault NullDeref t
    else \<exists>cs t. getCardStatusV12 maxApps s = Done cs t \<and> idle t \<and> env t = rest \<and> heap t = heap s \<and>
      (if k = 10 then card_absent maxApps cs
       else card_with maxApps RIL_APPSTATE_DETECTED RIL_PERSOSUBSTATE_UNKNOWN RIL_PINSTATE_UNKNOWN cs)"
proof (cases "k = 0")
  case True
  then show ?thesis using card_refused [OF assms] by simp
next
  case False
  then obtain t where t: "getCardStatusV12 maxApps s = Done (card_for maxApps (if k = 10 then SIM_ABSENT else SIM_NOT_READY)) t"
      "idle t" "env t = rest" "heap t = heap s"
    using card_refused [OF assms] by auto
  have m: "Suc (Suc (Suc (maxApps - 3))) = maxApps"
    using assms(6) by simp
  have "\<exists>cs t. getCardStatusV12 maxApps s = Done cs t \<and> idle t \<and> env t = rest \<and> heap t = heap s \<and>
      (if k = 10 then card_absent maxApps cs
       else card_with maxApps RIL_APPSTATE_DETECTED RIL_PERSOSUBSTATE_UNKNOWN RIL_PINSTATE_UNKNOWN cs)"
    by (intro exI [of _ t] exI conjI, rule t(1))
      (use t m in \<open>simp_all add: card_for_def card_with_def card_absent_def app_rows_def app_def\<close>)
  then show ?thesis using False by simp
qed

theorem card_refusal_witness:
  "(\<exists>t. getCardStatusV12 8 (online [[Line ''+CME ERROR: 0'', Wake]]) = Fault NullDeref t) \<and>
   (\<exists>cs t. getCardStatusV12 8 (online [[Line ''+CME ERROR: 10'', Wake]]) = Done cs t \<and> card_absent 8 cs)"
proof -
  have "print_d 0 = ''0''" "print_d 10 = ''10''" by code_simp+
  then show ?thesis
    using card_refusal [of "online [[Line ''+CME ERROR: 0'', Wake]]" 0 "[]" 8]
      card_refusal [of "online [[Line ''+CME ERROR: 10'', Wake]]" 10 "[]" 8]
    by (simp add: int32_def; blast)
qed

section \<open>Crashes\<close>

text \<open>
  C14. When the modem refuses the command of a baseband version or voice registration request,
  the handler follows a NULL pointer: it looks at the first intermediate response without
  looking at \<open>success\<close>.
\<close>

theorem refused_crash:
  assumes "idle s" and "open_channel s" and "env s = [Line l, Wake] # rest" and "isFinalResponseError l"
  shows "(\<exists>t. requestBaseBandVersion tk s = Fault NullDeref t) \<and>
    (\<exists>t. requestRegistrationState tech RIL_REQUEST_VOICE_REGISTRATION_STATE tk s = Fault NullDeref t)"
  using baseband_refused [OF assms] voice_registration_refused [OF assms] by blast

theorem refused_crash_witness:
  "(\<exists>t. requestBaseBandVersion None (online [refusal]) = Fault NullDeref t) \<and>
   (\<exists>t. requestRegistrationState (\<lambda>_. 0) RIL_REQUEST_VOICE_REGISTRATION_STATE None (online [refusal]) =
      Fault NullDeref t)"
  by (rule refused_crash [where l = "''ERROR''" and rest = "[]"]) (simp_all add: refusal_def)

text \<open>
  C15. When the modem goes away between the two commands of a data registration request, its
  error path frees a response for the second time.
\<close>

definition creg_line :: string where "creg_line = ''+CREG: 2,1,00C3,0A1B''"

theorem registration_double_free:
  assumes "idle s" and "open_channel s"
    and "env s = [Line l, Wake] # [Line i, Line f, Wake, Closed] # rest"
    and "isFinalResponseError l" and "strStartsWith i ''+CREG:''" and "\<not> isFinalResponse i"
    and "isFinalResponseSuccess f" and "parse_creg i \<noteq> None"
  shows "\<exists>t. requestRegistrationState tech RIL_REQUEST_DATA_REGISTRATION_STATE tk s = Fault DoubleFree t"
  using assms by (rule data_registration_double_free)


lemma creg_parsed: "parse_creg creg_line = Some (1, 195, 2587)"
  by code_simp

lemma creg_kind: "strStartsWith creg_line ''+CREG:''" "\<not> isFinalResponse creg_line"
  by code_simp+

theorem registration_double_free_witness:
  "\<exists>t. requestRegistrationState (\<lambda>_. 0) RIL_REQUEST_DATA_REGISTRATION_STATE None
     (online [refusal, [Line creg_line, Line ''OK'', Wake, Closed]]) = Fault DoubleFree t"
  by (rule registration_double_free [where l = "''ERROR''" and i = creg_line and f = "''OK''" and rest = "[]"])
    (simp_all add: refusal_def creg_parsed creg_kind)



text \<open>
  An SMS acknowledgement that is passed on to the modem is answered twice, with success and
  then with failure: control runs from the success answer into the error label.
\<close>

theorem sms_acknowledged_twice:
  assumes "ready B (Suc n) s" and "a \<in> {0, 1}"
  shows "safe B (requestSMSAcknowledge (Int_data [a]) t) s (\<lambda>_ u. completed t u = completed t s + 2)"
  using assms by (rule twice_requestSMSAcknowledge)

theorem sms_acknowledged_twice_witness:
  "safe False (requestSMSAcknowledge (Int_data [1]) None) (online [okay])
     (\<lambda>_ u. completed None u = completed None (online [okay]) + 2)"
  by (rule sms_acknowledged_twice [where n = 0], rule online_ready) simp_all

text \<open>
  Four valid \<open>+COPS\<close> lines make the operator request write behind its array of three
  names.
\<close>

theorem operator_overrun:
  assumes "\<forall>l \<in> set (take 4 ls). parse_operator l \<noteq> None" and "4 \<le> length ls"
  shows "operator_loop ls 0 [None, None, None] s = Fault OutOfBounds s"
  using assms by (rule operator_loop_overrun)

theorem operator_overrun_witness:
  "operator_loop (replicate 4 ''+COPS: 0'') 0 [None, None, None] (online []) = Fault OutOfBounds (online [])"
proof (rule operator_overrun)
  have "parse_operator ''+COPS: 0'' \<noteq> None"
    by code_simp
  then show "\<forall>l \<in> set (take 4 (replicate 4 ''+COPS: 0'')). parse_operator l \<noteq> None"
    by simp
qed simp

section \<open>The AT channel\<close>

text \<open>
  C8. Every way to issue a command implements the abstract command: it either fails before the
  modem answers and leaves the heap as it was, or the response handed out is what the
  abstract interpretation of the received lines makes of a non-empty prefix of them that ends
  when the command thread runs.  Nothing stays pending.
\<close>

theorem command_refines:
  assumes "idle s" and "at_send_command_full ril_cb c ty pre pdu timeout pp s = Done (err, p) s'"
  shows "command_spec ty pre pdu (timeout \<noteq> 0) pp (err, p) s s'"
  using assms by (rule ril.send_command_spec)

theorem command_refines_witness:
  "\<exists>err p s'. at_send_command_full ril_cb ''ATA'' NO_RESULT None None 0 (Some Null) (online [refusal]) = Done (err, p) s' \<and>
     command_spec NO_RESULT None None False (Some Null) (err, p) (online [refusal]) s'"
proof -
  obtain t where
    t: "at_send_command_full ril_cb ''ATA'' NO_RESULT None None 0 (Some Null) (online [refusal]) = Done (0, Ptr 0) t"
    using refused_run [of "online [refusal]" "''ERROR''" "[]" ril_cb "''ATA''" NO_RESULT None None 0 Null]
    by (auto simp: refusal_def)
  then show ?thesis
    using command_refines [OF _ t] by auto
qed

text \<open>
  C9. No command runs into undefined behaviour, whatever well-formed events the modem and the
  stream deliver and wherever they stop.
\<close>

theorem command_no_fault:
  assumes "idle s" and "\<forall>e \<in> pending_events s. event_ok e" and "prefix_ok ty pre"
  shows "at_send_command_full ril_cb c ty pre pdu timeout pp s \<noteq> Fault f t"
  using assms by (rule ril.send_command_no_fault)

theorem command_no_fault_witness:
  "\<forall>f t. at_send_command_full ril_cb ''AT+CSQ'' SINGLELINE (Some ''+CSQ:'') None 0 None
     (online [[SmsLines ''+CMT: 1'' ''07'', Closed, Line ''RING'', TimedOut]]) \<noteq> Fault f t"
  by (intro allI, rule command_no_fault)
    (auto simp: pending_events_def prefix_ok_def isSMSUnsolicited_def s_smsUnsoliciteds_def strStartsWith_prefix)

text \<open>
  C10. A command whose final response, or the end of the stream, is followed by a wake-up of the
  command thread returns.
\<close>

theorem command_returns:
  assumes "idle s" and "\<forall>e \<in> pending_events s. event_ok e" and "prefix_ok ty pre"
    and "answering (rx s @ concat (take 1 (env s)))"
  shows "\<exists>r t. at_send_command_full ril_cb c ty pre pdu timeout pp s = Done r t"
  by (rule ril.send_command_returns) (use assms in \<open>simp_all add: ril_cb_def\<close>)

theorem command_returns_witness:
  "\<exists>r t. at_send_command_full ril_cb ''ATA'' NO_RESULT None None 0 None (online [okay]) = Done r t"
  by (rule command_returns) (simp_all add: pending_events_def prefix_ok_def)

text \<open>
  An untimed command never reports a timeout, so that the timeout callback of the RIL,
  which would close the channel, is not run by any of its requests: a modem that stays silent
  blocks the request thread.
\<close>

theorem untimed_never_times_out:
  assumes "idle s" and "at_send_command_full ril_cb c ty pre pdu 0 pp s = Done (err, p) s'"
  shows "err \<noteq> AT_ERROR_TIMEOUT"
  using ril.send_command_spec [OF assms] by (auto simp: command_spec_def answered_def at_errors Let_def)

theorem untimed_never_times_out_witness:
  "\<exists>err p s'. at_send_command_full ril_cb ''ATA'' NO_RESULT None None 0 (Some Null) (online [TimedOut # refusal]) =
     Done (err, p) s' \<and> err \<noteq> AT_ERROR_TIMEOUT"
proof -
  have "\<exists>r t. at_send_command_full ril_cb ''ATA'' NO_RESULT None None 0 (Some Null) (online [TimedOut # refusal]) = Done r t"
    by (rule ril.send_command_returns)
      (auto simp: pending_events_def prefix_ok_def refusal_def answering_Cons ends_wait_def ril_cb_def)
  then show ?thesis
    using untimed_never_times_out [of "online [TimedOut # refusal]"] by fastforce
qed

text \<open>
  C11. A single-line command that succeeds hands out exactly one line, which starts with the
  expected prefix; the final response is one of the lines that arrived.
\<close>

theorem singleline_success:
  assumes "idle s" and "at_send_command_singleline ril_cb c pre (Some q) s = Done (0, p) s'"
  shows "\<exists>a r. p = Ptr a \<and> heap s a = None \<and> heap s' = (heap s)(a \<mapsto> r) \<and> final_from s r \<and>
    (success r \<noteq> 0 \<longrightarrow> (\<exists>l. p_intermediates r = [l] \<and> strStartsWith l pre))"
proof -
  obtain a r where a: "p = Ptr a" "brk s \<le> a" "heap s' = (heap s)(a \<mapsto> r)" "final_from s r"
    and r: "resp_ok SINGLELINE (Some pre) r" "success r > 0 \<longrightarrow> p_intermediates r \<noteq> []"
    using ril.singleline.send_success [OF assms] by blast
  have "heap s a = None"
    using assms(1) a(2) by (simp add: idle_def heap_wf_def)
  moreover have "\<exists>l. p_intermediates r = [l] \<and> strStartsWith l pre" if "success r \<noteq> 0"
    using r that by (cases "p_intermediates r")
      (auto simp: resp_ok_def matches_def split: option.splits if_splits)
  ultimately show ?thesis
    using a by blast
qed

theorem singleline_success_witness:
  "\<exists>s' a r. at_send_command_singleline ril_cb ''AT+CREG?'' ''+CREG:'' (Some Null)
       (online [[Line creg_line, Line ''OK'', Wake]]) = Done (0, Ptr a) s' \<and>
     heap s' a = Some r \<and> (success r \<noteq> 0 \<longrightarrow> (\<exists>l. p_intermediates r = [l] \<and> strStartsWith l ''+CREG:''))"
proof -
  let ?s = "online [[Line creg_line, Line ''OK'', Wake]]"
  obtain s' where s': "at_send_command_singleline ril_cb ''AT+CREG?'' ''+CREG:'' (Some Null) ?s = Done (0, Ptr 0) s'"
    using singleline_answered_run [of ?s creg_line "''OK''" "[]" "''+CREG:''" ril_cb "''AT+CREG?''" Null]
    by (auto simp: creg_kind)
  then show ?thesis
    using singleline_success [OF _ s'] by auto
qed

text \<open>
  No leak: freeing the response that a command handed to a NULL variable, successful or not,
  restores the heap of responses, and never fails.
\<close>

theorem command_then_free:
  assumes "idle s" and "at_send_command_multiline ril_cb c pre (Some Null) s = Done (err, p) s'"
  shows "\<exists>t. at_response_free p s' = Done () t \<and> heap t = heap s"
  using ril.multiline.send_then_free [OF assms] by blast

theorem command_then_free_witness:
  "\<exists>err p s' t. at_send_command_multiline ril_cb ''AT+CLCC'' ''+CLCC:'' (Some Null) (online [okay]) = Done (err, p) s' \<and>
     at_response_free p s' = Done () t \<and> heap t = (\<lambda>_. None)"
proof -
  have "\<exists>r s'. at_send_command_multiline ril_cb ''AT+CLCC'' ''+CLCC:'' (Some Null) (online [okay]) = Done r s'"
    unfolding at_send_command_multiline_def
    by (rule ril.send_command_returns) (auto simp: pending_events_def prefix_ok_def ril_cb_def)
  then obtain err p s' where
    s': "at_send_command_multiline ril_cb ''AT+CLCC'' ''+CLCC:'' (Some Null) (online [okay]) = Done (err, p) s'"
    by force
  then show ?thesis
    using command_then_free [OF _ s'] by auto
qed

text \<open>
  What the write loop sends is a prefix of the text, in order and without repetition, all
  of it unless the device reports an error; partial writes and interruptions do not matter.
\<close>

theorem write_prefix:
  "case write_loop ws b of (sent, ws', ok) \<Rightarrow>
     prefix sent b \<and> (if ok then sent = b else Eio \<in> set ws \<and> sent \<noteq> b)"
proof (induction ws b rule: write_loop.induct)
  case (5 n ws c cs)
  obtain sent ws' ok where rest: "write_loop ws (drop n (c # cs)) = (sent, ws', ok)"
    by (cases "write_loop ws (drop n (c # cs))")
  have "prefix (take n (c # cs) @ sent) (take n (c # cs) @ drop n (c # cs))"
    using 5 rest by (simp only: same_prefix_prefix) (simp split: if_splits)
  moreover have "take n (c # cs) @ sent = c # cs \<longleftrightarrow> sent = drop n (c # cs)"
    by (metis append_take_drop_id same_append_eq)
  ultimately show ?case
    using 5 rest by (simp add: Let_def split: if_splits)
qed (auto split: prod.splits if_splits)

section \<open>Tokens\<close>

text \<open>
  C20. A line of comma-separated decimal numbers of 32 bits is read back number by number, and
  the parser is then at the end of the line.
\<close>

theorem int_fields_read_back:
  assumes "xs \<noteq> []" and "\<forall>x \<in> set xs. int32 x"
  shows "\<exists>c. tok_many tok_int (length xs) (Some (join_fields print_d xs)) = Some (xs, c) \<and> \<not> at_tok_hasmore c"
  using assms by (rule dec_field.fields_roundtrip)

theorem int_fields_read_back_witness:
  "\<exists>c. tok_many tok_int (length [0 :: int, -1, 2147483647]) (Some (join_fields print_d [0, -1, 2147483647])) =
     Some ([0, -1, 2147483647], c) \<and> \<not> at_tok_hasmore c"
  by (rule int_fields_read_back) (simp_all add: int32_def)

text \<open>
  C21. Quoted strings are read back too, commas, blanks and all, as long as they contain no
  quote.
\<close>

theorem str_fields_read_back:
  assumes "xs \<noteq> []" and "\<forall>x \<in> set xs. CHR 0x22 \<notin> set x"
  shows "\<exists>c. tok_many tok_str (length xs) (Some (join_fields quoted xs)) = Some (xs, c) \<and> \<not> at_tok_hasmore c"
  using assms by (rule str_field.fields_roundtrip)

theorem str_fields_read_back_witness:
  "\<exists>c. tok_many tok_str (length [''a,b'', '' '', []]) (Some (join_fields quoted [''a,b'', '' '', []])) =
     Some ([''a,b'', '' '', []], c) \<and> \<not> at_tok_hasmore c"
  by (rule str_fields_read_back) simp_all

text \<open>
  Every token consumes input, so that a loop over the tokens of a line ends after at most
  one more round than the line has characters.
\<close>

theorem tokens_bounded:
  assumes "tok_many tok_str n (Some line) = Some (xs, cur)"
  shows "n \<le> Suc (length line) \<and> length xs = n"
  using strs.many_bounded [OF assms] strs.many_length [OF assms] by blast

theorem tokens_bounded_witness:
  "tok_many tok_str 2 (Some ''a,b'') = Some ([''a'', ''b''], None) \<and> 2 \<le> Suc (length ''a,b'')"
proof -
  have "tok_many tok_str 2 (Some ''a,b'') = Some ([''a'', ''b''], None)"
    by code_simp
  then show ?thesis
    using tokens_bounded by blast
qed

section \<open>SIM files\<close>

text \<open>C19. The hexadecimal text of a block of bytes decodes to the block.\<close>

theorem sim_hex_roundtrip: "vgStringToHexData (vgHexDataToString ds) = ds"
  by (rule hex_round_trip)

text \<open>
  C16. Where plain \<open>char\<close> is unsigned (\<open>schar\<close> is \<open>False\<close>): a template of well-formed objects, of at
  most 127 bytes, with a size \<open>s1 s2\<close>, an identifier \<open>i1 i2\<close> and a known file descriptor \<open>v\<close>
  (the last of each kind count), is converted to the fifteen bytes of the GSM layout: the size in
  bytes 2 and 3, the identifier in 4 and 5, the type of the file in 6 (2 for a directory, 4 for a
  file), its structure in 13 (0 transparent, 1 linear, 3 cyclic) and the length of a record in 14,
  whatever the code finds in the memory it allocates and leaves uninitialised.
\<close>

theorem fcp_converted:
  assumes "list_all object_ok os" and "length (concat (map encode_object os)) \<le> 127"
    and "length os \<le> fuel"
    and "map_of (rev os) 0x80 = Some [s1, s2]" and "map_of (rev os) 0x83 = Some [i1, i2]"
    and "map_of (rev os) 0x82 = Some v" and "known_descriptor v"
  shows "convertUSimFcp fuel False junk init (vgHexDataToString (encode_fcp os)) =
    Fcp_text (vgHexDataToString [0, 0, s1, s2, i1, i2, if unat (v ! 0) div 8 mod 8 = 7 then 2 else 4,
      0, 0, 0, 0, 0, 2, if unat (v ! 0) mod 8 = 1 then 0 else if unat (v ! 0) mod 8 = 2 then 1 else 3,
      if unat (v ! 0) mod 8 \<noteq> 1 \<and> length v = 5 then v ! 3 else 0])"
  using convert_fcp [OF assms(1-3), of junk init] status_bytes [OF assms(4-7), of init]
  unfolding gsm_type_def gsm_structure_def gsm_record_def by simp

definition sample_fcp :: "(8 word \<times> 8 word list) list" where
  "sample_fcp = [(0x82, [0x42, 0x21, 0x00, 0x1C, 0xFA]), (0x83, [0x6F, 0x3A]), (0x80, [0x1B, 0x58])]"

theorem fcp_converted_witness:
  "convertUSimFcp 3 False [7] blank_status (vgHexDataToString (encode_fcp sample_fcp)) =
     Fcp_text (vgHexDataToString [0, 0, 0x1B, 0x58, 0x6F, 0x3A, 4, 0, 0, 0, 0, 0, 2, 1, 0x1C])"
  using fcp_converted [of sample_fcp 3 "0x1B" "0x58" "0x6F" "0x3A" "[0x42, 0x21, 0x00, 0x1C, 0xFA]" "[7]" blank_status]
  by (simp add: sample_fcp_def object_ok_def known_descriptor_def)

text \<open>
  C17. Where plain \<open>char\<close> is unsigned (\<open>schar\<close> is \<open>False\<close>), the answer for a template with a size, an
  identifier and a known descriptor does not depend on the uninitialised structure the decoder
  fills.
\<close>

theorem fcp_deterministic:
  assumes "complete os" and "list_all object_ok os"
    and "length (concat (map encode_object os)) \<le> 127" and "length os \<le> fuel"
  shows "convertUSimFcp fuel False junk init (vgHexDataToString (encode_fcp os)) =
    convertUSimFcp fuel False junk' init' (vgHexDataToString (encode_fcp os))"
  using complete_independent [OF assms(1), of init init'] by (simp add: convert_fcp [OF assms(2-4)])

theorem fcp_deterministic_witness:
  "convertUSimFcp 3 False [] blank_status (vgHexDataToString (encode_fcp sample_fcp)) =
     convertUSimFcp 3 False [9] (blank_status\<lparr>fileType := 77, recordLength := 5\<rparr>)
       (vgHexDataToString (encode_fcp sample_fcp))"
  by (rule fcp_deterministic) (simp_all add: sample_fcp_def object_ok_def complete_def)

text \<open>
  C18. A template that announces 253 bytes or more is never finished: the 8-bit offset wraps
  around below the limit, and no number of rounds gets out of the loop with a result.
\<close>

theorem fcp_never_ends:
  assumes "0xFD \<le> l"
  shows "UsimDecodeEfStatusData fuel schar (0x62 # 0x81 # l # rest) e \<noteq> Decoded e'"
proof -
  have "0x80 \<le> l" and "253 \<le> unat l"
    using assms by (simp_all add: word_le_nat_alt)
  then show ?thesis
    using decode_loop_never [of "unat l + 2" fuel schar "0x62 # 0x81 # l # rest" "(3, e)" e']
    by (simp add: UsimDecodeEfStatusData_def UsimDecodeDataLength_def peek_def)
qed

theorem fcp_never_ends_witness:
  "\<forall>e'. UsimDecodeEfStatusData 1000 False (0x62 # 0x81 # 0xFE # replicate 300 0) blank_status \<noteq> Decoded e'"
  by (intro allI, rule fcp_never_ends) simp

text \<open>
  Where plain \<open>char\<close> is signed, the decoder recognises no object at all and returns the
  structure as it found it.
\<close>

theorem fcp_signed_char:
  assumes "UsimDecodeEfStatusData fuel True data e = Decoded e'"
  shows "e' = e"
  using assms by (rule decode_signed)

theorem fcp_signed_char_witness:
  "\<exists>e'. UsimDecodeEfStatusData 3 True (0x62 # 2 # 0x8F # [0]) blank_status = Decoded e' \<and> e' = blank_status"
proof -
  have "UsimDecodeEfStatusData 3 True (0x62 # 2 # 0x8F # [0]) blank_status = Decoded blank_status"
    by code_simp
  then show ?thesis
    using fcp_signed_char by blast
qed

text \<open>
  A transparent file is read in blocks of at most 255 bytes that follow each other without
  gap or overlap from the given offset on, and cover the length asked for.
\<close>

theorem read_covers:
  assumes "0 \<le> remain"
  shows "read_blocks pos remain =
    map (\<lambda>i. (pos + 255 * int i, min 255 (remain - 255 * int i))) [0..<max 1 ((nat remain + 254) div 255)]"
  using assms by (rule read_blocks_eq)

theorem read_covers_witness:
  "read_blocks 16 600 =
    map (\<lambda>i. (16 + 255 * int i, min 255 (600 - 255 * int i))) [0..<max 1 ((nat 600 + 254) div 255)]"
  by (rule read_covers) simp

section \<open>The reader of the AT channel\<close>

text \<open>
  C22. Reading lines stays within the buffer, whatever the device delivers, up to and including the
  first prompt for a message: as long as none of the earlier lines is the prompt, a further call of
  \<open>readline\<close> runs into no fault, and the buffer keeps its length and its final NUL.  The cursor
  stays within the buffer too, unless the last line is the prompt: behind a prompt that ends with
  the buffer the next call does leave it (\<open>prompt_overrun\<close>).
\<close>

theorem reader_in_bounds:
  assumes "reader_ok r"
    and "\<And>k ls t. k < n \<Longrightarrow> read_lines k r = Done ls t \<Longrightarrow> ''> '' \<notin> set ls"
  shows "safe True (read_lines n) r (\<lambda>ls t. buffer_ok t \<and> (reader_ok t \<or> ls \<noteq> [] \<and> last ls = ''> ''))"
  using assms by (rule read_lines_ok)

theorem reader_in_bounds_witness:
  "safe True (read_lines 2) (initial_reader [Got (''RING'' @ [CHR 0x0D]), Interrupted, Got (replicate 20000 (CHR ''x''))])
     (\<lambda>ls t. buffer_ok t \<and> (reader_ok t \<or> ls \<noteq> [] \<and> last ls = ''> ''))" (is "safe True _ ?r _")
proof (rule reader_in_bounds [OF initial_reader_ok(1)])
  fix k ls t
  assume k: "k < 2" and run: "read_lines k ?r = Done ls t"
  have "\<exists>u. read_lines (length [([] :: string, ''RING'', CHR 0x0D)]) ?r = Done (map (\<lambda>(_, l, _). l) [([] :: string, ''RING'', CHR 0x0D)]) u \<and>
      reader_ok u \<and> unread u = replicate 20000 (CHR ''x'')"
    by (rule read_lines_frames [OF initial_reader_ok(1)])
      (simp_all add: initial_reader_ok(2) line_ok_def is_newline_def MAX_AT_RESPONSE_def)
  then show "''> '' \<notin> set ls"
    using k run by (cases k) (auto simp: outcome_simps less_Suc_eq numeral_2_eq_2)
qed

text \<open>
  C23. The lines are those that the modem sent, however its bytes are cut into the pieces that
  \<open>read()\<close> delivers, and wherever it is interrupted: each line after any newlines that precede
  it, without its end, in order, with nothing lost.  This holds with the cursor within the buffer
  (\<open>reader_ok\<close>) for lines that are not empty, hold no NUL, do not begin like the prompt, and are,
  with the newlines before them, shorter than 8192 bytes (\<open>frame_ok\<close>).
\<close>

theorem lines_framed:
  assumes "reader_ok r" and "unread r = concat (map frame fs) @ rest" and "list_all frame_ok fs"
    and "NUL \<notin> set rest"
  shows "\<exists>t. read_lines (length fs) r = Done (map (\<lambda>(_, l, _). l) fs) t \<and> reader_ok t \<and> unread t = rest"
  using assms by (rule read_lines_frames)

theorem lines_framed_witness:
  "\<exists>t. read_lines (length [([CHR 0x0D, CHR 0x0A], ''RING'', CHR 0x0D), ([CHR 0x0A], ''OK'', CHR 0x0D)])
       (initial_reader [Got [CHR 0x0D, CHR 0x0A, CHR ''R''], Interrupted,
          Got (''ING'' @ [CHR 0x0D, CHR 0x0A] @ ''O''), Got (''K'' @ [CHR 0x0D] @ ''NO'')]) =
     Done (map (\<lambda>(_, l, _). l) [([CHR 0x0D, CHR 0x0A], ''RING'', CHR 0x0D), ([CHR 0x0A], ''OK'', CHR 0x0D)]) t \<and>
     reader_ok t \<and> unread t = ''NO''"
  by (rule lines_framed [OF initial_reader_ok(1)])
    (simp_all add: initial_reader_ok(2) line_ok_def is_newline_def MAX_AT_RESPONSE_def)

text \<open>
  The prompt for a message is taken to end at its terminating NUL itself, so that the cursor
  ends up behind it: what an earlier line left in the buffer there counts as received.
\<close>

theorem prompt_stale:
  assumes "reader_ok r" and "s_ATBuffer r ! s_ATBufferCur r = NUL"
    and "input r = Got (ns @ ''> '') # es" and "list_all is_newline ns"
    and "length ns + 2 < MAX_AT_RESPONSE"
  shows "\<exists>t. readline r = Done (Some ''> '') t \<and> reader_ok t \<and>
    unread t = c_string (drop (length ns + 3) (s_ATBuffer r)) @ received es"
  using assms by (rule prompt_run)

definition stale :: reader where
  "stale = \<lparr>s_ATBuffer = ''ERROR'' @ replicate (MAX_AT_RESPONSE - 4) NUL, s_ATBufferCur = 5, s_readCount = 5,
     input = [Got ''> '', Got ''OK'']\<rparr>"

theorem prompt_stale_witness:
  "\<exists>t. readline stale = Done (Some ''> '') t \<and> reader_ok t \<and> unread t = ''OROK''"
proof -
  have "c_string (drop 3 (s_ATBuffer stale)) = ''OR''"
    by (simp add: stale_def c_string_def MAX_AT_RESPONSE_def del: replicate_Suc)
  moreover have "reader_ok stale" and "s_ATBuffer stale ! s_ATBufferCur stale = NUL"
    by (simp_all add: stale_def reader_ok_def buffer_ok_def MAX_AT_RESPONSE_def nth_append)
  ultimately show ?thesis
    using prompt_stale [of stale "[]" "[Got ''OK'']"] by (simp add: stale_def MAX_AT_RESPONSE_def)
qed

text \<open>
  The deadline of a timed wait is exact, and it is well-formed unless the nanoseconds are
  exactly one second: then it is the code's comparison, which should include the equality,
  that makes the timed wait fail.
\<close>

theorem deadline:
  assumes "0 \<le> msec" and "0 \<le> usec" and "usec < 1000000"
  shows "nanoseconds (setTimespecRelative sec usec msec) = sec * 1000000000 + usec * 1000 + msec * 1000000 \<and>
    (timespec_ok (setTimespecRelative sec usec msec) \<longleftrightarrow> usec + msec mod 1000 * 1000 \<noteq> 1000000)"
  using deadline_exact [OF assms] by blast

theorem deadline_witness:
  "nanoseconds (setTimespecRelative 7 500000 1500) = 7 * 1000000000 + 500000 * 1000 + 1500 * 1000000 \<and>
    (timespec_ok (setTimespecRelative 7 500000 1500) \<longleftrightarrow> 500000 + 1500 mod 1000 * 1000 \<noteq> (1000000 :: int))"
  by (rule deadline) simp_all

section \<open>The PPP daemon\<close>

text \<open>
  C5. Together with the RIL behind it, in any state the RIL can be in, the thread of the daemon
  starts it at most four times before it gives up, and at most four times more for every round
  in which a request to set up a data call is handled, in whatever way the daemon and the modem
  behave, and however the thread ends.  Meanwhile the other threads may do anything to the
  variables that keeps the count of failures from being negative (\<open>before\<close> and \<open>during\<close> a round);
  \<open>fresh\<close> marks the rounds in which they may lower that count, as \<open>requestSetupDataCall\<close> does
  when it sets it to 0, possibly while the thread of an earlier data call still runs.
\<close>

theorem daemon_starts_bounded:
  assumes "reachable maxApps tech (client s)"
    and "\<forall>r \<in> set rs. meddles counting failures_left (fresh r) (before r) \<and>
      meddles counting failures_left (fresh r) (during r)"
  shows "starts (outcome_state (pppd_thread_function fs v notifyDataCallProcessExit rs s)) \<le>
    starts s + 4 * (1 + length (filter fresh rs))"
proof -
  have "counting (client s)"
    using reachable_system_ok [OF assms(1)] by (simp add: system_ok_def counting_def)
  then show ?thesis
    using ril_daemon.thread_starts [OF assms(2)] by simp
qed

definition idle_daemon :: "'c \<Rightarrow> 'c pppd" where
  "idle_daemon c = \<lparr>pppd_pid = 0, pppd_quit = False, pppd_thread = True, s_ppp_modemport = ''ttyUSB0'',
     s_ppp_user = [], s_ppp_password = [], s_ppp_auth_type = [], s_ppp_number = ''*99#'', s_pdp_default = 1,
     s_pdp_type = Some ''IP'', s_apn = [], errno = 0, slept = 0, acts = [], looks = 0,
     procs = (\<lambda>_. \<lparr>selinux = True, proc_dir = None\<rparr>), thread_view = (\<lambda>_. (0, False)), client = c\<rparr>"

text \<open>A daemon that fails at once, without and with a new request for a data call meanwhile.\<close>

definition failing_start :: "ril ppp_round" where
  "failing_start = \<lparr>before = (\<lambda>s. s), port_opens = True, at_answer = ([], [Data ''OK'']), escape_answer = ([], []),
     context_answer = ([], []), child_pid = 88, during = (\<lambda>s. s)\<rparr>"

definition failing_restart :: "ril ppp_round" where
  "failing_restart = failing_start\<lparr>child_pid := 89,
     during := \<lambda>s. s\<lparr>client := (client s)\<lparr>nSetupDataCallFailTimes := 0\<rparr>\<rparr>\<rparr>"

theorem daemon_starts_bounded_witness:
  "starts (outcome_state (pppd_thread_function \<lparr>usb_devices = None, attribute = (\<lambda>_ _. None), listing = (\<lambda>_. None), stale_name = (\<lambda>n. n)\<rparr>
     \<lparr>idVendor = [], vendor_id = 0, idProduct = [], product_id = 0\<rparr> notifyDataCallProcessExit
     (replicate 3 failing_start @ failing_restart # replicate 9 failing_start) (idle_daemon unconnected)))
   \<le> starts (idle_daemon unconnected) + 4 * (1 + length (filter (\<lambda>r. child_pid r = 89)
       (replicate 3 failing_start @ failing_restart # replicate 9 failing_start)))"
  by (rule daemon_starts_bounded [where maxApps = 8 and tech = "\<lambda>_. 0"])
    (auto simp: idle_daemon_def unconnected_def reachable_def meddles_def failing_start_def failing_restart_def
      starts_def counting_def intro: ril_run.start)

text \<open>
  C24. Stopping a daemon that survives: if \<open>fork\<close> succeeds, the pauses between the polite signal
  and SIGKILL do not take place, since the flag that ends all pauses has been set before; if it
  fails, no signal is sent at all.  The whole call takes at most 15 seconds either way.
\<close>

theorem stop_kills_at_once:
  assumes "pppd_stop signo forks alive s = Done x t" and "pppd_pid s \<noteq> 0" and "signo \<noteq> SIGKILL" and "\<forall>k. alive k"
  shows "acts t = acts s @ (if forks then [Kill (pppd_pid s) signo 0, Kill (pppd_pid s) SIGKILL 0] else []) \<and>
    slept t \<le> slept s + 15000"
  using pppd_stop_kills [OF assms] by (simp add: kills_sent_def)

definition running_daemon :: "unit pppd" where
  "running_daemon = (idle_daemon ())\<lparr>pppd_pid := 77\<rparr>"

theorem stop_kills_at_once_witness:
  "\<exists>t. pppd_stop 15 True (\<lambda>_. True) running_daemon = Done 0 t \<and> acts t = [Kill 77 15 0, Kill 77 SIGKILL 0] \<and>
     slept t \<le> 15000"
proof -
  let ?v = "running_daemon\<lparr>looks := 2, pppd_quit := True\<rparr>"
  let ?z = "?v\<lparr>acts := [Kill 77 15 0, Kill 77 SIGKILL 0]\<rparr>"
  have "killer 15 (\<lambda>_. True) ?v = Done () ?z"
    using killer_run [of ?v 15 "\<lambda>_. True"] by (simp add: SIGKILL_def running_daemon_def idle_daemon_def)
  then have "forked (killer 15 (\<lambda>_. True)) ?v = Done () ?z"
    by (simp add: forked_def)
  moreover obtain t where "await_thread KILL_ROUNDS ?z = Done () t"
    using await_thread_frame [of KILL_ROUNDS ?z] by blast
  moreover have "await_chat 50 (running_daemon\<lparr>looks := 1, pppd_quit := True\<rparr>) = Done () ?v"
    using fun_cong [OF await_chat.simps(2) [of 49], of "running_daemon\<lparr>looks := 1, pppd_quit := True\<rparr>"] by (simp add: is_chat_alive_def outcome_simps running_daemon_def idle_daemon_def)
  ultimately have "pppd_stop 15 True (\<lambda>_. True) running_daemon = Done 0 t"
    by (simp add: pppd_stop_def is_chat_alive_def outcome_simps running_daemon_def idle_daemon_def)
  then show ?thesis
    using stop_kills_at_once [of 15 True "\<lambda>_. True" running_daemon 0 t]
    by (auto simp: running_daemon_def idle_daemon_def SIGKILL_def)
qed

text \<open>
  C25. The timeout of a chat with the modem is not the one asked for: it depends on the \<open>errno\<close>
  that an earlier call left behind.  With \<open>EINTR\<close> silence is never counted and the chat does
  not end; with any other value but \<open>ETIMEDOUT\<close> it gives up after the first silent 200
  milliseconds.
\<close>

theorem chat_timeout:
  assumes "0 < timeout"
  shows "if errno s = EINTR then chat_loop (replicate n Silence) expect timeout s = Blocked s
    else errno s = ETIMEDOUT \<or>
      chat_loop (Silence # es) expect timeout s = Done (if errno s \<noteq> 0 then errno s else EINVAL) s"
  using assms by (cases "errno s = ETIMEDOUT") (auto simp: silent_EINTR silent_other)

theorem chat_timeout_witness:
  "chat_loop (Silence # [Data ''OK'']) ''OK'' 1000 running_daemon = Done EINVAL running_daemon \<and>
   chat_loop (replicate 1000 Silence) ''OK'' 1000 (running_daemon\<lparr>errno := EINTR\<rparr>) =
     Blocked (running_daemon\<lparr>errno := EINTR\<rparr>)"
  using chat_timeout [of 1000 running_daemon 0 "''OK''" "[Data ''OK'']"]
    chat_timeout [of 1000 "running_daemon\<lparr>errno := EINTR\<rparr>" 1000 "''OK''" "[]"]
  by (simp add: running_daemon_def idle_daemon_def errnos)

text \<open>
  The command line of the daemon always fits into its array of 40 entries, terminating NULL
  included, and is the list of options that the variables describe.
\<close>

theorem command_line_fits:
  "build_argv dev s = Done (ppp_args dev (s_ppp_user s) (s_ppp_password s) (s_ppp_auth_type s) (s_ppp_number s)) s \<and>
   length (ppp_args dev (s_ppp_user s) (s_ppp_password s) (s_ppp_auth_type s) (s_ppp_number s)) < ARGV_SIZE"
  using build_argv_run [of dev s] ppp_args_length [of dev "s_ppp_user s" "s_ppp_password s" "s_ppp_auth_type s" "s_ppp_number s"]
  by (simp add: ARGV_SIZE_def)

section \<open>The USB device\<close>

text \<open>
  C26. The search for a serial device: the first device of the directory that is a link with known
  vendor and product identifiers is taken; if it has the interface asked for, the first
  \<open>ttyUSB\<close> or \<open>ttyACM\<close> entry of the interface is found, or one in its directory \<open>tty\<close>.
\<close>

theorem usb_device_found:
  assumes "usb_devices fs = Some es" and "well_formed fs es" and "ids_ok v" and "0 \<le> i" and "i < 10"
    and "find (is_modem fs) es = Some (d, link)" and "(interface_name d i, True) \<in> set es"
    and "listing fs (interface_dir d i) = Some xs" and "\<forall>x \<in> set xs. length x \<le> 25"
  shows "FindUsbDevice fs v i s = (case find is_tty xs of
      Some t \<Rightarrow> Done (Some t) s
    | None \<Rightarrow> tty_in fs (interface_dir d i @ ''/tty'') s)"
  using assms by (rule FindUsbDevice_run)

definition one_modem :: sysfs where
  "one_modem = \<lparr>usb_devices = Some [(''usb1'', True), (''1-1'', True), (''1-1:1.2'', True)],
     attribute = (\<lambda>d f. if d = ''1-1'' then Some (if f = ''idVendor'' then ''1782'' else ''4e00'')
       else if d = ''usb1'' \<and> f = ''idVendor'' then Some ''1d6b'' else None),
     listing = (\<lambda>_. Some [''power'', ''ttyUSB2'']), stale_name = (\<lambda>n. n)\<rparr>"

lemma digit_samples: "digit_val 16 (CHR ''0'') = Some 0" "digit_val 16 (CHR ''1'') = Some 1"
  "digit_val 16 (CHR ''2'') = Some 2" "digit_val 16 (CHR ''4'') = Some 4" "digit_val 16 (CHR ''6'') = Some 6"
  "digit_val 16 (CHR ''7'') = Some 7" "digit_val 16 (CHR ''8'') = Some 8" "digit_val 16 (CHR ''b'') = Some 11"
  "digit_val 16 (CHR ''d'') = Some 13" "digit_val 16 (CHR ''e'') = Some 14"
  by code_simp+

lemma hex_samples: "hex4_val ''1782'' = 0x1782" "hex4_val ''4e00'' = 0x4e00" "hex4_val ''1d6b'' = 0x1d6b"
  by (simp_all add: hex4_val_def digit_samples)

lemma hex_sample_texts: "hex4 ''1782''" "hex4 ''4e00''" "hex4 ''1d6b''"
  by (simp_all add: hex4_def digit_samples)

definition modem_entries :: "(string \<times> bool) list" where
  "modem_entries = [(''usb1'', True), (''1-1'', True), (''1-1:1.2'', True)]"

lemma one_modem_well_formed: "well_formed one_modem modem_entries"
proof -
  have "hex4 content" if "attribute one_modem d f = Some content" for d f content
    using that hex_sample_texts by (auto simp: one_modem_def split: if_splits)
  then show ?thesis
    by (simp add: well_formed_def modem_entries_def)
qed

lemma one_modem_found: "find (is_modem one_modem) modem_entries = Some (''1-1'', True)"
proof -
  have "\<not> is_modem one_modem (''usb1'', True)" and "is_modem one_modem (''1-1'', True)"
    by (simp_all add: is_modem_def one_modem_def hex_samples vendor_ids_def product_ids_def)
  then show ?thesis
    by (simp add: modem_entries_def)
qed

theorem usb_device_found_witness:
  "\<forall>s :: unit. FindUsbDevice one_modem \<lparr>idVendor = ''0000'' @ [NUL], vendor_id = 0, idProduct = ''0000'' @ [NUL], product_id = 0\<rparr> 2 s =
     (case find is_tty [''power'', ''ttyUSB2''] of
        Some t \<Rightarrow> Done (Some t) s
      | None \<Rightarrow> tty_in one_modem (interface_dir ''1-1'' 2 @ ''/tty'') s)"
proof (intro allI, rule usb_device_found [OF _ one_modem_well_formed _ _ _ one_modem_found])
  have "interface_name ''1-1'' 2 = ''1-1:1.2''"
    by code_simp
  then show "(interface_name ''1-1'' 2, True) \<in> set modem_entries"
    by (simp add: modem_entries_def)
qed (simp_all add: one_modem_def modem_entries_def ids_ok_def)

section \<open>The address of a data call\<close>

text \<open>
  C37. The polling loop of a data call that comes up: while the channel stays open and the daemon runs,
  the first of the fifty looks at the network interfaces that finds an address ends the loop with
  it, and it is the address of an interface \<open>ppp0\<close> that is up.
\<close>

theorem setup_address:
  assumes "\<not> s_closed s" and "nSetupDataCallFailTimes s \<le> 3" and "j < 50"
    and "\<forall>i \<le> j. calm (ppp_polls s i)" and "\<forall>i < j. get_local_ip (ppp_polls s i) = NO_ADDRESS"
    and "get_local_ip (ppp_polls s j) \<noteq> NO_ADDRESS"
  shows "\<exists>a. poll_loop 50 0 [] s = Done (Some a) s \<and> has_address (ppp_polls s j) a"
  using poll_loop_finds [of s j 50 0 "[]"] assms get_local_ip_address [of "ppp_polls s j"] by (auto simp: calm_def)

definition ppp_up :: "nat \<Rightarrow> ppp_poll" where
  "ppp_up k = \<lparr>exits = 0, lost_channel = False, child_gone = False, running = True, has_socket = True,
     ifconf = Some ([\<lparr>ifr_name = ''lo'', ifr_addr = [127, 0, 0, 1], ifr_up = Some True\<rparr>] @
       (if k < 2 then [] else [\<lparr>ifr_name = ''ppp0'', ifr_addr = [10, 64, 7, 200], ifr_up = Some True\<rparr>]))\<rparr>"

lemma ppp_up_address: "get_local_ip (ppp_up k) = (if k < 2 then NO_ADDRESS else ''10.64.7.200'')"
proof -
  have "inet_ntoa [10, 64, 7, 200] = ''10.64.7.200''" by code_simp
  then show ?thesis by (simp add: get_local_ip_def ppp_up_def BUF_SIZE_def IFREQ_SIZE_def)
qed

theorem setup_address_witness:
  "\<exists>a. poll_loop 50 0 [] ((online [])\<lparr>ppp_polls := ppp_up\<rparr>) = Done (Some a) ((online [])\<lparr>ppp_polls := ppp_up\<rparr>) \<and>
     has_address (ppp_up 2) a"
proof -
  have "nSetupDataCallFailTimes (online []) = 0" by (simp add: online_def initial_ril_def)
  moreover have "calm (ppp_up k)" for k by (simp add: calm_def ppp_up_def)
  ultimately show ?thesis
    using setup_address [of "(online [])\<lparr>ppp_polls := ppp_up\<rparr>" 2] by (simp add: ppp_up_address NO_ADDRESS_def)
qed

section \<open>The main loop\<close>

text \<open>
  C38. One round of the main loop, when the device is given on no command line: the device is looked
  for every second until the search finds a name.  \<open>FindUsbDevice\<close> hands out the address of an
  array that is dead by then, which is undefined behaviour in C; \<open>stale_name\<close> is the text that
  memory holds when the loop prints it, the name or anything else of at most 250 characters.  The
  path made of that text is opened every ten seconds until that succeeds; then, if the thread of
  the reader can be created, the channel is open on it, initialisation is requested, and the loop
  waits for the channel to be closed before it goes on.
\<close>

theorem main_loop_connects:
  assumes "s_port v \<le> 0" and "\<not> s_device_socket v" and "0 \<le> create_ret c"
    and "searches c = ls @ l # ls'" and "\<forall>l \<in> set ls. no_device l" and "finds n l"
    and "d = stale_name (fst l) n" and "length d \<le> 250"
    and "attempts c = ws @ w # ws'" and "\<forall>w \<in> set ws. device_open w (''/dev/'' @ d) < 0"
    and "0 \<le> device_open w (''/dev/'' @ d)"
  shows "\<exists>t v'. s_fd t = device_open w (''/dev/'' @ d) \<and> \<not> s_closed t \<and>
      rlog t = rlog s @ [RequestTimedCallback Callback_initializeCallback 0] \<and>
      s_device_path v' = ''/dev/'' @ d \<and>
      naps v' = naps v @ replicate (length ls) 1 @ replicate (length ws) 10 @ [1] \<and>
      mainLoop (c # cs) (v, s) = seqp (on_ril (waitForClose (others c))) (mainLoop cs) (v', t)"
  using assms finds_device [OF assms(6)] by (intro mainLoop_round(1)) simp_all

definition no_ids :: usb_ids where
  "no_ids = \<lparr>idVendor = ''0000'' @ [NUL], vendor_id = 0, idProduct = ''0000'' @ [NUL], product_id = 0\<rparr>"

definition unplugged :: sysfs where
  "unplugged = one_modem\<lparr>usb_devices := None\<rparr>"

lemma unplugged_no_device: "no_device (unplugged, no_ids)"
  by (simp add: no_device_def unplugged_def find_usb_name_def FindUsbDevice_def outcome_simps)

lemma one_modem_finds: "finds ''ttyUSB2'' (one_modem, no_ids)"
proof -
  have "interface_name ''1-1'' 2 = ''1-1:1.2''" by code_simp
  then have "(interface_name ''1-1'' 2, True) \<in> set modem_entries" by (simp add: modem_entries_def)
  moreover have "usb_devices one_modem = Some modem_entries" by (simp add: one_modem_def modem_entries_def)
  moreover have "listing one_modem (interface_dir ''1-1'' 2) = Some [''power'', ''ttyUSB2'']" by (simp add: one_modem_def)
  ultimately show ?thesis
    using FindUsbDevice_run [OF _ one_modem_well_formed _ _ _ one_modem_found,
        where v = no_ids and i = 2 and xs = "[''power'', ''ttyUSB2'']" and s = s for s :: dev_vars]
    by (simp add: finds_def AIRM2M_USB_DEVICE_AT_INTERFACE_ID_def ids_ok_def no_ids_def is_tty_def)
qed

lemma one_modem_stale: "stale_name one_modem d = d"
  by (simp add: one_modem_def)

lemma one_modem_device: "device_is ''ttyUSB2'' (one_modem, no_ids)"
  using finds_device [OF one_modem_finds] by (simp add: one_modem_stale)

definition attempt_with :: "(string \<Rightarrow> int) \<Rightarrow> attempt" where
  "attempt_with f = \<lparr>network_client = -1, qemud_client = -1, qemud_answers = False, local_client = (\<lambda>_. -1), device_open = f\<rparr>"

definition fresh_device :: dev_vars where
  "fresh_device = \<lparr>s_port = -1, s_device_socket = False, s_device_path = [], naps = []\<rparr>"

definition slow_start :: connection where
  "slow_start = \<lparr>searches = [(unplugged, no_ids), (one_modem, no_ids)],
     attempts = [attempt_with (\<lambda>_. -1), attempt_with (\<lambda>p. if p = ''/dev/ttyUSB2'' then 5 else -1)],
     create_ret = 0, others = reader_event ril_cb Closed\<rparr>"

theorem main_loop_connects_witness:
  "\<exists>t v'. s_fd t = 5 \<and> \<not> s_closed t \<and> rlog t = [RequestTimedCallback Callback_initializeCallback 0] \<and>
     s_device_path v' = ''/dev/ttyUSB2'' \<and> naps v' = [1, 10, 1] \<and>
     mainLoop [slow_start] (fresh_device, unconnected) =
       seqp (on_ril (waitForClose (reader_event ril_cb Closed))) (mainLoop []) (v', t)"
  using main_loop_connects [of fresh_device slow_start "[(unplugged, no_ids)]" "(one_modem, no_ids)" "[]" "''ttyUSB2''" "''ttyUSB2''"
      "[attempt_with (\<lambda>_. -1)]" "attempt_with (\<lambda>p. if p = ''/dev/ttyUSB2'' then 5 else -1)" "[]" unconnected "[]"]
    unplugged_no_device one_modem_finds one_modem_stale
  by (simp add: fresh_device_def slow_start_def attempt_with_def unconnected_def initial_ril_def)

text \<open>
  C40. A modem that comes back under another name is not found: the name is looked up once, and while
  it cannot be opened the loop tries it again every ten seconds and never looks at \<open>/sys\<close> again,
  whatever there is to see.
\<close>

theorem main_loop_stuck:
  assumes "s_port v \<le> 0" and "\<not> s_device_socket v"
    and "searches c = ls @ l # ls'" and "\<forall>l \<in> set ls. no_device l" and "device_is d l" and "length d \<le> 250"
    and "\<forall>w \<in> set (attempts c). device_open w (''/dev/'' @ d) < 0"
  shows "\<exists>v'. mainLoop (c # cs) (v, s) = Blocked (v', s) \<and> s_device_path v' = ''/dev/'' @ d \<and>
    naps v' = naps v @ replicate (length ls) 1 @ replicate (length (attempts c)) 10"
  using open_device_stuck [OF assms(1,2,4-7), of ls'] assms(3) by (simp add: on_dev_def outcome_simps)

definition renamed_modem :: connection where
  "renamed_modem = slow_start\<lparr>attempts := replicate 1000 (attempt_with (\<lambda>p. if p = ''/dev/ttyUSB3'' then 5 else -1))\<rparr>"

theorem main_loop_stuck_witness:
  "\<exists>v'. mainLoop [renamed_modem] (fresh_device, unconnected) = Blocked (v', unconnected) \<and>
     s_device_path v' = ''/dev/ttyUSB2'' \<and> naps v' = 1 # replicate 1000 10"
  using main_loop_stuck [of fresh_device renamed_modem "[(unplugged, no_ids)]" "(one_modem, no_ids)" "[]" "''ttyUSB2''" "[]" unconnected]
    unplugged_no_device one_modem_device
  by (simp add: fresh_device_def renamed_modem_def slow_start_def attempt_with_def)

text \<open>
  C39. The main loop is a thread of the system: whatever devices there are, and whatever the other
  threads do within the system while it waits, it leaves the RIL in a reachable state, so that no
  command is pending, and a lost channel goes with an unavailable radio.
\<close>

theorem main_loop_reachable:
  assumes "reachable maxApps tech s" and "s_closed s \<or> s_fd s = -1"
    and "\<forall>c \<in> set cs. \<forall>s. reachable maxApps tech s \<longrightarrow> reachable maxApps tech (outcome_state (others c s))"
  shows "\<exists>t. snd (outcome_state (mainLoop cs (v, s))) = t \<and> reachable maxApps tech t \<and> idle t \<and>
    (s_closed t \<longrightarrow> sState t = RADIO_STATE_UNAVAILABLE)"
  using mainLoop_reachable [OF assms, of v] reachable_system_ok [OF mainLoop_reachable [OF assms, of v]]
  by (simp add: system_ok_def)

theorem main_loop_reachable_witness:
  "\<exists>t. snd (outcome_state (mainLoop [slow_start, renamed_modem] (fresh_device, unconnected))) = t \<and>
     reachable 8 (\<lambda>_. 0) t \<and> idle t \<and> (s_closed t \<longrightarrow> sState t = RADIO_STATE_UNAVAILABLE)"
proof (rule main_loop_reachable)
  have "ril_run 8 (\<lambda>_. 0) [] unconnected" unfolding unconnected_def by (rule ril_run.start)
  then show "reachable 8 (\<lambda>_. 0) unconnected" by (auto simp: reachable_def)
  show "s_closed unconnected \<or> s_fd unconnected = -1" by (simp add: unconnected_def initial_ril_def)
  have "others c = reader_event ril_cb Closed" if "c \<in> {slow_start, renamed_modem}" for c
    using that by (auto simp: slow_start_def renamed_modem_def)
  then show "\<forall>c \<in> set [slow_start, renamed_modem]. \<forall>s. reachable 8 (\<lambda>_. 0) s \<longrightarrow>
      reachable 8 (\<lambda>_. 0) (outcome_state (others c s))"
    by (auto intro: reader_closed_reachable [simplified])
qed

section \<open>The diagnostic log\<close>

text \<open>
  C27. As long as \<open>stat\<close> never reports a size at which the file would be changed, which is 200 MB
  less the block received, the first \<open>fopen\<close> succeeds, and the port can be opened again after
  every timeout (\<open>harmless\<close>), the log file holds the header and then everything that was received,
  in order, whether or not the device was opened again in between.  Behind that size a new file
  is begun without a header.
\<close>

theorem log_saved:
  assumes "log_name s = []" and "fopen_ok c" and "buf \<noteq> []" and "list_all harmless es" and "w \<le> 0"
  shows "\<exists>t. diag_loop (Received c buf # es) w s = Blocked t \<and> fp t = Some (sdl_name c) \<and>
    files t = (files s)(sdl_name c \<mapsto>
      file_header (g_uiFileIndex s) (seconds c) @ received_bytes (Received c buf # es))"
  using assms by (rule diag_loop_saves)

definition noon :: clock where
  "noon = \<lparr>seconds = 1000, date = [2017, 3, 1, 12, 0, 0], st_size = 28, fopen_ok = True\<rparr>"

definition no_log :: diag where
  "no_log = \<lparr>log_name = [], fp = None, g_uiFileIndex = 0, files = (\<lambda>_. None), port = None, port_output = []\<rparr>"

theorem log_saved_witness:
  "\<exists>t. diag_loop (Received noon [1, 2] # [Select_timeout [-1, -1, 7], Received noon [3]]) (-1234) no_log = Blocked t \<and>
     fp t = Some (sdl_name noon) \<and> files t = (files no_log)(sdl_name noon \<mapsto>
       file_header (g_uiFileIndex no_log) (seconds noon) @
       received_bytes (Received noon [1, 2] # [Select_timeout [-1, -1, 7], Received noon [3]]))"
  by (rule log_saved) (simp_all add: no_log_def noon_def harmless_def FILE_SIZE_def)

section \<open>The chat program\<close>

text \<open>
  An invocation without options, on a terminal whose settings can be read and changed.
\<close>

definition plain_invocation :: invocation where
  "plain_invocation = \<lparr>use_env = False, phone_num = None, phone_num2 = None, chat_file = None, report_file = None,
     environ = (\<lambda>_. None), file_text = (\<lambda>_. None), now_text = ''Jan 01 00:00:00 '',
     tty_get = True, tty_set = True, tty_restore = True\<rparr>"

lemma plain_invocation_ok [simp]:
  "insertions_ok plain_invocation" "tty_get plain_invocation" "tty_set plain_invocation"
  "tty_restore plain_invocation" "chat_file plain_invocation = None" "length (now_text plain_invocation) < 20"
  by (simp_all add: plain_invocation_def insertions_ok_def)

text \<open>
  C28. The connect script that \<open>pppd.c\<close> makes for a number without blanks is the path of the chat
  program and the words \<open>dial_words\<close>, in double quotes where they need them, with blanks between;
  how the shell of the daemon splits that text is not modelled.  With these words, for a number
  without escapes, and provided that the settings of the terminal can be read, set and restored,
  every write succeeds and no alarm rings while the program sends, it sends the dial string, ends
  with the terminal restored, and exits with 0 exactly if \<open>CONNECT\<close> arrives before every abort
  string, with 4 + k if the k-th abort string arrives first, and with 3 if neither arrives in time.
\<close>

theorem dial_outcome:
  assumes "chat_file iv = None" "tty_get iv" "tty_set iv" "tty_restore iv"
    and "no_escapes number" "CHR '' '' \<notin> set number"
  shows "dial_number number = [CHR 0x27, CHR 0x27] @ ''/system/bin/chat'' @
      concat (map (\<lambda>w. '' '' @ shell_word w) (dial_words number)) @ [CHR 0x27, CHR 0x27] \<and>
    (\<exists>u. chat_main iv (''chat'' # dial_words number) (chat_start es [] []) =
      Done (Inl (dial_status (listen ''CONNECT'' pppd_aborts [] (bytes_heard es)))) u \<and>
    ended iv u \<and> outs u = ''ATD'' @ number @ [CHR 0x0D])"
  by (intro conjI dial_number_words [OF assms(6)] dial_words_exit [OF assms(1-5)])

lemma busy_line: "dial_status (listen ''CONNECT'' pppd_aborts [] (bytes_heard (incoming ''BUSY''))) = 4"
  by code_simp

theorem dial_outcome_witness:
  "\<exists>u. chat_main plain_invocation (''chat'' # dial_words ''*99#'') (chat_start (incoming ''BUSY'') [] []) =
     Done (Inl 4) u \<and> ended plain_invocation u \<and> outs u = ''ATD'' @ ''*99#'' @ [CHR 0x0D]"
proof -
  have "no_escapes ''*99#''" "CHR '' '' \<notin> set ''*99#''" by (simp_all add: no_escapes_def)
  note dialled = dial_outcome [of plain_invocation, OF _ _ _ _ this]
  have "chat_file plain_invocation = None" "tty_get plain_invocation" "tty_set plain_invocation"
      "tty_restore plain_invocation" by simp_all
  from dialled [OF this, THEN conjunct2] show ?thesis unfolding busy_line [symmetric] by blast
qed

text \<open>
  C29. As long as no \<open>REPORT\<close> string is set and no report is being gathered (\<open>listening\<close>, with the
  abort strings \<open>as\<close>), and the timeout is not 0: for a string without NUL that is not empty and has
  at most 1024 bytes when its escapes are resolved, \<open>get_string\<close>, which keeps a window of the last
  bytes and compares at every byte, returns, and decides what the reference decides on the whole
  text heard: the first time the string or an abort string is a suffix of it, the string having
  precedence and earlier abort strings over later ones.
\<close>

theorem chat_listens:
  assumes "listening as s" and "chat_timeout s \<noteq> 0" and "NUL \<notin> set t"
    and "expected iv t \<noteq> []" and "length (expected iv t) \<le> STR_LEN"
  shows "\<exists>r s'. get_string iv t s = Done r s' \<and>
    concluded (listen (expected iv t) as [] (bytes_heard (stdin s))) r s'"
  using get_string_listens [OF assms(1-3), of iv] assms(4,5) by auto

theorem chat_listens_witness:
  "\<exists>r s'. get_string plain_invocation ''OK'' (chat_start (incoming ''NOK'') [] []) = Done r s' \<and>
     concluded (listen (expected plain_invocation ''OK'') [] []
       (bytes_heard (stdin (chat_start (incoming ''NOK'') [] [])))) r s'"
  by (rule chat_listens)
    (simp_all add: listening_def chat_start_def DEFAULT_CHAT_TIMEOUT_def expected_plain no_escapes_def STR_LEN_def)

text \<open>
  C30. Every script without the word \<open>REPORT\<close>, on the command line or in a file, runs into no
  undefined behaviour and ends, whatever the modem sends, whenever the alarm rings and whichever
  writes fail; if the terminal can be reset, that is the last thing the program does.  The settings
  of the terminal can be read and set, the timeout the program begins with is not 0, the words hold
  no NUL, and what the escapes insert, the phone numbers and the variables of the environment, does not
  end within an escape and holds a NUL only within one (\<open>insertions_ok\<close>).
\<close>

theorem chat_ends:
  assumes "insertions_ok iv" and "tty_get iv" and "tty_set iv" and "secs \<noteq> 0"
    and "case chat_file iv of
        None \<Rightarrow> \<forall>t \<in> set args. script_word t
      | Some f \<Rightarrow> args = [] \<and> (\<forall>t. file_text iv f = Some t \<longrightarrow> \<not> sublist ''REPORT'' t)"
  shows "\<exists>n u. chat_run iv args ((chat_start es rs ws)\<lparr>chat_timeout := secs\<rparr>) = Done (Inl n) u \<and> ended iv u"
  using assms(1-3,5) chat_start_timed [OF assms(4)] by (intro chat_run_ends)

theorem chat_ends_witness:
  "\<exists>n u. chat_run plain_invocation [''ABORT'', ''BUSY'', [], ''AT'', ''OK-AT-OK'']
     ((chat_start (incoming ''ERROR'' @ [(True, None)]) [False, True] [True, False])\<lparr>chat_timeout := 45\<rparr>) =
       Done (Inl n) u \<and>
     ended plain_invocation u"
  by (rule chat_ends) (simp_all add: script_word_def)

text \<open>
  C31. \<open>clean\<close> never writes behind the block it allocates, whatever escapes the string has and
  whatever numbers and variables it inserts; and what it makes for sending is well escaped if
  the insertions are, so that \<open>put_string\<close> does not read behind it.
\<close>

theorem chat_clean_fits:
  assumes "NUL \<notin> set t"
  shows "\<exists>k b. clean iv t sending = Done () k \<and> written k = b @ [NUL] \<and> length (written k) \<le> room k \<and>
    (sending \<and> insertions_ok iv \<longrightarrow> well_escaped b)"
  using assms by (rule clean_works)

theorem chat_clean_fits_witness:
  "\<exists>k b. clean (plain_invocation\<lparr>phone_num := Some ''12345''\<rparr>) [Backslash, CHR ''T'', Backslash] True = Done () k \<and>
     written k = b @ [NUL] \<and> length (written k) \<le> room k \<and>
     (True \<and> insertions_ok (plain_invocation\<lparr>phone_num := Some ''12345''\<rparr>) \<longrightarrow> well_escaped b)"
  by (rule chat_clean_fits) simp

text \<open>
  C32. The variables keep their types: whatever word is sent or waited for, an operation that comes
  back leaves an abort table of 50 pointers, of which the first \<open>n_aborts\<close> are strings that fit
  the buffer for the reason of failure, and a timeout that is not zero.
\<close>

theorem abort_table:
  assumes "chat_ok s" and "insertions_ok iv" and "script_word t"
    and "chat_send iv t s = Done (Inr ()) u \<or> chat_expect iv t s = Done (Inr ()) u"
  shows "length (abort_string u) = MAX_ABORTS \<and> n_aborts u \<le> MAX_ABORTS \<and> chat_timeout u \<noteq> 0 \<and>
    (\<exists>as. take (n_aborts u) (abort_string u) = map Some as \<and> (\<forall>a \<in> set as. length a < FAIL_BUFFER))"
  using chat_word_ok [OF assms] by (auto simp: chat_ok_def listening_def)

definition terminal_set :: chat_vars where
  "terminal_set = (chat_start [] [] [])\<lparr>have_tty_parameters := True, abort_next := True\<rparr>"

theorem abort_table_witness:
  "\<exists>u. chat_send plain_invocation ''BUSY'' terminal_set = Done (Inr ()) u \<and>
    length (abort_string u) = MAX_ABORTS \<and> n_aborts u \<le> MAX_ABORTS \<and> chat_timeout u \<noteq> 0 \<and>
    (\<exists>as. take (n_aborts u) (abort_string u) = map Some as \<and> (\<forall>a \<in> set as. length a < FAIL_BUFFER))"
proof -
  obtain u where u: "chat_send plain_invocation ''BUSY'' terminal_set = Done (Inr ()) u"
    by (simp add: chat_send_def evalx terminal_set_def chat_start_def add_abort_def short_plain no_escapes_def chat_sizes)
  have "chat_ok terminal_set"
    by (simp add: terminal_set_def chat_ok_def listening_def chat_start_def DEFAULT_CHAT_TIMEOUT_def)
  then show ?thesis
    using u abort_table [of terminal_set plain_invocation "''BUSY''" u] by (auto simp: script_word_def)
qed

text \<open>
  C33. \<open>CLR_ABORT\<close> removes exactly the given string from a table of different strings, keeps the
  order of the others, and leaves no gap.
\<close>

theorem clear_abort_one:
  assumes "take (n_aborts s) (abort_string s) = map Some as" and "n_aborts s \<le> length (abort_string s)"
    and "distinct as" and "no_escapes t" and "length t < FAIL_BUFFER"
  shows "\<exists>u. clear_abort iv t s = Done (Inr ()) u \<and>
    take (n_aborts u) (abort_string u) = map Some (remove1 t as) \<and> length (abort_string u) = length (abort_string s)"
proof -
  obtain ys where "clear_strings t (n_aborts s) (abort_string s) = Some (length (remove1 t as), ys)"
      "take (length (remove1 t as)) ys = map Some (remove1 t as)" "length ys = length (abort_string s)"
    using clear_strings_distinct [OF assms(1-3)] by blast
  then show ?thesis
    using assms(4,5) by (simp add: clear_abort_def evalx short_plain)
qed

definition three_aborts :: chat_vars where
  "three_aborts = (chat_start [] [] [])\<lparr>abort_string := [Some ''BUSY'', Some ''ERROR'', Some ''VOICE'', None], n_aborts := 3\<rparr>"

theorem clear_abort_one_witness:
  "\<exists>u. clear_abort plain_invocation ''ERROR'' three_aborts = Done (Inr ()) u \<and>
     take (n_aborts u) (abort_string u) = map Some (remove1 ''ERROR'' [''BUSY'', ''ERROR'', ''VOICE'']) \<and>
     length (abort_string u) = length (abort_string three_aborts)"
  by (rule clear_abort_one) (simp_all add: three_aborts_def no_escapes_def FAIL_BUFFER_def numeral_eq_Suc)

text \<open>
  C34. A script that is written into a file, words with blanks or special first characters in
  quotes, runs as the same words on the command line, however they are divided into lines, provided
  that no word holds a backslash, a double quote, a newline or a NUL, and no line has more than 1022
  bytes (\<open>line_fits\<close>); a longer line would be read in parts.
\<close>

theorem script_file:
  assumes "\<forall>ws \<in> set wss. line_fits ws" and "file_text iv f = Some (show_file wss)"
  shows "do_file iv f = chat_args iv (concat wss)"
  using assms by (rule do_file_arguments)

definition two_lines :: "string list list" where
  "two_lines = [[''ABORT'', ''NO CARRIER''], [], [[], ''AT'', ''OK'']]"

definition with_file :: invocation where
  "with_file = plain_invocation\<lparr>file_text := (\<lambda>_. Some (show_file two_lines))\<rparr>"

theorem script_file_witness:
  "do_file with_file ''script'' = chat_args with_file (concat two_lines)"
  by (rule script_file) (simp_all add: with_file_def two_lines_def line_fits_def word_ok_def show_line_def
      show_word_def is_blank_def STR_LEN_def)

text \<open>
  C35. Clearing a report string after one was heard makes the program follow a NULL pointer: the
  entry that was heard is NULL, but still counted.
\<close>

theorem report_cleared_crash:
  assumes "chat_file iv = None" and "tty_get iv" and "tty_set iv" and "length (now_text iv) < 20"
    and "waits_as_is r" and "length r < FAIL_BUFFER" and "seven_bit r" and "no_escapes t" and "length t < FAIL_BUFFER"
  shows "\<exists>u. chat_run iv [''REPORT'', r, r, [], ''CLR_REPORT'', t] (chat_start (incoming r) [] []) = Fault NullDeref u"
  using assms by (rule clear_report_crash)

theorem report_cleared_crash_witness:
  "\<exists>u. chat_run plain_invocation [''REPORT'', ''RING'', ''RING'', [], ''CLR_REPORT'', ''RING'']
     (chat_start (incoming ''RING'') [] []) = Fault NullDeref u"
  by (rule report_cleared_crash)
    (simp_all add: waits_as_is_def no_escapes_def script_keywords_def seven_bit_def code_def chat_sizes)

text \<open>
  C36. A message is a list of items: literal text without a percent sign, decimal, octal and
  hexadecimal numbers, addresses, strings, their first characters, single characters, the text of
  the error, and bytes made visible or quoted.  With the format and the arguments of these items
  (\<open>%d\<close>, \<open>%o\<close>, \<open>%x\<close>, \<open>%p\<close>, \<open>%s\<close>, \<open>%.5s\<close>, \<open>%c\<close>, \<open>%m\<close>, \<open>%v\<close>, \<open>%0.*v\<close>, \<open>%q\<close>) \<open>vfmtmsg\<close> leaves the texts of
  the items, one after the other, in its buffer, cut to the size of the buffer and with a
  terminating NUL, and gives the length of what it has left.  The numbers are \<open>int\<close>s, decimal ones
  not the least, and there are no widths.
\<close>

theorem message_fits:
  assumes "list_all item_ok xs" and "NUL \<notin> set strerror" and "0 < n"
    and "t = concat (map (item_text strerror) xs)"
  shows "\<exists>k. vfmtmsg strerror n (message_format xs) (message_args xs) = Done (min (n - 1) (length t)) k \<and>
    capacity k = n \<and> printed k = take (n - 1) t @ [NUL]"
  using vfmtmsg_text [OF message_items(2) [OF assms(1,2)] assms(3)] message_items(1) [OF assms(1,2)] assms(4) by simp

definition sample_message :: "fmt_item list" where
  "sample_message = [Literal ''timeout '', Decimal 40, Literal '', flags '', Hexadecimal 31, Literal '' '', Octal 8]"

lemma sample_texts:
  "message_format sample_message = ''timeout %d, flags %x %o''"
  "message_args sample_message = [Number 40, Number 31, Number 8]"
  "concat (map (item_text []) sample_message) = ''timeout 40, flags 1f 10''"
  by code_simp+

theorem message_fits_witness:
  "\<exists>k. vfmtmsg [] 22 ''timeout %d, flags %x %o'' [Number 40, Number 31, Number 8] = Done 21 k \<and>
     capacity k = 22 \<and> printed k = ''timeout 40, flags 1f '' @ [NUL]"
  using message_fits [of sample_message "[]" 22 "''timeout 40, flags 1f 10''"]
  unfolding sample_texts by (simp add: sample_message_def int32_def numeral_eq_Suc)

end
